(* ===== verification/Prelude.thy ===== *)
theory Prelude
  imports Complex_Main "HOL-Library.AList" "HOL-Library.Char_ord" "HOL-Library.List_Lexorder"
begin

text \<open>
  What every component shares: Go strings as lists of bytes with the operations of the
  packages \<open>strings\<close> and \<open>fmt\<close> the sources use, 64-bit integers with their wrap-around,
  and the generic facts about association lists and option values that the component
  proofs rest on.  The collection \<open>go_string\<close> holds the evaluation rules of the string
  operations, \<open>alist_laws\<close> the laws of association lists with distinct keys.
\<close>

named_theorems go_string \<open>facts about the string operations\<close>
named_theorems alist_laws \<open>facts about association lists used as Go maps\<close>

section \<open>Machine integers\<close>

text \<open>Go's \<open>int\<close>, \<open>int64\<close> and \<open>time.Duration\<close> are 64-bit two's complement; \<open>wrap64\<close> is
  the value an overflowing operation leaves.\<close>

definition max_int64 :: int where
  "max_int64 = 9223372036854775807"

definition min_int64 :: int where
  "min_int64 = - 9223372036854775808"

definition in_int64 :: "int \<Rightarrow> bool" where
  "in_int64 n \<longleftrightarrow> min_int64 \<le> n \<and> n \<le> max_int64"

definition wrap64 :: "int \<Rightarrow> int" where
  "wrap64 n = (n + 9223372036854775808) mod 18446744073709551616 - 9223372036854775808"

lemma wrap64_in_int64: "in_int64 (wrap64 n)"
proof -
  have "0 \<le> (n + 9223372036854775808) mod 18446744073709551616"
    by (rule pos_mod_sign) simp
  moreover have "(n + 9223372036854775808) mod 18446744073709551616 < 18446744073709551616"
    by (rule pos_mod_bound) simp
  ultimately show ?thesis
    by (simp add: wrap64_def in_int64_def min_int64_def max_int64_def)
qed

lemma wrap64_id [simp]: "in_int64 n \<Longrightarrow> wrap64 n = n"
  by (simp add: wrap64_def in_int64_def min_int64_def max_int64_def)

section \<open>Strings\<close>

fun has_prefix :: "string \<Rightarrow> string \<Rightarrow> bool" where
  "has_prefix [] s = True"
| "has_prefix (p # ps) [] = False"
| "has_prefix (p # ps) (c # cs) = (p = c \<and> has_prefix ps cs)"

definition has_suffix :: "string \<Rightarrow> string \<Rightarrow> bool" where
  "has_suffix p s = has_prefix (rev p) (rev s)"

text \<open>\<open>strings.TrimPrefix\<close>, \<open>strings.TrimSuffix\<close> and \<open>strings.CutPrefix\<close>.\<close>

definition trim_prefix :: "string \<Rightarrow> string \<Rightarrow> string" where
  "trim_prefix p s = (if has_prefix p s then drop (length p) s else s)"

definition trim_suffix :: "string \<Rightarrow> string \<Rightarrow> string" where
  "trim_suffix p s = (if has_suffix p s then take (length s - length p) s else s)"

definition cut_prefix :: "string \<Rightarrow> string \<Rightarrow> string option" where
  "cut_prefix p s = (if has_prefix p s then Some (drop (length p) s) else None)"

text \<open>\<open>strings.Split\<close> on a one-byte separator: never empty, and \<open>""\<close> splits into one
  empty part.\<close>

fun split_on :: "char \<Rightarrow> string \<Rightarrow> string list" where
  "split_on d [] = [[]]"
| "split_on d (c # cs) =
     (if c = d then [] # split_on d cs
      else (case split_on d cs of [] \<Rightarrow> [[c]] | p # ps \<Rightarrow> (c # p) # ps))"

text \<open>\<open>strings.Join\<close>.\<close>

fun join :: "string \<Rightarrow> string list \<Rightarrow> string" where
  "join sep [] = []"
| "join sep [x] = x"
| "join sep (x # y # xs) = x @ sep @ join sep (y # xs)"

fun str_contains :: "string \<Rightarrow> string \<Rightarrow> bool" where
  "str_contains p [] = (p = [])"
| "str_contains p (c # cs) = (has_prefix p (c # cs) \<or> str_contains p cs)"

text \<open>\<open>strings.ToLower\<close> and \<open>strings.EqualFold\<close>; the sources compare the results with ASCII
  literals only, so the case of non-ASCII letters is left alone.\<close>

definition lower_char :: "char \<Rightarrow> char" where
  "lower_char c =
     (case map_of (zip ''ABCDEFGHIJKLMNOPQRSTUVWXYZ'' ''abcdefghijklmnopqrstuvwxyz'') c of
        None \<Rightarrow> c | Some d \<Rightarrow> d)"

definition to_lower :: "string \<Rightarrow> string" where
  "to_lower s = map lower_char s"

definition equal_fold :: "string \<Rightarrow> string \<Rightarrow> bool" where
  "equal_fold s t = (to_lower s = to_lower t)"

text \<open>\<open>strings.TrimSpace\<close>: the white space of \<open>unicode.IsSpace\<close>, as the byte sequences UTF-8
  gives them.\<close>

definition space_seqs :: "string list" where
  "space_seqs =
     [''\<newline>'', '' '', [CHR 0x09], [CHR 0x0B], [CHR 0x0C], [CHR 0x0D],
      [CHR 0xC2, CHR 0x85], [CHR 0xC2, CHR 0xA0], [CHR 0xE1, CHR 0x9A, CHR 0x80],
      [CHR 0xE2, CHR 0x80, CHR 0x80], [CHR 0xE2, CHR 0x80, CHR 0x81],
      [CHR 0xE2, CHR 0x80, CHR 0x82], [CHR 0xE2, CHR 0x80, CHR 0x83],
      [CHR 0xE2, CHR 0x80, CHR 0x84], [CHR 0xE2, CHR 0x80, CHR 0x85],
      [CHR 0xE2, CHR 0x80, CHR 0x86], [CHR 0xE2, CHR 0x80, CHR 0x87],
      [CHR 0xE2, CHR 0x80, CHR 0x88], [CHR 0xE2, CHR 0x80, CHR 0x89],
      [CHR 0xE2, CHR 0x80, CHR 0x8A], [CHR 0xE2, CHR 0x80, CHR 0xA8],
      [CHR 0xE2, CHR 0x80, CHR 0xA9], [CHR 0xE2, CHR 0x80, CHR 0xAF],
      [CHR 0xE2, CHR 0x81, CHR 0x9F], [CHR 0xE3, CHR 0x80, CHR 0x80]]"

lemma space_seqs_nonempty: "w \<in> set space_seqs \<Longrightarrow> 0 < length w"
  by (auto simp: space_seqs_def)

text \<open>\<open>drop_seqs\<close> strips leading members of a list of sequences; the fuel is the length of the
  text, of which every strip takes at least one byte.\<close>

fun drop_seqs :: "nat \<Rightarrow> string list \<Rightarrow> string \<Rightarrow> string" where
  "drop_seqs 0 ws s = s"
| "drop_seqs (Suc n) ws s =
     (case List.find (\<lambda>w. has_prefix w s) ws of
        None \<Rightarrow> s | Some w \<Rightarrow> drop_seqs n ws (drop (length w) s))"

definition trim_left :: "string \<Rightarrow> string" where
  "trim_left s = drop_seqs (length s) space_seqs s"

definition trim_space :: "string \<Rightarrow> string" where
  "trim_space s =
     (let t = trim_left s in rev (drop_seqs (length t) (map rev space_seqs) (rev t)))"

subsection \<open>Laws\<close>

lemma has_prefix_take: "has_prefix p s \<longleftrightarrow> take (length p) s = p"
  by (induction p s rule: has_prefix.induct) auto

lemma has_prefix_append [simp, go_string]: "has_prefix p (p @ s)"
  by (simp add: has_prefix_take)

lemma has_prefix_decomp: "has_prefix p s \<Longrightarrow> s = p @ drop (length p) s"
  by (metis append_take_drop_id has_prefix_take)

lemma has_prefix_longer:
  "has_prefix p s \<Longrightarrow> length s < length p + length t \<Longrightarrow> \<not> has_prefix (p @ t) s"
  by (auto simp: has_prefix_take dest: arg_cong [where f = length])

lemma split_on_nonempty [simp, go_string]: "split_on d s \<noteq> []"
  by (cases s) (auto split: list.split)

lemma split_on_no_sep: "d \<notin> set s \<Longrightarrow> split_on d s = [s]"
  by (induction s) auto

lemma split_on_parts: "p \<in> set (split_on d s) \<Longrightarrow> d \<notin> set p"
  by (induction s arbitrary: p) (auto split: if_splits list.splits)

lemma join_single_sep:
  "xs \<noteq> [] \<Longrightarrow> join [d] xs = concat (map (\<lambda>x. x @ [d]) (butlast xs)) @ last xs"
  by (induction "[d]" xs rule: join.induct) auto

lemma split_on_append:
  "d \<notin> set p \<Longrightarrow> split_on d (p @ d # s) = p # split_on d s"
  by (induction p) auto

lemma split_on_join:
  "xs \<noteq> [] \<Longrightarrow> (\<forall>x \<in> set xs. d \<notin> set x) \<Longrightarrow> split_on d (join [d] xs) = xs"
proof (induction "[d]" xs rule: join.induct)
  case 1 then show ?case by simp
next
  case (2 x) then show ?case by (simp add: split_on_no_sep)
next
  case (3 x y xs) then show ?case by (simp add: split_on_append)
qed

lemma join_split_on: "join [d] (split_on d s) = s"
proof (induction s)
  case Nil then show ?case by simp
next
  case (Cons c s)
  obtain p ps where sp: "split_on d s = p # ps"
    by (cases "split_on d s") auto
  show ?case using Cons sp by (cases ps) auto
qed

section \<open>Association lists as Go maps\<close>

text \<open>A Go map is an association list with distinct keys: \<open>m[k]\<close> is \<open>map_of\<close>, \<open>m[k] = v\<close> is
  \<open>AList.update\<close> and \<open>delete(m, k)\<close> is \<open>AList.delete\<close>.\<close>

lemma map_of_delete_alist [simp, alist_laws]:
  "map_of (AList.delete k al) j = (if j = k then None else map_of al j)"
  by (simp add: AList.delete_conv)

lemma map_of_update_alist [simp, alist_laws]:
  "map_of (AList.update k v al) j = (if j = k then Some v else map_of al j)"
  by (simp add: AList.update_conv)

lemma map_of_map_snd [simp, alist_laws]:
  "map_of (map (\<lambda>(k, v). (k, f v)) al) j = map_option f (map_of al j)"
  by (induction al) auto

end
