(* ===== verification/Strconv.thy ===== *)
theory Strconv
  imports Prelude "HOL-Library.Log_Nat"
begin

text \<open>
  The conversions between text and numbers the sources take from \<open>strconv\<close>,
  \<open>encoding/json\<close> and \<open>fmt\<close>: \<open>Itoa\<close>, \<open>Atoi\<close> and \<open>ParseInt\<close> with their 64-bit range,
  \<open>ParseFloat\<close> on decimal literals, and the shortest decimal form of a float64.

  A finite float64 is the rational number it denotes; \<open>fl64\<close> is rounding to the nearest
  float64, ties to even, and \<open>None\<close> when the value is beyond the largest one.  The sign of
  a zero is not kept.  Hexadecimal floats and digit separators of \<open>ParseFloat\<close> are not
  covered: they count as syntax errors.
\<close>

section \<open>Decimal digits\<close>

definition digits10 :: string where
  "digits10 = ''0123456789''"

definition digit_char :: "nat \<Rightarrow> char" where
  "digit_char d = digits10 ! d"

definition digit_val :: "char \<Rightarrow> nat option" where
  "digit_val c = map_of (zip digits10 [0, 1, 2, 3, 4, 5, 6, 7, 8, 9]) c"

definition is_digit :: "char \<Rightarrow> bool" where
  "is_digit c = (digit_val c \<noteq> None)"

fun show_nat :: "nat \<Rightarrow> string" where
  "show_nat n = (if n < 10 then [digit_char n] else show_nat (n div 10) @ [digit_char (n mod 10)])"

declare show_nat.simps [simp del]

text \<open>\<open>strconv.Itoa\<close>, which is also what \<open>%d\<close> prints.\<close>

definition itoa :: "int \<Rightarrow> string" where
  "itoa n = (if n < 0 then CHR ''-'' # show_nat (nat (- n)) else show_nat (nat n))"

text \<open>The value of a run of digits; \<open>None\<close> if a byte is no digit.\<close>

fun digits_val :: "nat \<Rightarrow> string \<Rightarrow> nat option" where
  "digits_val acc [] = Some acc"
| "digits_val acc (c # cs) =
     (case digit_val c of None \<Rightarrow> None | Some d \<Rightarrow> digits_val (10 * acc + d) cs)"

definition split_sign :: "string \<Rightarrow> bool \<times> string" where
  "split_sign s = (case s of
       [] \<Rightarrow> (False, [])
     | c # cs \<Rightarrow> if c = CHR ''-'' then (True, cs) else if c = CHR ''+'' then (False, cs) else (False, s))"

text \<open>\<open>strconv.Atoi\<close>: the value and whether the error is nil.  Out of range the value is the
  nearest 64-bit integer, which callers that drop the error go on with.\<close>

definition atoi :: "string \<Rightarrow> int \<times> bool" where
  "atoi s = (let (neg, ds) = split_sign s in
     if ds = [] then (0, False)
     else case digits_val 0 ds of
            None \<Rightarrow> (0, False)
          | Some n \<Rightarrow> (let v = (if neg then - int n else int n) in
              if v < min_int64 then (min_int64, False)
              else if max_int64 < v then (max_int64, False)
              else (v, True)))"

subsection \<open>Laws: the decimal text of a number reads back as the number\<close>

lemma below_ten: "(d::nat) < 10 \<Longrightarrow> d \<in> {0, 1, 2, 3, 4, 5, 6, 7, 8, 9}"
  by auto

lemma digit_val_char: "d < 10 \<Longrightarrow> digit_val (digit_char d) = Some d"
  by (drule below_ten) (auto simp: digit_val_def digit_char_def digits10_def)

lemma digits_val_append:
  "digits_val acc (s @ [c]) =
     (case digits_val acc s of None \<Rightarrow> None | Some n \<Rightarrow>
        (case digit_val c of None \<Rightarrow> None | Some d \<Rightarrow> Some (10 * n + d)))"
  by (induction s arbitrary: acc) (auto split: option.splits)

lemma digits_val_show_nat: "digits_val 0 (show_nat n) = Some n"
proof (induction n rule: show_nat.induct)
  case (1 n)
  show ?case
  proof (cases "n < 10")
    case True
    then show ?thesis by (simp add: show_nat.simps [of n] digit_val_char)
  next
    case False
    with "1.IH" have "digits_val 0 (show_nat (n div 10)) = Some (n div 10)" by simp
    with False show ?thesis
      by (simp add: show_nat.simps [of n] digits_val_append digit_val_char)
  qed
qed

lemma show_nat_nonempty [simp]: "show_nat n \<noteq> []"
  by (subst show_nat.simps) simp

lemma digit_char_not_sign: "d < 10 \<Longrightarrow> digit_char d \<noteq> CHR ''-'' \<and> digit_char d \<noteq> CHR ''+''"
  using digit_val_char [of d] by (auto simp: digit_val_def digits10_def)

lemma hd_show_nat: "hd (show_nat n) \<noteq> CHR ''-'' \<and> hd (show_nat n) \<noteq> CHR ''+''"
proof (induction n rule: show_nat.induct)
  case (1 n)
  then show ?case
    by (cases "n < 10") (simp_all add: show_nat.simps [of n] digit_char_not_sign)
qed

lemma split_sign_show_nat: "split_sign (show_nat n) = (False, show_nat n)"
  using hd_show_nat [of n] by (cases "show_nat n") (auto simp: split_sign_def)

lemma atoi_itoa: "in_int64 n \<Longrightarrow> atoi (itoa n) = (n, True)"
proof (cases "n < 0")
  case True
  assume "in_int64 n"
  with True show ?thesis
    by (simp add: atoi_def itoa_def split_sign_def digits_val_show_nat in_int64_def Let_def)
next
  case False
  assume "in_int64 n"
  with False show ?thesis
    by (simp add: atoi_def itoa_def split_sign_show_nat digits_val_show_nat in_int64_def Let_def)
qed

lemma itoa_inj: "itoa m = itoa n \<Longrightarrow> in_int64 m \<Longrightarrow> in_int64 n \<Longrightarrow> m = n"
  by (metis Pair_inject atoi_itoa)

lemma atoi_in_int64: "in_int64 (fst (atoi s))"
  by (auto simp: atoi_def in_int64_def min_int64_def max_int64_def Let_def
      split: prod.splits option.splits)

section \<open>float64\<close>

text \<open>\<open>round_even q\<close> is the integer nearest to \<open>q\<close>, the even one of two.\<close>

definition round_even :: "rat \<Rightarrow> int" where
  "round_even q = (let f = \<lfloor>q\<rfloor>; r = q - of_int f in
     if r < 1 / 2 then f else if 1 / 2 < r then f + 1 else if even f then f else f + 1)"

definition pow2 :: "int \<Rightarrow> rat" where
  "pow2 e = (if 0 \<le> e then 2 ^ nat e else 1 / 2 ^ nat (- e))"

text \<open>The exponent of the last place of a positive value: 53 bits of precision, and no place
  below \<open>2 ^ -1074\<close>.\<close>

definition ulp_exp :: "rat \<Rightarrow> int" where
  "ulp_exp x = (let (n, d) = quotient_of x; k = bitlen n - bitlen d in
     max (-1074) ((if x < pow2 k then k - 1 else k) - 52))"

definition fl64_pos :: "rat \<Rightarrow> rat option" where
  "fl64_pos x = (let e = ulp_exp x; y = of_int (round_even (x / pow2 e)) * pow2 e in
     if y < pow2 1024 then Some y else None)"

definition fl64 :: "rat \<Rightarrow> rat option" where
  "fl64 x = (if x = 0 then Some 0
     else if 0 < x then fl64_pos x else map_option uminus (fl64_pos (- x)))"

text \<open>\<open>int(f)\<close>: truncation towards zero.  Out of range the result is implementation
  specific in Go; the value here is the one amd64 produces.\<close>

definition trunc_rat :: "rat \<Rightarrow> int" where
  "trunc_rat x = (if 0 \<le> x then \<lfloor>x\<rfloor> else - \<lfloor>- x\<rfloor>)"

definition float_to_int :: "rat \<Rightarrow> int" where
  "float_to_int x = (let n = trunc_rat x in if in_int64 n then n else min_int64)"

text \<open>\<open>float64(n)\<close> of a 64-bit integer never overflows.\<close>

definition int_to_float :: "int \<Rightarrow> rat" where
  "int_to_float n = (case fl64 (of_int n) of None \<Rightarrow> 0 | Some x \<Rightarrow> x)"

text \<open>Integers below \<open>2 ^ 53\<close> are exact.\<close>

lemma round_even_of_int [simp]: "round_even (of_int n) = n"
  by (simp add: round_even_def Let_def)

lemma fl64_pos_of_int:
  assumes "0 < n" "n < 2 ^ 53"
  shows "fl64_pos (of_int n) = Some (of_int n)"
proof -
  define k where "k = bitlen n - 1"
  have b: "2 ^ nat k \<le> n" "n < 2 ^ nat (bitlen n)" "0 \<le> k"
    using bitlen_bounds [of n] bitlen_ge_iff_power [of 1 n] assms(1) by (auto simp: k_def)
  have k52: "k \<le> 52"
  proof (rule ccontr)
    assume "\<not> k \<le> 52"
    then have "(2::int) ^ 53 \<le> 2 ^ nat k" by (intro power_increasing) auto
    then show False using b assms(2) by linarith
  qed
  have q: "quotient_of (of_int n) = (n, 1)"
    by (simp add: quotient_of_int)
  have "of_int (2 ^ nat k) \<le> (of_int n :: rat)"
    using b(1) by (simp only: of_int_le_iff)
  then have "\<not> (of_int n :: rat) < pow2 k"
    using b(3) by (simp add: pow2_def)
  moreover have "bitlen n - bitlen 1 = k"
    by (simp add: k_def compute_bitlen)
  ultimately have e: "ulp_exp (of_int n) = k - 52"
    using b(3) by (simp add: ulp_exp_def q Let_def)
  have p: "pow2 (k - 52) = 1 / 2 ^ nat (52 - k)"
    using k52 by (cases "k = 52") (simp_all add: pow2_def)
  have r: "round_even (of_int n / pow2 (k - 52)) = n * 2 ^ nat (52 - k)"
    using round_even_of_int [of "n * 2 ^ nat (52 - k)"] by (simp add: p)
  have "(of_int n :: rat) < 2 ^ 53"
    using assms(2) by (metis of_int_less_iff of_int_numeral of_int_power)
  also have "(2 :: rat) ^ 53 \<le> pow2 1024"
    by (simp add: pow2_def)
  finally show ?thesis
    by (simp add: fl64_pos_def e Let_def r) (simp add: p)
qed

lemma int_to_float_exact: "0 \<le> n \<Longrightarrow> n < 2 ^ 53 \<Longrightarrow> int_to_float n = of_int n"
  by (cases "n = 0") (simp_all add: int_to_float_def fl64_def fl64_pos_of_int)

lemma float_to_int_of_int: "in_int64 n \<Longrightarrow> float_to_int (of_int n) = n"
  by (auto simp: float_to_int_def trunc_rat_def Let_def simp flip: of_int_minus)

lemma float_to_int_exact: "0 \<le> n \<Longrightarrow> n < 2 ^ 53 \<Longrightarrow> float_to_int (int_to_float n) = n"
  by (simp add: int_to_float_exact float_to_int_of_int in_int64_def min_int64_def max_int64_def)

section \<open>ParseFloat\<close>

datatype float_text =
    FSyntax            \<comment> \<open>\<open>ErrSyntax\<close>\<close>
  | FRange bool        \<comment> \<open>\<open>ErrRange\<close> with plus (\<open>False\<close>) or minus infinity\<close>
  | FInf bool          \<comment> \<open>an infinity written as such\<close>
  | FNaN
  | FNum rat

fun take_digits :: "string \<Rightarrow> string \<times> string" where
  "take_digits [] = ([], [])"
| "take_digits (c # cs) =
     (if is_digit c then (let (ds, rest) = take_digits cs in (c # ds, rest)) else ([], c # cs))"

text \<open>\<open>int_digits . frac_digits\<close> and what follows them.\<close>

definition scan_mantissa :: "string \<Rightarrow> (string \<times> string) \<times> string" where
  "scan_mantissa s = (let (is, r) = take_digits s in
     case r of
       [] \<Rightarrow> ((is, []), [])
     | c # cs \<Rightarrow> if c = CHR ''.'' then (let (fs, r') = take_digits cs in ((is, fs), r'))
                else ((is, []), r))"

text \<open>The exponent part: absent, or \<open>e\<close>, a sign and digits up to the end of the text.\<close>

definition scan_exponent :: "string \<Rightarrow> int option" where
  "scan_exponent s = (case s of
       [] \<Rightarrow> Some 0
     | c # cs \<Rightarrow>
         if c = CHR ''e'' \<or> c = CHR ''E'' then
           (let (neg, ds) = split_sign cs in
            if ds = [] then None
            else map_option (\<lambda>n. if neg then - int n else int n) (digits_val 0 ds))
         else None)"

definition pow10 :: "int \<Rightarrow> rat" where
  "pow10 e = (if 0 \<le> e then 10 ^ nat e else 1 / 10 ^ nat (- e))"

definition decimal_value :: "string \<Rightarrow> string \<Rightarrow> int \<Rightarrow> rat" where
  "decimal_value is fs e =
     (case digits_val 0 (is @ fs) of
        None \<Rightarrow> 0 | Some m \<Rightarrow> of_nat m * pow10 (e - int (length fs)))"

text \<open>A literal with an exponent beyond 100000 in size is decided without computing the power,
  as \<open>readFloat\<close> caps the exponent.\<close>

definition parse_float :: "string \<Rightarrow> float_text" where
  "parse_float s = (let (neg, t) = split_sign s; low = to_lower t in
     if low = ''inf'' \<or> low = ''infinity'' then FInf neg
     else if to_lower s = ''nan'' then FNaN
     else let ((is, fs), r) = scan_mantissa t in
       if is @ fs = [] then FSyntax
       else case scan_exponent r of
              None \<Rightarrow> FSyntax
            | Some e \<Rightarrow>
                (let x = decimal_value is fs (max (-100000) (min 100000 e)) in
                 case fl64 (if neg then - x else x) of
                   None \<Rightarrow> FRange neg | Some y \<Rightarrow> FNum y))"

section \<open>The shortest decimal form of a float64\<close>

text \<open>\<open>dec_exp x\<close> is the \<open>p\<close> with \<open>10 ^ (p - 1) \<le> x < 10 ^ p\<close>: the search starts at the
  estimate the bit length gives, which is at most one below.\<close>

definition dec_exp :: "rat \<Rightarrow> int" where
  "dec_exp x = (let (n, d) = quotient_of x; k = bitlen n - bitlen d;
     p = \<lfloor>(of_int k * 30103 / 100000 :: rat)\<rfloor> - 1 in
     (if x < pow10 p then p
      else if x < pow10 (p + 1) then p + 1
      else if x < pow10 (p + 2) then p + 2 else p + 3))"

text \<open>The decimal of \<open>n\<close> digits nearest to \<open>x\<close>, as the digits' value and the exponent.\<close>

definition nearest_decimal :: "nat \<Rightarrow> rat \<Rightarrow> int \<times> int" where
  "nearest_decimal n x = (let e = dec_exp x - int n in (round_even (x / pow10 e), e))"

fun shortest_from :: "nat \<Rightarrow> nat \<Rightarrow> rat \<Rightarrow> int \<times> int" where
  "shortest_from 0 n x = nearest_decimal n x"
| "shortest_from (Suc k) n x =
     (let (m, e) = nearest_decimal n x in
      if fl64 (of_int m * pow10 e) = Some x then (m, e) else shortest_from k (Suc n) x)"

fun strip_zeros :: "nat \<Rightarrow> nat \<times> int \<Rightarrow> nat \<times> int" where
  "strip_zeros 0 p = p"
| "strip_zeros (Suc k) (m, e) =
     (if m mod 10 = 0 \<and> m \<noteq> 0 then strip_zeros k (m div 10, e + 1) else (m, e))"

definition shortest_decimal :: "rat \<Rightarrow> string \<times> int" where
  "shortest_decimal x = (let (m, e) = shortest_from 16 1 x; (m', e') = strip_zeros 400 (nat m, e);
     ds = show_nat m' in (ds, int (length ds) + e'))"

definition zeros :: "int \<Rightarrow> string" where
  "zeros n = replicate (nat n) (CHR ''0'')"

text \<open>\<open>%f\<close> and \<open>%e\<close> with the shortest digits \<open>ds\<close> and the decimal point after \<open>dp\<close> of them.\<close>

definition format_plain :: "string \<Rightarrow> int \<Rightarrow> string" where
  "format_plain ds dp =
     (if dp \<le> 0 then ''0.'' @ zeros (- dp) @ ds
      else if int (length ds) \<le> dp then ds @ zeros (dp - int (length ds))
      else take (nat dp) ds @ ''.'' @ drop (nat dp) ds)"

definition format_exp :: "string \<Rightarrow> int \<Rightarrow> string" where
  "format_exp ds dp = (let x = dp - 1; a = show_nat (nat \<bar>x\<bar>) in
     take 1 ds @ (if length ds = 1 then [] else CHR ''.'' # drop 1 ds) @ ''e''
     @ (if x < 0 then ''-'' else ''+'') @ (if length a < 2 then CHR ''0'' # a else a))"

text \<open>\<open>fmt.Sprint\<close> of a float64: \<open>%g\<close> with the shortest digits, which turns to the
  exponent form below \<open>1e-4\<close> and from \<open>1e6\<close> on.\<close>

definition sprint_float :: "rat \<Rightarrow> string" where
  "sprint_float x = (if x = 0 then ''0'' else
     (let (ds, dp) = shortest_decimal \<bar>x\<bar>; body = (if dp - 1 < - 4 \<or> 6 \<le> dp - 1 then format_exp ds dp else format_plain ds dp)
      in (if x < 0 then CHR ''-'' # body else body)))"

end
