(* ===== verification/Json.thy ===== *)
theory Json
  imports Strconv
begin

text \<open>
  The dynamic values the handlers work on (Go's \<open>any\<close> holding decoded JSON) and the
  accessors of \<open>internal/app/compat.go\<close>: \<open>mapAny\<close>, \<open>sliceAny\<close>, \<open>stringValue\<close>,
  \<open>boolValue\<close>, \<open>intValue\<close>, \<open>valueOr\<close>, \<open>setDefault\<close>, the deep copy \<open>cloneMap\<close>, and
  \<open>numberValue\<close> and \<open>exactInt\<close>.  Every accessor is total and never fails: a value of the
  wrong type reads as the zero value, as Go's comma-ok assertions make it.
\<close>

section \<open>Values\<close>

text \<open>
  \<open>JNull\<close> is the nil interface.  A number is a Go \<open>int\<close> the code put there, a \<open>float64\<close>
  from a plain decoder, or the literal of a \<open>json.Number\<close> from a decoder with \<open>UseNumber\<close>.
  \<open>JNilArr\<close> is a nil \<open>[]any\<close> stored in an interface: it differs from nil, iterates like an
  empty slice and is written as \<open>null\<close>.  An object is a non-nil \<open>map[string]any\<close>, as an
  association list with distinct keys.
\<close>

datatype json =
    JNull
  | JBool bool
  | JInt int
  | JFloat rat
  | JNumber string
  | JStr string
  | JArr "json list"
  | JNilArr
  | JObj "(string \<times> json) list"

type_synonym obj = "(string \<times> json) list"

text \<open>\<open>map[string]any\<close> may be nil; reading a nil map gives nil.\<close>

type_synonym gomap = "obj option"

definition oget :: "obj \<Rightarrow> string \<Rightarrow> json" where
  "oget m k = (case map_of m k of None \<Rightarrow> JNull | Some v \<Rightarrow> v)"

definition mget :: "gomap \<Rightarrow> string \<Rightarrow> json" where
  "mget m k = (case m of None \<Rightarrow> JNull | Some o' \<Rightarrow> oget o' k)"

definition has_key :: "obj \<Rightarrow> string \<Rightarrow> bool" where
  "has_key m k = (map_of m k \<noteq> None)"

abbreviation oset :: "string \<Rightarrow> json \<Rightarrow> obj \<Rightarrow> obj" where
  "oset k v m \<equiv> AList.update k v m"

abbreviation odel :: "string \<Rightarrow> obj \<Rightarrow> obj" where
  "odel k m \<equiv> AList.delete k m"

lemma oget_Nil [simp]: "oget [] k = JNull"
  by (simp add: oget_def)

lemma oget_Cons [simp]: "oget ((j, v) # m) k = (if k = j then v else oget m k)"
  by (simp add: oget_def)

lemma oget_oset [simp]: "oget (oset j v m) k = (if k = j then v else oget m k)"
  by (simp add: oget_def)

lemma oget_odel [simp]: "oget (odel j m) k = (if k = j then JNull else oget m k)"
  by (simp add: oget_def)

lemma has_key_oset [simp]: "has_key (oset j v m) k \<longleftrightarrow> k = j \<or> has_key m k"
  by (simp add: has_key_def)

lemma has_key_odel [simp]: "has_key (odel j m) k \<longleftrightarrow> k \<noteq> j \<and> has_key m k"
  by (simp add: has_key_def)

lemma mget_simps [simp]: "mget None k = JNull" "mget (Some m) k = oget m k"
  by (simp_all add: mget_def)

section \<open>Accessors\<close>

fun mapAny :: "json \<Rightarrow> gomap" where
  "mapAny (JObj m) = Some m"
| "mapAny _ = None"

fun sliceAny :: "json \<Rightarrow> json list" where
  "sliceAny (JArr xs) = xs"
| "sliceAny _ = []"

fun boolValue :: "json \<Rightarrow> bool" where
  "boolValue (JBool b) = b"
| "boolValue _ = False"

text \<open>\<open>fmt.Sprint\<close>: nested nil prints as \<open><nil>\<close>, slices in brackets, maps in key order.\<close>

fun sprint :: "json \<Rightarrow> string" where
  "sprint JNull = ''<nil>''"
| "sprint (JBool b) = (if b then ''true'' else ''false'')"
| "sprint (JInt n) = itoa n"
| "sprint (JFloat x) = sprint_float x"
| "sprint (JNumber s) = s"
| "sprint (JStr s) = s"
| "sprint (JArr xs) = ''['' @ join '' '' (map sprint xs) @ '']''"
| "sprint JNilArr = ''[]''"
| "sprint (JObj m) = ''map['' @ join '' '' (map (\<lambda>(k, t). k @ '':'' @ t)
     (sort_key fst (map (\<lambda>(k, v). (k, sprint v)) m))) @ '']''"

definition stringValue :: "json \<Rightarrow> string" where
  "stringValue v = (case v of JNull \<Rightarrow> [] | JStr s \<Rightarrow> s | _ \<Rightarrow> sprint v)"

text \<open>\<open>intValue\<close>: a literal that is no 64-bit integer is read as a float and truncated; a
  string goes through \<open>Atoi\<close> with its error dropped.\<close>

definition float_text_to_int :: "float_text \<Rightarrow> int" where
  "float_text_to_int t = (case t of FNum x \<Rightarrow> float_to_int x | FSyntax \<Rightarrow> 0 | _ \<Rightarrow> min_int64)"

definition intValue :: "json \<Rightarrow> int" where
  "intValue v = (case v of
       JInt n \<Rightarrow> n
     | JFloat x \<Rightarrow> float_to_int x
     | JNumber s \<Rightarrow> (let (n, ok) = atoi s in if ok then n else float_text_to_int (parse_float s))
     | JStr s \<Rightarrow> fst (atoi s)
     | _ \<Rightarrow> 0)"

definition valueOr :: "json \<Rightarrow> json \<Rightarrow> json" where
  "valueOr value fallback = (if value = JNull \<or> value = JStr [] then fallback else value)"

definition setDefault :: "obj \<Rightarrow> string \<Rightarrow> json \<Rightarrow> obj" where
  "setDefault m key value = (if oget m key = JNull then oset key value m else m)"

text \<open>\<open>numberValue\<close> and \<open>exactInt\<close>: \<open>None\<close> is the false flag.\<close>

definition numberValue :: "json \<Rightarrow> float_text option" where
  "numberValue v = (case v of
       JFloat x \<Rightarrow> Some (FNum x)
     | JInt n \<Rightarrow> Some (FNum (int_to_float n))
     | JNumber s \<Rightarrow> (case parse_float s of FSyntax \<Rightarrow> None | FRange _ \<Rightarrow> None | t \<Rightarrow> Some t)
     | JStr s \<Rightarrow> (case parse_float (trim_space s) of FSyntax \<Rightarrow> None | FRange _ \<Rightarrow> None | t \<Rightarrow> Some t)
     | _ \<Rightarrow> None)"

definition exactInt :: "json \<Rightarrow> int option" where
  "exactInt v = (case v of
       JInt n \<Rightarrow> Some n
     | JFloat x \<Rightarrow> (let c = float_to_int x in if int_to_float c = x then Some c else None)
     | JNumber s \<Rightarrow> (let (n, ok) = atoi s in if ok then Some n else None)
     | JStr s \<Rightarrow> (let (n, ok) = atoi s in if ok then Some n else None)
     | _ \<Rightarrow> None)"

section \<open>Deep copies\<close>

text \<open>
  \<open>cloneMap\<close> and \<open>cloneSlice\<close> marshal to JSON and unmarshal again, so every number comes
  back as the nearest \<open>float64\<close>, a nil slice as nil, and a literal beyond the range of
  \<open>float64\<close> as nil (\<open>Unmarshal\<close> records the error and leaves the element unset).  The
  literal of a \<open>json.Number\<close> comes from a decoder, so it is a JSON number.
\<close>

fun clone_json :: "json \<Rightarrow> json" where
  "clone_json JNull = JNull"
| "clone_json (JBool b) = JBool b"
| "clone_json (JInt n) = JFloat (int_to_float n)"
| "clone_json (JFloat x) = JFloat x"
| "clone_json (JNumber s) = (case parse_float s of FNum x \<Rightarrow> JFloat x | _ \<Rightarrow> JNull)"
| "clone_json (JStr s) = JStr s"
| "clone_json (JArr xs) = JArr (map clone_json xs)"
| "clone_json JNilArr = JNull"
| "clone_json (JObj m) = JObj (map (\<lambda>(k, v). (k, clone_json v)) m)"

definition clone_obj :: "obj \<Rightarrow> obj" where
  "clone_obj m = map (\<lambda>(k, v). (k, clone_json v)) m"

definition cloneMap :: "gomap \<Rightarrow> gomap" where
  "cloneMap m = map_option clone_obj m"

definition cloneSlice :: "json list \<Rightarrow> json list" where
  "cloneSlice xs = map clone_json xs"

text \<open>A value a copy leaves unchanged: what a decoder without \<open>UseNumber\<close> yields.\<close>

fun plain :: "json \<Rightarrow> bool" where
  "plain (JInt n) = False"
| "plain (JNumber s) = False"
| "plain JNilArr = False"
| "plain (JArr xs) = list_all plain xs"
| "plain (JObj m) = list_all (\<lambda>(k, v). plain v) m"
| "plain _ = True"

text \<open>Keys are distinct at every level, as in a Go map.\<close>

fun distinct_keys :: "json \<Rightarrow> bool" where
  "distinct_keys (JArr xs) = list_all distinct_keys xs"
| "distinct_keys (JObj m) = (distinct (map fst m) \<and> list_all (\<lambda>(k, v). distinct_keys v) m)"
| "distinct_keys _ = True"

subsection \<open>Laws of copies\<close>

lemma clone_json_JObj: "clone_json (JObj m) = JObj (clone_obj m)"
  by (simp add: clone_obj_def)

lemma oget_clone_obj [simp]: "oget (clone_obj m) k = clone_json (oget m k)"
  by (simp add: oget_def clone_obj_def split: option.split)

lemma has_key_clone_obj [simp]: "has_key (clone_obj m) k = has_key m k"
  by (simp add: has_key_def clone_obj_def)

lemma plain_clone: "plain (clone_json v)"
  by (induction v rule: clone_json.induct) (auto simp: list_all_iff split: float_text.split)

lemma clone_plain: "plain v \<Longrightarrow> clone_json v = v"
proof (induction v rule: plain.induct)
  case (4 xs)
  then show ?case by (auto simp: list_all_iff intro: map_idI)
next
  case (5 m)
  have "map (\<lambda>(k, v). (k, clone_json v)) m = m"
  proof (rule map_idI)
    fix x assume x: "x \<in> set m"
    obtain a b where ab: "x = (a, b)" by (cases x)
    with x 5 have "clone_json b = b" by (fastforce simp: list_all_iff)
    with ab show "(case x of (k, v) \<Rightarrow> (k, clone_json v)) = x" by simp
  qed
  then show ?case by simp
qed simp_all

lemma clone_clone [simp]: "clone_json (clone_json v) = clone_json v"
  by (rule clone_plain) (rule plain_clone)

lemma clone_obj_clone_obj [simp]: "clone_obj (clone_obj m) = clone_obj m"
  using clone_clone [of "JObj m"] by (simp add: clone_json_JObj del: clone_json.simps)

lemma distinct_keys_clone: "distinct_keys v \<Longrightarrow> distinct_keys (clone_json v)"
proof (induction v rule: clone_json.induct)
  case (9 m)
  then show ?case
    by (auto simp: list_all_iff o_def case_prod_unfold)
qed (auto simp: list_all_iff split: float_text.split)

lemma mapAny_clone: "mapAny (clone_json v) = cloneMap (mapAny v)"
  by (cases v) (auto simp: cloneMap_def clone_obj_def split: float_text.split)

lemma sliceAny_clone: "sliceAny (clone_json v) = cloneSlice (sliceAny v)"
  by (cases v) (auto simp: cloneSlice_def split: float_text.split)

lemma clone_JNull_iff_str [simp]: "clone_json v = JStr s \<longleftrightarrow> v = JStr s"
  by (cases v) (auto split: float_text.split)

lemma stringValue_JStr [simp]: "stringValue (JStr s) = s"
  by (simp add: stringValue_def)

lemma stringValue_JNull [simp]: "stringValue JNull = []"
  by (simp add: stringValue_def)

lemma valueOr_simps [simp]:
  "valueOr JNull f = f" "valueOr (JStr []) f = f" "valueOr (JStr (c # cs)) f = JStr (c # cs)"
  by (simp_all add: valueOr_def)

lemma oget_setDefault [simp]:
  "oget (setDefault m k v) j = (if j = k \<and> oget m k = JNull then v else oget m j)"
  by (simp add: setDefault_def)

lemma has_key_setDefault:
  "has_key m j \<Longrightarrow> has_key (setDefault m k v) j"
  by (simp add: setDefault_def)

end
