(* ===== verification/Compat.thy ===== *)
theory Compat
  imports Json
begin

text \<open>
  \<open>internal/app/compat.go\<close>: the translation between the Chat Completions API and the
  Responses API, and the normalisation of Responses requests.  Each Go function is one
  definition of the same name; a Go loop that appends to several variables is a fold over a
  record of them.  Fresh identifiers and the clock are arguments.
\<close>

section \<open>Text of messages\<close>

text \<open>A slice value as it is stored back into an object: a nil slice stays nil.\<close>

fun slice_value :: "json \<Rightarrow> json" where
  "slice_value (JArr xs) = JArr xs"
| "slice_value JNilArr = JNilArr"
| "slice_value _ = JArr []"

text \<open>A \<open>[]any\<close> variable that starts nil and is only appended to.\<close>

definition nil_slice :: "json list \<Rightarrow> json" where
  "nil_slice xs = (if xs = [] then JNilArr else JArr xs)"

definition contentText :: "json \<Rightarrow> string" where
  "contentText value = (case value of
       JStr s \<Rightarrow> s
     | _ \<Rightarrow> concat (map (\<lambda>raw. let p = mapAny raw; t = mget p ''type'' in
           if t \<in> {JStr ''text'', JStr ''input_text'', JStr ''output_text''}
           then stringValue (mget p ''text'') else []) (sliceAny value)))"

definition messageText :: "gomap \<Rightarrow> string" where
  "messageText item = concat (map (\<lambda>raw. let p = mapAny raw in
       if mget p ''type'' = JStr ''output_text'' then stringValue (mget p ''text'') else [])
     (sliceAny (mget item ''content'')))"

definition chat_part :: "json \<Rightarrow> json list" where
  "chat_part raw = (let p = mapAny raw; t = mget p ''type'' in
     if t = JStr ''text'' \<or> t = JStr ''input_text'' then
       [JObj [(''type'', JStr ''input_text''), (''text'', JStr (stringValue (mget p ''text'')))]]
     else if t = JStr ''image_url'' then
       (let u = mget p ''image_url'' in
        [JObj [(''type'', JStr ''input_image''),
               (''image_url'', (case mapAny u of None \<Rightarrow> u | Some m \<Rightarrow> oget m ''url''))]])
     else if t = JStr ''input_image'' then
       (case cloneMap p of None \<Rightarrow> [JNull] | Some c \<Rightarrow> [JObj c])
     else [])"

definition chatContent :: "json \<Rightarrow> json" where
  "chatContent value = (case value of
       JStr s \<Rightarrow> JStr s
     | _ \<Rightarrow> nil_slice (concat (map chat_part (sliceAny value))))"

definition responseText :: "gomap \<Rightarrow> string" where
  "responseText response = (case mget response ''output_text'' of
       JStr s \<Rightarrow> s
     | _ \<Rightarrow> concat (map (\<lambda>raw. let item = mapAny raw in
           if mget item ''type'' = JStr ''message'' then messageText item else [])
         (sliceAny (mget response ''output''))))"

section \<open>Normalising Responses input\<close>

definition normalizeInputItem :: "json \<Rightarrow> json" where
  "normalizeInputItem value = (case mapAny value of
       None \<Rightarrow> value
     | Some item \<Rightarrow> (let t = oget item ''type'' in
         if t = JStr ''reasoning'' then
           (if stringValue (oget item ''encrypted_content'') = [] then JNull
            else JObj [(''type'', JStr ''reasoning''),
                       (''encrypted_content'', oget item ''encrypted_content''),
                       (''summary'', slice_value (oget item ''summary''))])
         else if t = JStr ''message'' \<and> oget item ''role'' = JStr ''assistant'' then
           (let result = [(''role'', JStr ''assistant''), (''content'', JStr (messageText (Some item)))]
            in JObj (if oget item ''phase'' \<noteq> JNull then oset ''phase'' (oget item ''phase'') result
                     else result))
         else if t = JStr ''function_call'' then
           (let result = odel ''status'' (odel ''id'' (clone_obj item));
                result = oset ''call_id'' (valueOr (oget item ''call_id'') (oget item ''id'')) result
            in JObj (oset ''arguments'' (valueOr (oget item ''arguments'') (JStr ''{}'')) result))
         else if t = JStr ''function_call_output'' then
           (let result = odel ''status'' (odel ''id'' (clone_obj item))
            in JObj (oset ''call_id'' (valueOr (oget item ''call_id'') (JStr ''unknown'')) result))
         else JObj (clone_obj item)))"

definition normalizeResponseInput :: "json \<Rightarrow> json list" where
  "normalizeResponseInput value = (case value of
       JNull \<Rightarrow> []
     | JStr s \<Rightarrow> [JObj [(''role'', JStr ''user''), (''content'', JStr s)]]
     | JArr xs \<Rightarrow> filter (\<lambda>v. v \<noteq> JNull) (map normalizeInputItem xs)
     | JNilArr \<Rightarrow> []
     | JObj m \<Rightarrow> (let item = normalizeInputItem value in if item \<noteq> JNull then [item] else [])
     | _ \<Rightarrow> [JObj [(''role'', JStr ''user''), (''content'', JStr (sprint value))]])"

definition default_instructions :: string where
  "default_instructions = ''You are a helpful assistant.''"

definition prepareResponse :: "obj \<Rightarrow> string \<Rightarrow> obj" where
  "prepareResponse body model = (let
     result = clone_obj body;
     result = (if stringValue (oget result ''model'') = [] then oset ''model'' (JStr model) result
               else result);
     result = oset ''input'' (JArr (normalizeResponseInput (oget result ''input''))) result;
     result = setDefault result ''instructions'' (JStr default_instructions)
     in setDefault result ''store'' (JBool False))"

section \<open>Chat Completions to Responses\<close>

text \<open>The variables of the message loop of \<open>chatToResponse\<close>.\<close>

record chat_acc =
  instructions :: "string list"
  input :: "json list"
  legacyCallCount :: nat
  latestLegacyCalls :: "string \<Rightarrow> string option"

definition legacy_call_id :: "nat \<Rightarrow> string" where
  "legacy_call_id n = ''call_legacy_'' @ show_nat n"

definition function_call_item :: "json \<Rightarrow> json \<Rightarrow> json \<Rightarrow> json" where
  "function_call_item call_id name arguments = JObj
     [(''type'', JStr ''function_call''), (''call_id'', call_id), (''name'', name),
      (''arguments'', valueOr arguments (JStr ''{}''))]"

definition chat_tool_call :: "json \<Rightarrow> json list" where
  "chat_tool_call tcRaw = (let tc = mapAny tcRaw in
     case mapAny (mget tc ''function'') of
       None \<Rightarrow> []
     | Some fn \<Rightarrow> [function_call_item (mget tc ''id'') (oget fn ''name'') (oget fn ''arguments'')])"

definition chat_assistant_text :: "obj \<Rightarrow> chat_acc \<Rightarrow> chat_acc" where
  "chat_assistant_text msg acc = (let text = contentText (oget msg ''content'') in
     if text \<noteq> [] \<or> (mapAny (oget msg ''function_call'') = None \<and> sliceAny (oget msg ''tool_calls'') = [])
     then acc\<lparr>input := input acc @ [JObj [(''role'', JStr ''assistant''), (''content'', JStr text)]]\<rparr>
     else acc)"

definition chat_legacy_call :: "gomap \<Rightarrow> chat_acc \<Rightarrow> chat_acc" where
  "chat_legacy_call fc' acc = (case fc' of
       None \<Rightarrow> acc
     | Some fc \<Rightarrow> (let n = Suc (legacyCallCount acc); callID = legacy_call_id n in
         acc\<lparr>legacyCallCount := n,
             latestLegacyCalls := (latestLegacyCalls acc)(stringValue (oget fc ''name'') \<mapsto> callID),
             input := input acc
               @ [function_call_item (JStr callID) (oget fc ''name'') (oget fc ''arguments'')]\<rparr>))"

definition tool_result_id :: "obj \<Rightarrow> chat_acc \<Rightarrow> json" where
  "tool_result_id msg acc =
     (let callID = valueOr (oget msg ''tool_call_id'') (valueOr (oget msg ''name'') (JStr ''unknown'')) in
      case latestLegacyCalls acc (stringValue callID) of None \<Rightarrow> callID | Some l \<Rightarrow> JStr l)"

definition chat_message :: "json \<Rightarrow> chat_acc \<Rightarrow> chat_acc" where
  "chat_message raw acc = (case mapAny raw of
       None \<Rightarrow> acc
     | Some msg \<Rightarrow> (let role = stringValue (oget msg ''role'') in
         if role = ''system'' \<or> role = ''developer'' then
           (let t = contentText (oget msg ''content'') in
            if t \<noteq> [] then acc\<lparr>instructions := instructions acc @ [t]\<rparr> else acc)
         else if role = ''tool'' \<or> role = ''function'' then
           acc\<lparr>input := input acc @ [JObj [(''type'', JStr ''function_call_output''),
                 (''call_id'', tool_result_id msg acc),
                 (''output'', JStr (contentText (oget msg ''content'')))]]\<rparr>
         else if role = ''assistant'' then
           (let acc = chat_assistant_text msg acc;
                acc = chat_legacy_call (mapAny (oget msg ''function_call'')) acc
            in acc\<lparr>input := input acc @ concat (map chat_tool_call (sliceAny (oget msg ''tool_calls'')))\<rparr>)
         else if role = ''user'' then
           acc\<lparr>input := input acc @ [JObj [(''role'', JStr ''user''),
                 (''content'', chatContent (oget msg ''content''))]]\<rparr>
         else acc))"

definition chat_init :: chat_acc where
  "chat_init = \<lparr>instructions = [], input = [], legacyCallCount = 0, latestLegacyCalls = Map.empty\<rparr>"

definition chat_messages :: "json list \<Rightarrow> chat_acc \<Rightarrow> chat_acc" where
  "chat_messages raws acc = fold chat_message raws acc"

definition usesLegacyFunctions :: "obj \<Rightarrow> bool" where
  "usesLegacyFunctions body =
     (if sliceAny (oget body ''tools'') \<noteq> [] then False
      else sliceAny (oget body ''functions'') \<noteq> [] \<or> oget body ''function_call'' \<noteq> JNull)"

definition chatToolChoice :: "json \<Rightarrow> json" where
  "chatToolChoice value = (case mapAny value of
       None \<Rightarrow> value
     | Some m \<Rightarrow> if oget m ''type'' = JStr ''function''
         then JObj [(''type'', JStr ''function''), (''name'', mget (mapAny (oget m ''function'')) ''name'')]
         else value)"

definition chatFunctionChoice :: "json \<Rightarrow> json" where
  "chatFunctionChoice value = (case mapAny value of
       None \<Rightarrow> value
     | Some m \<Rightarrow> JObj [(''type'', JStr ''function''), (''name'', oget m ''name'')])"

definition mergeMap :: "gomap \<Rightarrow> obj \<Rightarrow> obj" where
  "mergeMap a b = fold (\<lambda>(k, v) m. oset k v m) b (case a of None \<Rightarrow> [] | Some m \<Rightarrow> m)"

definition function_tool :: "obj \<Rightarrow> json" where
  "function_tool fn = JObj (oset ''type'' (JStr ''function'') (clone_obj fn))"

definition chat_tools :: "obj \<Rightarrow> json list" where
  "chat_tools body =
     concat (map (\<lambda>raw. case mapAny raw of
         None \<Rightarrow> []
       | Some tool \<Rightarrow>
           if oget tool ''type'' = JStr ''function'' then
             (case mapAny (oget tool ''function'') of None \<Rightarrow> [] | Some fn \<Rightarrow> [function_tool fn])
           else [JObj (clone_obj tool)]) (sliceAny (oget body ''tools'')))
     @ concat (map (\<lambda>raw. case mapAny raw of None \<Rightarrow> [] | Some fn \<Rightarrow> [function_tool fn])
         (sliceAny (oget body ''functions'')))"

definition copy_key :: "obj \<Rightarrow> string \<Rightarrow> obj \<Rightarrow> obj" where
  "copy_key body key result =
     (if oget body key \<noteq> JNull then oset key (oget body key) result else result)"

definition chat_output_limit :: "obj \<Rightarrow> obj \<Rightarrow> obj" where
  "chat_output_limit body result =
     (if oget body ''max_completion_tokens'' \<noteq> JNull
      then oset ''max_output_tokens'' (oget body ''max_completion_tokens'') result
      else if oget body ''max_tokens'' \<noteq> JNull
      then oset ''max_output_tokens'' (oget body ''max_tokens'') result
      else result)"

definition chat_reasoning :: "obj \<Rightarrow> obj \<Rightarrow> obj" where
  "chat_reasoning body result =
     (if oget body ''reasoning'' \<noteq> JNull then oset ''reasoning'' (oget body ''reasoning'') result
      else if oget body ''reasoning_effort'' \<noteq> JNull
      then oset ''reasoning'' (JObj [(''effort'', oget body ''reasoning_effort'')]) result
      else result)"

definition chat_choice :: "obj \<Rightarrow> obj \<Rightarrow> obj" where
  "chat_choice body result =
     (if oget body ''tool_choice'' \<noteq> JNull
      then oset ''tool_choice'' (chatToolChoice (oget body ''tool_choice'')) result
      else if oget body ''function_call'' \<noteq> JNull
      then oset ''tool_choice'' (chatFunctionChoice (oget body ''function_call'')) result
      else result)"

definition chat_format :: "obj \<Rightarrow> obj \<Rightarrow> obj" where
  "chat_format body result = (case mapAny (oget body ''response_format'') of
       None \<Rightarrow> result
     | Some format \<Rightarrow>
         if oget format ''type'' = JStr ''json_object'' then
           oset ''text'' (JObj (mergeMap (mapAny (oget result ''text''))
             [(''format'', JObj [(''type'', JStr ''json_object'')])])) result
         else if oget format ''type'' = JStr ''json_schema'' then
           (let schema = mapAny (oget format ''json_schema'');
                f = fold (\<lambda>k f. if mget schema k \<noteq> JNull then oset k (mget schema k) f else f)
                      [''name'', ''schema'', ''strict'', ''description'']
                      [(''type'', JStr ''json_schema'')]
            in oset ''text'' (JObj (mergeMap (mapAny (oget result ''text'')) [(''format'', JObj f)])) result)
         else result)"

definition chatToResponse :: "obj \<Rightarrow> string \<Rightarrow> obj" where
  "chatToResponse body model = (let
     acc = chat_messages (sliceAny (oget body ''messages'')) chat_init;
     joined = join ''\<newline>\<newline>'' (instructions acc);
     result = [(''model'', valueOr (oget body ''model'') (JStr model)),
               (''input'', nil_slice (input acc)),
               (''store'', JBool False),
               (''instructions'', JStr (if joined = [] then default_instructions else joined))];
     result = fold (copy_key body)
       [''parallel_tool_calls'', ''prompt_cache_key'', ''service_tier'', ''temperature'', ''top_p'', ''user''] result;
     result = (if usesLegacyFunctions body \<and> oget body ''parallel_tool_calls'' = JNull
               then oset ''parallel_tool_calls'' (JBool False) result else result);
     result = chat_output_limit body result;
     result = chat_reasoning body result;
     result = (if oget body ''verbosity'' \<noteq> JNull
               then oset ''text'' (JObj [(''verbosity'', oget body ''verbosity'')]) result else result);
     tools = chat_tools body;
     result = (if tools \<noteq> [] then oset ''tools'' (JArr tools) result else result);
     result = chat_choice body result
     in chat_format body result)"

section \<open>Responses to Chat Completions\<close>

definition default_model :: string where
  "default_model = ''gpt-5.6-luna''"

definition ensureResponse :: "obj \<Rightarrow> obj \<Rightarrow> string \<Rightarrow> rat \<Rightarrow> obj" where
  "ensureResponse response request fresh now = (let
     result = clone_obj response;
     result = setDefault result ''id'' (JStr fresh);
     result = setDefault result ''object'' (JStr ''response'');
     result = setDefault result ''created_at'' (JFloat now);
     result = setDefault result ''status'' (JStr ''completed'');
     result = setDefault result ''model'' (valueOr (oget request ''model'') (JStr default_model));
     result = setDefault result ''output'' (JArr []);
     result = setDefault result ''parallel_tool_calls'' (JBool True);
     result = setDefault result ''tool_choice'' (valueOr (oget request ''tool_choice'') (JStr ''auto''));
     result = setDefault result ''tools'' (slice_value (oget request ''tools''));
     result = (if has_key result ''previous_response_id'' then result
               else oset ''previous_response_id'' (oget request ''previous_response_id'') result)
     in if has_key result ''usage'' then result else oset ''usage'' JNull result)"

definition chatUsage :: "gomap \<Rightarrow> int \<Rightarrow> int \<Rightarrow> int \<Rightarrow> obj" where
  "chatUsage usage prompt completion tokens = (let
     result = [(''prompt_tokens'', JInt prompt), (''completion_tokens'', JInt completion),
               (''total_tokens'', JInt tokens)];
     result = (case mapAny (mget usage ''input_tokens_details'') of
         None \<Rightarrow> result
       | Some details \<Rightarrow> oset ''prompt_tokens_details''
           (JObj [(''cached_tokens'', JInt (intValue (oget details ''cached_tokens'')))]) result)
     in (case mapAny (mget usage ''output_tokens_details'') of
         None \<Rightarrow> result
       | Some details \<Rightarrow> oset ''completion_tokens_details''
           (JObj [(''reasoning_tokens'', JInt (intValue (oget details ''reasoning_tokens'')))]) result))"

text \<open>The function calls of a response's output, in order.\<close>

definition output_calls :: "gomap \<Rightarrow> obj list" where
  "output_calls response = concat (map (\<lambda>raw. case mapAny raw of
       None \<Rightarrow> []
     | Some item \<Rightarrow> if oget item ''type'' = JStr ''function_call'' then [item] else [])
     (sliceAny (mget response ''output'')))"

definition call_fn :: "obj \<Rightarrow> json" where
  "call_fn item = JObj [(''name'', JStr (stringValue (oget item ''name''))),
     (''arguments'', JStr (stringValue (oget item ''arguments'')))]"

definition chat_call :: "obj \<Rightarrow> json" where
  "chat_call item = JObj
     [(''id'', JStr (stringValue (valueOr (oget item ''call_id'') (oget item ''id'')))),
      (''type'', JStr ''function''), (''function'', call_fn item)]"

definition chat_message_of :: "gomap \<Rightarrow> bool \<Rightarrow> obj \<times> string" where
  "chat_message_of response legacy = (let
     calls = output_calls response;
     legacyCall = (if legacy then map call_fn (take 1 calls) else []);
     toolCalls = (if legacy then [] else map chat_call calls);
     text = responseText response;
     message = [(''role'', JStr ''assistant''),
       (''content'', if text = [] \<and> (legacyCall \<noteq> [] \<or> toolCalls \<noteq> []) then JNull else JStr text)]
     in if legacyCall \<noteq> [] then (oset ''function_call'' (hd legacyCall) message, ''function_call'')
        else if toolCalls \<noteq> [] then (oset ''tool_calls'' (JArr toolCalls) message, ''tool_calls'')
        else (message, ''stop''))"

definition finish_reason :: "gomap \<Rightarrow> string \<Rightarrow> string" where
  "finish_reason response finish =
     (if mget response ''status'' = JStr ''incomplete'' then
        (if mget (mapAny (mget response ''incomplete_details'')) ''reason'' = JStr ''content_filter''
         then ''content_filter'' else ''length'')
      else finish)"

definition chat_id :: "string \<Rightarrow> string" where
  "chat_id id' = (if has_prefix ''resp_'' id' then ''chatcmpl_'' @ drop 5 id' else ''chatcmpl_'' @ id')"

definition responseToChat :: "obj \<Rightarrow> string \<Rightarrow> bool \<Rightarrow> int \<Rightarrow> int \<Rightarrow> obj" where
  "responseToChat response fallback legacy n now = (let
     usage = (case mapAny (oget response ''usage'') of None \<Rightarrow> Some [] | Some u \<Rightarrow> Some u);
     prompt = intValue (mget usage ''input_tokens'');
     completion = intValue (mget usage ''output_tokens'');
     total0 = intValue (mget usage ''total_tokens'');
     tokens = (if total0 = 0 then wrap64 (prompt + completion) else total0);
     (message, finish0) = chat_message_of (Some response) legacy;
     finish = finish_reason (Some response) finish0;
     choices = map (\<lambda>i. JObj [(''index'', JInt (int i)), (''message'', JObj (clone_obj message)),
                 (''finish_reason'', JStr finish), (''logprobs'', JNull)]) [0..<nat (max 1 n)];
     created0 = intValue (oget response ''created_at'');
     created = (if created0 = 0 then now else created0)
     in [(''id'', JStr (chat_id (stringValue (oget response ''id'')))),
         (''object'', JStr ''chat.completion''), (''created'', JInt created),
         (''model'', JStr (stringValue (valueOr (oget response ''model'') (JStr fallback)))),
         (''choices'', JArr choices),
         (''usage'', JObj (chatUsage usage prompt completion tokens))])"

definition responseContext :: "gomap \<Rightarrow> json list" where
  "responseContext response = (let
     result = concat (map (\<lambda>raw. case mapAny raw of
         None \<Rightarrow> []
       | Some item \<Rightarrow> (let n = normalizeInputItem raw in if n \<noteq> JNull then [n] else []))
       (sliceAny (mget response ''output'')))
     in if result = [] then
          (let text = responseText response in
           if text \<noteq> [] then [JObj [(''role'', JStr ''assistant''), (''content'', JStr text)]] else [])
        else result)"

section \<open>Laws\<close>

subsection \<open>Normalised input\<close>

lemma valueOr_nonempty: "f \<noteq> JNull \<Longrightarrow> f \<noteq> JStr [] \<Longrightarrow> valueOr v f \<noteq> JNull \<and> valueOr v f \<noteq> JStr []"
  by (simp add: valueOr_def)

lemma oget_message [simp]:
  "oget (oset k v m) k = v" "k \<noteq> j \<Longrightarrow> oget (oset k v m) j = oget m j"
  by simp_all

text \<open>What a normalised item looks like: never nil, reasoning only with its encrypted content,
  calls and results without the identifiers and states of the response they came from.\<close>

definition normal_item :: "json \<Rightarrow> bool" where
  "normal_item v = (v \<noteq> JNull \<and> (case mapAny v of
       None \<Rightarrow> True
     | Some item \<Rightarrow>
         (oget item ''type'' = JStr ''reasoning'' \<longrightarrow> stringValue (oget item ''encrypted_content'') \<noteq> []) \<and>
         (oget item ''type'' = JStr ''function_call'' \<longrightarrow>
            oget item ''id'' = JNull \<and> oget item ''status'' = JNull \<and>
            oget item ''arguments'' \<noteq> JNull \<and> oget item ''arguments'' \<noteq> JStr []) \<and>
         (oget item ''type'' = JStr ''function_call_output'' \<longrightarrow>
            oget item ''id'' = JNull \<and> oget item ''status'' = JNull \<and>
            oget item ''call_id'' \<noteq> JNull \<and> oget item ''call_id'' \<noteq> JStr [])))"

lemma normalizeInputItem_normal:
  "normalizeInputItem v \<noteq> JNull \<Longrightarrow> normal_item (normalizeInputItem v)"
  by (cases v) (auto simp: normalizeInputItem_def normal_item_def Let_def valueOr_def)

lemma role_message_normal: "normal_item (JObj [(''role'', r), (''content'', c)])"
  by (simp add: normal_item_def)

lemma normalizeResponseInput_normal:
  "v \<in> set (normalizeResponseInput x) \<Longrightarrow> normal_item v"
  by (cases x)
     (auto simp: normalizeResponseInput_def Let_def role_message_normal
        intro: normalizeInputItem_normal split: if_splits)

lemma responseContext_normal: "v \<in> set (responseContext r) \<Longrightarrow> normal_item v"
  by (auto simp: responseContext_def Let_def role_message_normal
      intro: normalizeInputItem_normal split: if_splits option.splits)

lemma prepareResponse_input:
  "oget (prepareResponse body model) ''input''
     = JArr (normalizeResponseInput (clone_json (oget body ''input'')))"
  by (simp add: prepareResponse_def Let_def)

lemma prepareResponse_model:
  "stringValue (oget (prepareResponse body model) ''model'')
     = (if stringValue (clone_json (oget body ''model'')) = [] then model
        else stringValue (clone_json (oget body ''model'')))"
  by (simp add: prepareResponse_def Let_def)

subsection \<open>Legacy function calls\<close>

lemma show_nat_inj: "show_nat m = show_nat n \<Longrightarrow> m = n"
  by (metis digits_val_show_nat option.inject)

lemma legacy_call_id_inj: "legacy_call_id m = legacy_call_id n \<longleftrightarrow> m = n"
  by (auto simp: legacy_call_id_def dest: show_nat_inj)

text \<open>The name of the function a message calls in the legacy form.\<close>

definition legacy_call_of :: "json \<Rightarrow> string option" where
  "legacy_call_of raw = (case mapAny raw of
       None \<Rightarrow> None
     | Some msg \<Rightarrow> if stringValue (oget msg ''role'') = ''assistant''
         then map_option (\<lambda>fc. stringValue (oget fc ''name'')) (mapAny (oget msg ''function_call''))
         else None)"

lemma chat_assistant_text_frame [simp]:
  "legacyCallCount (chat_assistant_text msg acc) = legacyCallCount acc"
  "latestLegacyCalls (chat_assistant_text msg acc) = latestLegacyCalls acc"
  "instructions (chat_assistant_text msg acc) = instructions acc"
  by (simp_all add: chat_assistant_text_def Let_def)

lemma chat_message_count:
  "legacyCallCount (chat_message raw acc)
     = legacyCallCount acc + (if legacy_call_of raw = None then 0 else 1)"
  by (auto simp: chat_message_def legacy_call_of_def chat_legacy_call_def Let_def
      split: option.splits)

lemma chat_message_latest:
  "latestLegacyCalls (chat_message raw acc) = (case legacy_call_of raw of
       None \<Rightarrow> latestLegacyCalls acc
     | Some f \<Rightarrow> (latestLegacyCalls acc)(f \<mapsto> legacy_call_id (Suc (legacyCallCount acc))))"
  by (auto simp: chat_message_def legacy_call_of_def chat_legacy_call_def Let_def
      split: option.splits)

lemma chat_message_input_extends: "\<exists>new. input (chat_message raw acc) = input acc @ new"
  by (auto simp: chat_message_def chat_legacy_call_def chat_assistant_text_def Let_def
      split: option.splits)

lemma chat_messages_simps [simp]:
  "chat_messages [] acc = acc"
  "chat_messages (r # rs) acc = chat_messages rs (chat_message r acc)"
  "chat_messages (rs @ qs) acc = chat_messages qs (chat_messages rs acc)"
  by (simp_all add: chat_messages_def)

lemma chat_messages_input_extends: "\<exists>new. input (chat_messages rs acc) = input acc @ new"
proof (induction rs arbitrary: acc)
  case (Cons r rs)
  obtain n1 where "input (chat_message r acc) = input acc @ n1"
    using chat_message_input_extends by blast
  moreover obtain n2 where
    "input (chat_messages rs (chat_message r acc)) = input (chat_message r acc) @ n2"
    using Cons.IH by blast
  ultimately show ?case by simp
qed simp

lemma chat_messages_count:
  "legacyCallCount (chat_messages rs acc)
     = legacyCallCount acc + length (filter (\<lambda>r. legacy_call_of r \<noteq> None) rs)"
  by (induction rs arbitrary: acc) (auto simp: chat_message_count)

lemma chat_messages_latest_frame:
  "(\<forall>r \<in> set rs. legacy_call_of r \<noteq> Some f)
   \<Longrightarrow> latestLegacyCalls (chat_messages rs acc) f = latestLegacyCalls acc f"
  by (induction rs arbitrary: acc) (auto simp: chat_message_latest split: option.splits)

lemma chat_message_legacy_call:
  assumes "legacy_call_of raw = Some f"
  shows "\<exists>name args. stringValue name = f \<and>
     function_call_item (JStr (legacy_call_id (Suc (legacyCallCount acc)))) name args
       \<in> set (input (chat_message raw acc))"
  using assms
  by (auto simp: legacy_call_of_def chat_message_def chat_legacy_call_def Let_def
      split: option.splits if_splits)

text \<open>Which function a tool or function message answers.\<close>

definition result_key :: "obj \<Rightarrow> string" where
  "result_key msg =
     stringValue (valueOr (oget msg ''tool_call_id'') (valueOr (oget msg ''name'') (JStr ''unknown'')))"

lemma chat_message_result:
  assumes "mapAny raw = Some msg"
    and "stringValue (oget msg ''role'') \<in> {''tool'', ''function''}"
  shows "input (chat_message raw acc) = input acc @
     [JObj [(''type'', JStr ''function_call_output''),
            (''call_id'', case latestLegacyCalls acc (result_key msg) of
                None \<Rightarrow> valueOr (oget msg ''tool_call_id'') (valueOr (oget msg ''name'') (JStr ''unknown''))
              | Some l \<Rightarrow> JStr l),
            (''output'', JStr (contentText (oget msg ''content'')))]]"
  using assms by (auto simp: chat_message_def tool_result_id_def result_key_def Let_def)

text \<open>In a conversation in the legacy function form, the result of a function is sent upstream
  under the call id of the latest call of that function, and that call, under the same id,
  stands before it in the input.  No other legacy call has this id, because the n-th one is
  numbered n.\<close>

theorem legacy_result_pairs_with_latest_call:
  assumes call: "legacy_call_of m = Some f"
    and later: "\<forall>x \<in> set ms2. legacy_call_of x \<noteq> Some f"
    and res: "mapAny r = Some msg"
    and role: "stringValue (oget msg ''role'') \<in> {''tool'', ''function''}"
    and key: "result_key msg = f"
  shows "\<exists>pre. input (chat_messages (ms1 @ m # ms2 @ [r]) chat_init) = pre @
       [JObj [(''type'', JStr ''function_call_output''),
          (''call_id'', JStr (legacy_call_id
              (Suc (length (filter (\<lambda>x. legacy_call_of x \<noteq> None) ms1))))),
          (''output'', JStr (contentText (oget msg ''content'')))]]
     \<and> (\<exists>name args. stringValue name = f \<and> function_call_item (JStr (legacy_call_id
              (Suc (length (filter (\<lambda>x. legacy_call_of x \<noteq> None) ms1))))) name args \<in> set pre)"
proof -
  let ?a = "chat_messages ms1 chat_init"
  let ?b = "chat_message m ?a"
  let ?c = "chat_messages ms2 ?b"
  let ?n = "Suc (length (filter (\<lambda>x. legacy_call_of x \<noteq> None) ms1))"
  have n: "Suc (legacyCallCount ?a) = ?n"
    by (simp add: chat_messages_count chat_init_def)
  have "latestLegacyCalls ?c f = Some (legacy_call_id ?n)"
    using chat_messages_latest_frame [OF later, of ?b] call n by (simp add: chat_message_latest)
  then have last: "input (chat_message r ?c) = input ?c @
      [JObj [(''type'', JStr ''function_call_output''), (''call_id'', JStr (legacy_call_id ?n)),
             (''output'', JStr (contentText (oget msg ''content'')))]]"
    using chat_message_result [OF res role, of ?c] key by simp
  obtain name args where "stringValue name = f"
      "function_call_item (JStr (legacy_call_id ?n)) name args \<in> set (input ?b)"
    using chat_message_legacy_call [OF call, of ?a] n by auto
  moreover obtain new where "input ?c = input ?b @ new"
    using chat_messages_input_extends by blast
  ultimately show ?thesis using last by (auto intro!: exI [of _ "input ?c"])
qed

theorem legacy_result_pairs_with_latest_call_witness:
  "\<exists>pre. input (chat_messages
      ([JObj [(''role'', JStr ''user''), (''content'', JStr ''hi'')]] @
       JObj [(''role'', JStr ''assistant''), (''function_call'', JObj [(''name'', JStr ''f'')])] # [] @
       [JObj [(''role'', JStr ''function''), (''name'', JStr ''f''), (''content'', JStr ''42'')]]) chat_init)
     = pre @ [JObj [(''type'', JStr ''function_call_output''),
          (''call_id'', JStr ''call_legacy_1''), (''output'', JStr ''42'')]]"
  using legacy_result_pairs_with_latest_call
    [of "JObj [(''role'', JStr ''assistant''), (''function_call'', JObj [(''name'', JStr ''f'')])]" "''f''"
        "[]" "JObj [(''role'', JStr ''function''), (''name'', JStr ''f''), (''content'', JStr ''42'')]"
        "[(''role'', JStr ''function''), (''name'', JStr ''f''), (''content'', JStr ''42'')]"
        "[JObj [(''role'', JStr ''user''), (''content'', JStr ''hi'')]]"]
  by (auto simp: legacy_call_of_def result_key_def legacy_call_id_def show_nat.simps
      digit_char_def digits10_def contentText_def)

subsection \<open>Tool calls survive the round through the client\<close>

text \<open>A function call of a response as Codex writes it: call id, name and arguments are
  non-empty strings.\<close>

definition proper_call :: "obj \<Rightarrow> bool" where
  "proper_call item \<longleftrightarrow> (\<exists>c n a. oget item ''call_id'' = JStr c \<and> c \<noteq> [] \<and>
     oget item ''name'' = JStr n \<and> oget item ''arguments'' = JStr a \<and> a \<noteq> [])"

definition resent_call :: "obj \<Rightarrow> json" where
  "resent_call item = JObj [(''type'', JStr ''function_call''), (''call_id'', oget item ''call_id''),
     (''name'', oget item ''name''), (''arguments'', oget item ''arguments'')]"

lemma chat_tool_call_of_chat_call:
  "proper_call item \<Longrightarrow> chat_tool_call (clone_json (chat_call item)) = [resent_call item]"
  by (auto simp: proper_call_def chat_tool_call_def chat_call_def call_fn_def resent_call_def
      function_call_item_def valueOr_def Let_def)

lemma chat_tool_calls_of_chat_calls:
  "\<forall>item \<in> set calls. proper_call item \<Longrightarrow>
   concat (map chat_tool_call (map (clone_json \<circ> chat_call) calls)) = map resent_call calls"
  by (induction calls) (auto simp: chat_tool_call_of_chat_call)

lemma chat_message_tool_calls:
  assumes "calls \<noteq> []" and "\<forall>item \<in> set calls. proper_call item"
  shows "input (chat_message (JObj
            [(''role'', JStr ''assistant''), (''content'', c),
             (''tool_calls'', JArr (map (clone_json \<circ> chat_call) calls))]) acc)
      = input acc @ (if contentText c = [] then []
           else [JObj [(''role'', JStr ''assistant''), (''content'', JStr (contentText c))]])
        @ map resent_call calls"
proof -
  have "concat (map chat_tool_call (map (clone_json \<circ> chat_call) calls)) = map resent_call calls"
    using assms(2) by (rule chat_tool_calls_of_chat_calls)
  then show ?thesis using assms(1)
    by (simp add: chat_message_def chat_assistant_text_def chat_legacy_call_def Let_def)
qed

lemma chat_message_of_calls:
  assumes "output_calls r \<noteq> []"
  shows "fst (chat_message_of r False) =
     [(''role'', JStr ''assistant''),
      (''content'', if responseText r = [] then JNull else JStr (responseText r)),
      (''tool_calls'', JArr (map chat_call (output_calls r)))]"
  using assms by (simp add: chat_message_of_def Let_def)

lemma responseToChat_choices:
  "oget (responseToChat response fb legacy n now) ''choices'' =
     JArr (map (\<lambda>i. JObj [(''index'', JInt (int i)),
        (''message'', JObj (clone_obj (fst (chat_message_of (Some response) legacy)))),
        (''finish_reason'', JStr (finish_reason (Some response)
             (snd (chat_message_of (Some response) legacy)))),
        (''logprobs'', JNull)]) [0..<nat (max 1 n)])"
  by (simp add: responseToChat_def Let_def split: prod.split)

definition first_choice :: "obj \<Rightarrow> gomap" where
  "first_choice completion = (case sliceAny (oget completion ''choices'') of
     [] \<Rightarrow> None | c # _ \<Rightarrow> mapAny c)"

lemma first_choice_responseToChat:
  "first_choice (responseToChat response fb legacy n now) =
     Some [(''index'', JInt 0),
        (''message'', JObj (clone_obj (fst (chat_message_of (Some response) legacy)))),
        (''finish_reason'', JStr (finish_reason (Some response)
             (snd (chat_message_of (Some response) legacy)))),
        (''logprobs'', JNull)]"
proof -
  have "[0..<nat (max 1 n)] = 0 # [Suc 0..<nat (max 1 n)]"
    by (rule upt_conv_Cons) simp
  then show ?thesis by (simp add: first_choice_def responseToChat_choices)
qed

lemma oget_copy_key: "k \<noteq> j \<Longrightarrow> oget (copy_key body j r) k = oget r k"
  by (simp add: copy_key_def)

lemma chat_stage_frame:
  "k \<noteq> ''max_output_tokens'' \<Longrightarrow> oget (chat_output_limit body r) k = oget r k"
  "k \<noteq> ''reasoning'' \<Longrightarrow> oget (chat_reasoning body r) k = oget r k"
  "k \<noteq> ''tool_choice'' \<Longrightarrow> oget (chat_choice body r) k = oget r k"
  "k \<noteq> ''text'' \<Longrightarrow> oget (chat_format body r) k = oget r k"
  by (simp_all add: chat_output_limit_def chat_reasoning_def chat_choice_def chat_format_def Let_def
      split: option.split)

lemma oget_if: "oget (if b then x else y) k = (if b then oget x k else oget y k)"
  by simp

lemma chatToResponse_input:
  "oget (chatToResponse body model) ''input''
     = nil_slice (input (chat_messages (sliceAny (oget body ''messages'')) chat_init))"
  by (simp add: chatToResponse_def Let_def chat_stage_frame oget_if oget_copy_key)

text \<open>C20: A tool-calling response that the client gets as a chat completion and sends back in the
  next request's messages becomes, upstream, the assistant's text followed by the very calls
  of the response, in order, with the same call ids, names and arguments.\<close>

theorem tool_calls_roundtrip:
  assumes "output_calls (Some response) \<noteq> []"
    and "\<forall>item \<in> set (output_calls (Some response)). proper_call item"
  shows "oget (chatToResponse [(''messages'', JArr
            [mget (first_choice (responseToChat response fb False n now)) ''message''])] model) ''input''
      = JArr ((if responseText (Some response) = [] then []
               else [JObj [(''role'', JStr ''assistant''),
                           (''content'', JStr (responseText (Some response)))]])
              @ map resent_call (output_calls (Some response)))"
  using assms chat_message_tool_calls [OF assms]
  by (simp add: chatToResponse_input first_choice_responseToChat chat_message_of_calls clone_obj_def
      chat_init_def nil_slice_def contentText_def)

theorem tool_calls_roundtrip_witness:
  "oget (chatToResponse [(''messages'', JArr [mget (first_choice (responseToChat
       [(''output'', JArr [JObj [(''type'', JStr ''function_call''), (''call_id'', JStr ''c1''),
          (''name'', JStr ''f''), (''arguments'', JStr ''{}'')]])] ''m'' False 1 7)) ''message''])] ''m'') ''input''
   = JArr [JObj [(''type'', JStr ''function_call''), (''call_id'', JStr ''c1''),
          (''name'', JStr ''f''), (''arguments'', JStr ''{}'')]]"
  by (subst tool_calls_roundtrip)
     (simp_all add: output_calls_def proper_call_def responseText_def resent_call_def)

text \<open>A chat completion has as many choices as were asked for and at least one, all with the
  same message; its content is null exactly when the response has calls and no text, and the
  finish reason names the calls unless the response was cut short.\<close>

theorem responseToChat_shape:
  "length (sliceAny (oget (responseToChat response fb legacy n now) ''choices'')) = nat (max 1 n)
   \<and> (\<forall>c \<in> set (sliceAny (oget (responseToChat response fb legacy n now) ''choices'')).
        mget (mapAny c) ''message'' = mget (first_choice (responseToChat response fb legacy n now)) ''message''
      \<and> mget (mapAny (mget (mapAny c) ''message'')) ''content''
         = (if responseText (Some response) = [] \<and> output_calls (Some response) \<noteq> [] then JNull
            else JStr (responseText (Some response)))
      \<and> mget (mapAny c) ''finish_reason'' = JStr
         (if oget response ''status'' = JStr ''incomplete'' then
            (if mget (mapAny (oget response ''incomplete_details'')) ''reason'' = JStr ''content_filter''
             then ''content_filter'' else ''length'')
          else if output_calls (Some response) = [] then ''stop''
          else if legacy then ''function_call'' else ''tool_calls''))"
  by (cases "output_calls (Some response)")
     (auto simp: responseToChat_choices first_choice_responseToChat chat_message_of_def
        finish_reason_def Let_def)

theorem responseToChat_shape_witness:
  "length (sliceAny (oget (responseToChat [(''output_text'', JStr ''hi'')] ''m'' False 2 7) ''choices'')) = 2
   \<and> mget (mapAny (mget (first_choice (responseToChat [(''output_text'', JStr ''hi'')] ''m'' False 2 7))
        ''message'')) ''content'' = JStr ''hi''"
  using responseToChat_shape [of "[(''output_text'', JStr ''hi'')]" "''m''" False 2 7]
    exI [of "\<lambda>c::nat. c < 2" 0]
  by (simp add: responseToChat_choices first_choice_responseToChat responseText_def output_calls_def)

text \<open>An assistant message item of type \<open>message\<close> whose content is a plain string loses that
  text: only \<open>output_text\<close> parts of a content list are kept.\<close>

theorem assistant_message_string_content_dropped:
  "normalizeInputItem (JObj [(''type'', JStr ''message''), (''role'', JStr ''assistant''),
      (''content'', JStr s)])
   = JObj [(''role'', JStr ''assistant''), (''content'', JStr [])]"
  by (simp add: normalizeInputItem_def messageText_def Let_def)

text \<open>A chat request whose messages yield no input item is sent upstream with a null input,
  not with an empty list: the nil slice of the loop replaces the initial \<open>[]any{}\<close>.\<close>

theorem empty_chat_input_is_null:
  "input (chat_messages (sliceAny (oget body ''messages'')) chat_init) = [] \<Longrightarrow>
   clone_json (oget (chatToResponse body model) ''input'') = JNull"
  by (simp add: chatToResponse_input nil_slice_def)

theorem empty_chat_input_is_null_witness:
  "clone_json (oget (chatToResponse [(''messages'', JArr [])] ''m'') ''input'') = JNull"
  by (rule empty_chat_input_is_null) (simp add: chat_init_def)

end
