(* ===== verification/Store.thy ===== *)
theory Store
  imports Compat
begin

text \<open>
  \<open>internal/app/store.go\<close>: the bounded in-memory stores behind \<open>previous_response_id\<close> and
  the stored chat completions.  Both keep a map and the ids in insertion order and evict from
  the front; they differ in what writing an id again does (a response moves to the back, a
  completion keeps its place).  Operations run under the store's mutex, so a concurrent
  history is a sequence of them.  The locale \<open>bounded_store\<close> states what the handlers rely
  on, for any sequence of operations; both stores interpret it.
\<close>

section \<open>The interface of a bounded store\<close>

datatype ('p, 'q) store_op = Put string 'p | Upd string 'q | Del string

fun run_ops :: "(string \<Rightarrow> 'p \<Rightarrow> 's \<Rightarrow> 's) \<Rightarrow> (string \<Rightarrow> 'q \<Rightarrow> 's \<Rightarrow> 's) \<Rightarrow> (string \<Rightarrow> 's \<Rightarrow> 's)
    \<Rightarrow> ('p, 'q) store_op list \<Rightarrow> 's \<Rightarrow> 's" where
  "run_ops put upd del [] s = s"
| "run_ops put upd del (Put k p # ops) s = run_ops put upd del ops (put k p s)"
| "run_ops put upd del (Upd k q # ops) s = run_ops put upd del ops (upd k q s)"
| "run_ops put upd del (Del k # ops) s = run_ops put upd del ops (del k s)"

text \<open>The reference: the same operations on a map without a bound.\<close>

fun run_spec :: "(string \<Rightarrow> 'p \<Rightarrow> 'v) \<Rightarrow> ('q \<Rightarrow> 'v \<Rightarrow> 'v) \<Rightarrow> ('p, 'q) store_op list
    \<Rightarrow> (string \<Rightarrow> 'v option) \<Rightarrow> (string \<Rightarrow> 'v option)" where
  "run_spec stored modify [] m = m"
| "run_spec stored modify (Put k p # ops) m = run_spec stored modify ops (m(k \<mapsto> stored k p))"
| "run_spec stored modify (Upd k q # ops) m =
     run_spec stored modify ops (m(k := map_option (modify q) (m k)))"
| "run_spec stored modify (Del k # ops) m = run_spec stored modify ops (m(k := None))"

text \<open>How many ids were added after \<open>k\<close>.\<close>

definition age :: "string \<Rightarrow> string list \<Rightarrow> nat" where
  "age k ks = length (takeWhile (\<lambda>x. x \<noteq> k) (rev ks))"

fun touches :: "string \<Rightarrow> ('p, 'q) store_op \<Rightarrow> bool" where
  "touches j (Put k p) = (k = j)"
| "touches j (Upd k q) = (k = j)"
| "touches j (Del k) = (k = j)"

lemma run_spec_mono:
  "m \<subseteq>\<^sub>m m' \<Longrightarrow> run_spec stored modify ops m \<subseteq>\<^sub>m run_spec stored modify ops m'"
proof (induction ops arbitrary: m m')
  case (Cons x ops)
  then show ?case by (cases x) (auto intro!: Cons.IH simp: map_le_def dom_def)
qed simp

locale bounded_store =
  fixes put :: "string \<Rightarrow> 'p \<Rightarrow> 's \<Rightarrow> 's"
    and upd :: "string \<Rightarrow> 'q \<Rightarrow> 's \<Rightarrow> 's"
    and del :: "string \<Rightarrow> 's \<Rightarrow> 's"
    and lookup :: "'s \<Rightarrow> string \<Rightarrow> 'v option"
    and keys :: "'s \<Rightarrow> string list"
    and capacity :: "'s \<Rightarrow> nat"
    and stored :: "string \<Rightarrow> 'p \<Rightarrow> 'v"
    and modify :: "'q \<Rightarrow> 'v \<Rightarrow> 'v"
    and ok :: "'s \<Rightarrow> bool"
  assumes ok_put: "ok s \<Longrightarrow> ok (put k p s)"
    and ok_upd: "ok s \<Longrightarrow> ok (upd k q s)"
    and ok_del: "ok s \<Longrightarrow> ok (del k s)"
    and capacity_put [simp]: "capacity (put k p s) = capacity s"
    and capacity_upd [simp]: "capacity (upd k q s) = capacity s"
    and capacity_del [simp]: "capacity (del k s) = capacity s"
    and keys_bound: "ok s \<Longrightarrow> length (keys s) \<le> capacity s"
    and put_le: "ok s \<Longrightarrow> lookup (put k p s) \<subseteq>\<^sub>m (lookup s)(k \<mapsto> stored k p)"
    and put_same: "ok s \<Longrightarrow> 0 < capacity s \<Longrightarrow> lookup (put k p s) k = Some (stored k p)"
    and put_fresh: "ok s \<Longrightarrow> 0 < capacity s \<Longrightarrow> lookup s k = None \<Longrightarrow> age k (keys (put k p s)) = 0"
    and put_keeps: "ok s \<Longrightarrow> j \<noteq> k \<Longrightarrow> lookup s j \<noteq> None \<Longrightarrow> age j (keys s) + 1 < capacity s \<Longrightarrow>
      lookup (put k p s) j = lookup s j \<and> age j (keys (put k p s)) \<le> age j (keys s) + 1"
    and upd_lookup: "lookup (upd k q s) = (lookup s)(k := map_option (modify q) (lookup s k))"
    and upd_keys: "keys (upd k q s) = keys s"
    and del_lookup: "ok s \<Longrightarrow> lookup (del k s) = (lookup s)(k := None)"
    and del_age: "ok s \<Longrightarrow> j \<noteq> k \<Longrightarrow> lookup s j \<noteq> None \<Longrightarrow> age j (keys (del k s)) \<le> age j (keys s)"
begin

lemma ok_run: "ok s \<Longrightarrow> ok (run_ops put upd del ops s)"
proof (induction ops arbitrary: s)
  case (Cons x ops)
  then show ?case by (cases x) (auto intro: ok_put ok_upd ok_del)
qed simp

lemma capacity_run: "capacity (run_ops put upd del ops s) = capacity s"
proof (induction ops arbitrary: s)
  case (Cons x ops)
  then show ?case by (cases x) auto
qed simp

lemma run_bounded:
  "ok s \<Longrightarrow> length (keys (run_ops put upd del ops s)) \<le> capacity s"
  using keys_bound [OF ok_run, of s ops] by (simp add: capacity_run)

lemma run_refines:
  "ok s \<Longrightarrow> lookup s \<subseteq>\<^sub>m m \<Longrightarrow>
   lookup (run_ops put upd del ops s) \<subseteq>\<^sub>m run_spec stored modify ops m"
proof (induction ops arbitrary: s m)
  case (Cons x ops)
  show ?case
  proof (cases x)
    case (Put k p)
    have "lookup (put k p s) \<subseteq>\<^sub>m m(k \<mapsto> stored k p)"
      by (rule map_le_trans [OF put_le [OF Cons.prems(1)] map_le_upd [OF Cons.prems(2)]])
    from Cons.IH [OF ok_put [OF Cons.prems(1)] this] Put show ?thesis by (simp only: run_ops.simps run_spec.simps)
  next
    case (Upd k q)
    have "lookup (upd k q s) \<subseteq>\<^sub>m m(k := map_option (modify q) (m k))"
      using Cons.prems(2) by (auto simp: upd_lookup map_le_def dom_def)
    from Cons.IH [OF ok_upd [OF Cons.prems(1)] this] Upd show ?thesis by (simp only: run_ops.simps run_spec.simps)
  next
    case (Del k)
    have "lookup (del k s) \<subseteq>\<^sub>m m(k := None)"
      using Cons.prems by (auto simp: del_lookup map_le_def dom_def)
    from Cons.IH [OF ok_del [OF Cons.prems(1)] this] Del show ?thesis by (simp only: run_ops.simps run_spec.simps)
  qed
qed simp

lemma run_survives:
  "ok s \<Longrightarrow> lookup s k = Some v \<Longrightarrow> \<forall>x \<in> set ops. \<not> touches k x \<Longrightarrow>
   age k (keys s) + length ops < capacity s \<Longrightarrow>
   lookup (run_ops put upd del ops s) k = Some v"
proof (induction ops arbitrary: s)
  case (Cons x ops)
  from Cons.prems(3) have rest: "\<forall>x \<in> set ops. \<not> touches k x" by simp
  show ?case
  proof (cases x)
    case (Put j p)
    with Cons.prems have "lookup (put j p s) k = Some v" "age k (keys (put j p s)) \<le> age k (keys s) + 1"
      using put_keeps [of s k j p] by auto
    with Cons.IH [OF ok_put [OF Cons.prems(1)] _ rest, of j p] Cons.prems(4) Put
    show ?thesis by simp
  next
    case (Upd j q)
    with Cons.prems have "lookup (upd j q s) k = Some v" by (auto simp: upd_lookup)
    with Cons.IH [OF ok_upd [OF Cons.prems(1)] _ rest, of j q] Cons.prems(4) Upd
    show ?thesis by (simp add: upd_keys)
  next
    case (Del j)
    with Cons.prems have "lookup (del j s) k = Some v" "age k (keys (del j s)) \<le> age k (keys s)"
      using del_age [of s k j] by (auto simp: del_lookup)
    with Cons.IH [OF ok_del [OF Cons.prems(1)] _ rest, of j] Cons.prems(4) Del
    show ?thesis by simp
  qed
qed simp

lemma put_survives:
  assumes "ok s" and "lookup s k = None" and "length ops < capacity s"
    and "\<forall>x \<in> set ops. \<not> touches k x"
  shows "lookup (run_ops put upd del (Put k p # ops) s) k = Some (stored k p)"
  using assms put_same [of s k p] put_fresh [of s k p]
  by (auto intro!: run_survives ok_put)

end

section \<open>The stores\<close>

record 'v store =
  st_max :: nat
  st_order :: "string list"
  st_values :: "string \<Rightarrow> 'v option"

definition new_store :: "nat \<Rightarrow> 'v store" where
  "new_store n = \<lparr>st_max = n, st_order = [], st_values = Map.empty\<rparr>"

text \<open>The eviction loop at the end of both \<open>remember\<close>s.\<close>

fun evict :: "nat \<Rightarrow> string list \<Rightarrow> (string \<Rightarrow> 'v option) \<Rightarrow> string list \<times> (string \<Rightarrow> 'v option)" where
  "evict n [] vs = ([], vs)"
| "evict n (k # ks) vs = (if n < length (k # ks) then evict n ks (vs(k := None)) else (k # ks, vs))"

definition store_delete :: "string \<Rightarrow> 'v store \<Rightarrow> 'v store \<times> bool" where
  "store_delete k s = (case st_values s k of
       None \<Rightarrow> (s, False)
     | Some _ \<Rightarrow> (s\<lparr>st_values := (st_values s)(k := None), st_order := remove1 k (st_order s)\<rparr>, True))"

definition store_ok :: "'v store \<Rightarrow> bool" where
  "store_ok s \<longleftrightarrow> distinct (st_order s) \<and> set (st_order s) = dom (st_values s)
     \<and> length (st_order s) \<le> st_max s"

subsection \<open>Responses\<close>

record storedResponse =
  EffectiveInput :: "json list"
  Context :: "json list"
  Response :: obj

type_synonym responseStore = "storedResponse store"

definition response_get :: "string \<Rightarrow> responseStore \<Rightarrow> storedResponse option" where
  "response_get k s = map_option (\<lambda>v. \<lparr>EffectiveInput = cloneSlice (EffectiveInput v),
      Context = cloneSlice (Context v), Response = clone_obj (Response v)\<rparr>) (st_values s k)"

definition response_entry :: "json list \<Rightarrow> obj \<Rightarrow> storedResponse" where
  "response_entry inp response = (let effective = cloneSlice inp in
     \<lparr>EffectiveInput = effective,
      Context = cloneSlice effective @ responseContext (Some response),
      Response = clone_obj response\<rparr>)"

definition response_remember :: "string \<Rightarrow> json list \<times> obj \<Rightarrow> responseStore \<Rightarrow> responseStore" where
  "response_remember k ir s = (if st_max s = 0 then s else
     (let ks = (if st_values s k \<noteq> None then remove1 k (st_order s) else st_order s) @ [k];
          (ks', vs') = evict (st_max s) ks ((st_values s)(k \<mapsto> response_entry (fst ir) (snd ir)))
      in s\<lparr>st_order := ks', st_values := vs'\<rparr>))"

definition response_delete :: "string \<Rightarrow> responseStore \<Rightarrow> responseStore \<times> bool" where
  "response_delete = store_delete"

definition cancel_entry :: "unit \<Rightarrow> storedResponse \<Rightarrow> storedResponse" where
  "cancel_entry u v = v\<lparr>Response := oset ''status'' (JStr ''cancelled'') (Response v)\<rparr>"

definition response_cancel :: "string \<Rightarrow> responseStore \<Rightarrow> responseStore \<times> gomap" where
  "response_cancel k s = (case st_values s k of
       None \<Rightarrow> (s, None)
     | Some v \<Rightarrow> (s\<lparr>st_values := (st_values s)(k \<mapsto> cancel_entry () v)\<rparr>,
                  cloneMap (Some (Response (cancel_entry () v)))))"

subsection \<open>Chat completions\<close>

record storedChat =
  Completion :: obj
  Messages :: "obj list"
  Metadata :: obj

type_synonym chatStore = "storedChat store"

definition chat_get :: "string \<Rightarrow> chatStore \<Rightarrow> storedChat option" where
  "chat_get k s = map_option (\<lambda>v. \<lparr>Completion = clone_obj (Completion v),
      Messages = map clone_obj (Messages v), Metadata = clone_obj (Metadata v)\<rparr>) (st_values s k)"

definition stored_messages :: "string \<Rightarrow> obj \<Rightarrow> obj list" where
  "stored_messages k c = concat (map (\<lambda>(i, raw). case cloneMap (mapAny (mget (mapAny raw) ''message'')) of
       None \<Rightarrow> []
     | Some m \<Rightarrow> [oset ''id'' (JStr (k @ ''_msg_'' @ itoa (int i))) m])
     (enumerate 0 (sliceAny (oget c ''choices''))))"

definition chat_entry :: "string \<Rightarrow> obj \<times> obj \<Rightarrow> storedChat" where
  "chat_entry k cm = (let c = oset ''metadata'' (JObj (clone_obj (snd cm))) (clone_obj (fst cm)) in
     \<lparr>Completion = c, Messages = stored_messages k c, Metadata = clone_obj (snd cm)\<rparr>)"

definition chat_remember :: "string \<Rightarrow> obj \<times> obj \<Rightarrow> chatStore \<Rightarrow> chatStore" where
  "chat_remember k cm s = (if st_max s = 0 then s else
     (let ks = (if st_values s k = None then st_order s @ [k] else st_order s);
          (ks', vs') = evict (st_max s) ks ((st_values s)(k \<mapsto> chat_entry k cm))
      in s\<lparr>st_order := ks', st_values := vs'\<rparr>))"

definition update_entry :: "obj \<Rightarrow> storedChat \<Rightarrow> storedChat" where
  "update_entry metadata v = v\<lparr>Metadata := clone_obj metadata,
     Completion := oset ''metadata'' (JObj (clone_obj metadata)) (Completion v)\<rparr>"

definition chat_update :: "string \<Rightarrow> obj \<Rightarrow> chatStore \<Rightarrow> chatStore \<times> gomap" where
  "chat_update k metadata s = (case st_values s k of
       None \<Rightarrow> (s, None)
     | Some v \<Rightarrow> (s\<lparr>st_values := (st_values s)(k \<mapsto> update_entry metadata v)\<rparr>,
                  cloneMap (Some (Completion (update_entry metadata v)))))"

definition chat_delete :: "string \<Rightarrow> chatStore \<Rightarrow> chatStore \<times> bool" where
  "chat_delete = store_delete"

definition chat_matches :: "string \<Rightarrow> obj \<Rightarrow> storedChat \<Rightarrow> bool" where
  "chat_matches model metadata v =
     ((model = [] \<or> stringValue (oget (Completion v) ''model'') = model) \<and>
      list_all (\<lambda>(k, want). stringValue (oget (Metadata v) k) = stringValue want) metadata)"

text \<open>\<open>None\<close> is the panic a nil entry would cause.\<close>

fun chat_collect :: "chatStore \<Rightarrow> string \<Rightarrow> obj \<Rightarrow> string list \<Rightarrow> obj list option" where
  "chat_collect s model metadata [] = Some []"
| "chat_collect s model metadata (k # ks) = (case st_values s k of
       None \<Rightarrow> None
     | Some v \<Rightarrow> map_option (\<lambda>r. if chat_matches model metadata v
                                then clone_obj (Completion v) # r else r)
         (chat_collect s model metadata ks))"

text \<open>The rest after the first \<open>x\<close>, or all if there is none.\<close>

fun after_id :: "string \<Rightarrow> string list \<Rightarrow> string list option" where
  "after_id x [] = None"
| "after_id x (k # ks) = (if k = x then Some ks else after_id x ks)"

definition cut_after :: "string \<Rightarrow> string list \<Rightarrow> string list" where
  "cut_after after ids =
     (if after = [] then ids else case after_id after ids of None \<Rightarrow> ids | Some r \<Rightarrow> r)"

definition take_limit :: "int \<Rightarrow> 'a list \<Rightarrow> 'a list \<times> bool" where
  "take_limit limit xs = (let more = 0 < limit \<and> limit < int (length xs) in
     (if more then take (nat limit) xs else xs, more))"

definition chat_list :: "chatStore \<Rightarrow> string \<Rightarrow> obj \<Rightarrow> bool \<Rightarrow> string \<Rightarrow> int \<Rightarrow> (obj list \<times> bool) option" where
  "chat_list s model metadata desc after limit =
     (let ids = (if desc then rev (st_order s) else st_order s)
      in map_option (take_limit limit) (chat_collect s model metadata (cut_after after ids)))"

section \<open>Laws of the stores\<close>

lemma evict_eq:
  "evict n ks vs = (drop (length ks - n) ks, vs |` (- set (take (length ks - n) ks)))"
proof (induction n ks vs rule: evict.induct)
  case (2 n k ks vs)
  show ?case
  proof (cases "n < length (k # ks)")
    case True
    then have "length (k # ks) - n = Suc (length ks - n)" by simp
    with True 2 show ?thesis by (auto simp: restrict_map_def fun_eq_iff fun_upd_def)
  next
    case False
    then show ?thesis by simp
  qed
qed simp

lemma age_append: "age k (ks @ [j]) = (if j = k then 0 else Suc (age k ks))"
  by (simp add: age_def)

lemma age_drop: "k \<in> set (drop n ks) \<Longrightarrow> age k (drop n ks) = age k ks"
proof -
  assume k: "k \<in> set (drop n ks)"
  have "rev ks = rev (drop n ks) @ rev (take n ks)"
    by (metis append_take_drop_id rev_append)
  then show ?thesis using k by (simp add: age_def takeWhile_append1 [where x = k])
qed

lemma age_remove1: "j \<noteq> k \<Longrightarrow> age k (remove1 j ks) \<le> age k ks"
proof (induction ks rule: rev_induct)
  case (snoc x ks)
  show ?case
  proof (cases "j \<in> set ks")
    case True
    then show ?thesis using snoc by (simp add: remove1_append age_append)
  next
    case False
    then have "remove1 j ks = ks" by (simp add: remove1_idem)
    with False snoc.prems show ?thesis by (auto simp: remove1_append age_append)
  qed
qed (simp add: age_def)

lemma age_in_drop:
  "k \<in> set ks \<Longrightarrow> age k ks < n \<Longrightarrow> k \<in> set (drop (length ks - n) ks)"
proof (induction ks arbitrary: n rule: rev_induct)
  case (snoc x ks)
  show ?case
  proof (cases "x = k")
    case True
    with snoc.prems have "length (ks @ [x]) - n \<le> length ks" by (simp add: age_append)
    with True show ?thesis by simp
  next
    case False
    with snoc.prems obtain m where m: "n = Suc m" "k \<in> set ks" "age k ks < m"
      by (cases n) (auto simp: age_append)
    then have "k \<in> set (drop (length ks - m) ks)" by (intro snoc.IH)
    with m show ?thesis by simp
  qed
qed simp

text \<open>The common core of both \<open>remember\<close>s: the new order without duplicates, the value stored,
  and the front evicted.\<close>

definition remember_with :: "string list \<Rightarrow> string \<Rightarrow> 'v \<Rightarrow> 'v store \<Rightarrow> 'v store" where
  "remember_with ks k v s = (if st_max s = 0 then s else
     (let (ks', vs') = evict (st_max s) ks ((st_values s)(k \<mapsto> v))
      in s\<lparr>st_order := ks', st_values := vs'\<rparr>))"

lemma response_remember_with:
  "response_remember k ir s = remember_with
     ((if st_values s k \<noteq> None then remove1 k (st_order s) else st_order s) @ [k]) k
     (response_entry (fst ir) (snd ir)) s"
  by (simp add: response_remember_def remember_with_def Let_def)

lemma chat_remember_with:
  "chat_remember k cm s = remember_with
     (if st_values s k = None then st_order s @ [k] else st_order s) k (chat_entry k cm) s"
  by (simp add: chat_remember_def remember_with_def Let_def)

lemma remember_with_ok:
  assumes "store_ok s" and "distinct ks" and "set ks = insert k (dom (st_values s))"
  shows "store_ok (remember_with ks k v s)"
proof -
  let ?d = "length ks - st_max s"
  have "set (take ?d ks) \<inter> set (drop ?d ks) = {}"
    using assms(2) by (metis append_take_drop_id distinct_append)
  moreover have "set ks = set (take ?d ks) \<union> set (drop ?d ks)"
    by (metis append_take_drop_id set_append)
  ultimately have "set (drop ?d ks) = insert k (dom (st_values s)) \<inter> - set (take ?d ks)"
    using assms(3) by blast
  then show ?thesis using assms(1,2)
    by (auto simp: store_ok_def remember_with_def evict_eq)
qed

lemma store_ok_zero: "store_ok s \<Longrightarrow> st_max s = 0 \<Longrightarrow> st_values s = Map.empty"
proof -
  assume ok: "store_ok s" and zero: "st_max s = 0"
  from ok have "set (st_order s) = dom (st_values s)" unfolding store_ok_def by blast
  moreover from ok zero have "st_order s = []" by (simp add: store_ok_def)
  ultimately show "st_values s = Map.empty" by (metis dom_eq_empty_conv empty_set)
qed

lemma remember_with_le:
  "store_ok s \<Longrightarrow> st_values (remember_with ks k v s) \<subseteq>\<^sub>m (st_values s)(k \<mapsto> v)"
  by (auto simp: remember_with_def evict_eq map_le_def restrict_map_def store_ok_zero split: if_splits)

lemma remember_with_kept:
  assumes "store_ok s" and "distinct ks" and "0 < st_max s" and "j \<in> set ks" and "age j ks < st_max s"
  shows "st_values (remember_with ks k v s) j = ((st_values s)(k \<mapsto> v)) j
     \<and> age j (st_order (remember_with ks k v s)) = age j ks"
proof -
  let ?d = "length ks - st_max s"
  have in_drop: "j \<in> set (drop ?d ks)" using assms(4,5) by (rule age_in_drop)
  then have "j \<notin> set (take ?d ks)"
    using assms(2) by (metis append_take_drop_id disjoint_iff distinct_append)
  with in_drop show ?thesis using assms(3)
    by (auto simp: remember_with_def evict_eq age_drop)
qed

lemma remember_with_max [simp]: "st_max (remember_with ks k v s) = st_max s"
  by (simp add: remember_with_def split: prod.split)

lemma store_ok_new: "store_ok (new_store n)"
  by (simp add: store_ok_def new_store_def)

lemma store_delete_ok: "store_ok s \<Longrightarrow> store_ok (fst (store_delete k s))"
  by (auto simp: store_ok_def store_delete_def distinct_remove1 set_remove1_eq length_remove1
      split: option.split)

lemma store_delete_lookup: "st_values (fst (store_delete k s)) = (st_values s)(k := None)"
  by (auto simp: store_delete_def split: option.split)

lemma store_delete_age:
  "j \<noteq> k \<Longrightarrow> age j (st_order (fst (store_delete k s))) \<le> age j (st_order s)"
  by (auto simp: store_delete_def age_remove1 split: option.split)

lemma store_delete_max [simp]: "st_max (fst (store_delete k s)) = st_max s"
  by (simp add: store_delete_def split: option.split)

section \<open>The stores implement the interface\<close>

definition response_ops :: "(json list \<times> obj, unit) store_op list \<Rightarrow> responseStore \<Rightarrow> responseStore" where
  "response_ops ops s = run_ops response_remember (\<lambda>k u s. fst (response_cancel k s))
     (\<lambda>k s. fst (response_delete k s)) ops s"

definition chat_ops :: "(obj \<times> obj, obj) store_op list \<Rightarrow> chatStore \<Rightarrow> chatStore" where
  "chat_ops ops s = run_ops chat_remember (\<lambda>k q s. fst (chat_update k q s))
     (\<lambda>k s. fst (chat_delete k s)) ops s"

definition response_stored :: "string \<Rightarrow> json list \<times> obj \<Rightarrow> storedResponse" where
  "response_stored k ir = response_entry (fst ir) (snd ir)"

definition response_order :: "string \<Rightarrow> responseStore \<Rightarrow> string list" where
  "response_order k s =
     (if st_values s k \<noteq> None then remove1 k (st_order s) else st_order s) @ [k]"

definition chat_order :: "string \<Rightarrow> chatStore \<Rightarrow> string list" where
  "chat_order k s = (if st_values s k = None then st_order s @ [k] else st_order s)"

lemma store_ok_order_iff: "store_ok s \<Longrightarrow> k \<in> set (st_order s) \<longleftrightarrow> st_values s k \<noteq> None"
  by (auto simp: store_ok_def)

lemma response_order_ok:
  "store_ok s \<Longrightarrow> distinct (response_order k s) \<and> set (response_order k s) = insert k (dom (st_values s))"
  by (auto simp: response_order_def store_ok_def distinct_remove1 set_remove1_eq)

lemma chat_order_ok:
  "store_ok s \<Longrightarrow> distinct (chat_order k s) \<and> set (chat_order k s) = insert k (dom (st_values s))"
  by (auto simp: chat_order_def store_ok_def)

lemma response_remember_eq:
  "response_remember k ir s = remember_with (response_order k s) k (response_stored k ir) s"
  by (simp add: response_remember_with response_order_def response_stored_def)

lemma chat_remember_eq: "chat_remember k cm s = remember_with (chat_order k s) k (chat_entry k cm) s"
  by (simp add: chat_remember_with chat_order_def)

lemma response_order_age:
  "age k (response_order k s) = 0"
  "j \<noteq> k \<Longrightarrow> age j (response_order k s) \<le> Suc (age j (st_order s))"
  by (simp_all add: response_order_def age_append age_remove1)

lemma chat_order_age:
  "st_values s k = None \<Longrightarrow> age k (chat_order k s) = 0"
  "j \<noteq> k \<Longrightarrow> age j (chat_order k s) \<le> Suc (age j (st_order s))"
  by (simp_all add: chat_order_def age_append)

lemma age_less_length: "k \<in> set ks \<Longrightarrow> age k ks < length ks"
proof (induction ks rule: rev_induct)
  case (snoc x ks)
  then show ?case by (auto simp: age_append)
qed simp

lemma chat_order_age_same:
  assumes "store_ok s" and "0 < st_max s"
  shows "age k (chat_order k s) < st_max s"
  using assms age_less_length [of k "st_order s"]
  by (cases "st_values s k") (auto simp: chat_order_def age_append store_ok_def dom_def)

interpretation rs: bounded_store response_remember "\<lambda>k u s. fst (response_cancel k s)"
    "\<lambda>k s. fst (response_delete k s)" st_values st_order st_max response_stored cancel_entry store_ok
proof (unfold_locales, goal_cases)
  case (1 s k p) then show ?case
    using response_order_ok by (simp add: response_remember_eq remember_with_ok)
next
  case (2 s k q) then show ?case
    by (auto simp: response_cancel_def store_ok_def split: option.split)
next
  case (3 s k) then show ?case by (simp add: response_delete_def store_delete_ok)
next
  case (4 k p s) then show ?case by (simp add: response_remember_eq)
next
  case (5 k q s) then show ?case by (simp add: response_cancel_def split: option.split)
next
  case (6 k s) then show ?case by (simp add: response_delete_def)
next
  case (7 s) then show ?case by (simp add: store_ok_def)
next
  case (8 s k p) then show ?case by (simp add: response_remember_eq remember_with_le)
next
  case (9 s k p) then show ?case
    using remember_with_kept [of s "response_order k s" k k] response_order_ok [of s k]
    by (simp add: response_remember_eq response_order_age)
next
  case (10 s k p) then show ?case
    using remember_with_kept [of s "response_order k s" k k] response_order_ok [of s k]
    by (simp add: response_remember_eq response_order_age)
next
  case (11 s j k p)
  then show ?case
    using remember_with_kept [of s "response_order k s" j k] response_order_ok [of s k]
      response_order_age(2) [of j k s]
    by (auto simp: response_remember_eq dom_def)
next
  case (12 k q s) then show ?case
    by (auto simp: response_cancel_def cancel_entry_def split: option.split)
next
  case (13 k q s) then show ?case by (simp add: response_cancel_def split: option.split)
next
  case (14 s k) then show ?case by (simp add: response_delete_def store_delete_lookup)
next
  case (15 s j k) then show ?case by (simp add: response_delete_def store_delete_age)
qed

interpretation cs: bounded_store chat_remember "\<lambda>k q s. fst (chat_update k q s)"
    "\<lambda>k s. fst (chat_delete k s)" st_values st_order st_max chat_entry update_entry store_ok
proof (unfold_locales, goal_cases)
  case (1 s k p) then show ?case
    using chat_order_ok by (simp add: chat_remember_eq remember_with_ok)
next
  case (2 s k q) then show ?case
    by (auto simp: chat_update_def store_ok_def split: option.split)
next
  case (3 s k) then show ?case by (simp add: chat_delete_def store_delete_ok)
next
  case (4 k p s) then show ?case by (simp add: chat_remember_eq)
next
  case (5 k q s) then show ?case by (simp add: chat_update_def split: option.split)
next
  case (6 k s) then show ?case by (simp add: chat_delete_def)
next
  case (7 s) then show ?case by (simp add: store_ok_def)
next
  case (8 s k p) then show ?case by (simp add: chat_remember_eq remember_with_le)
next
  case (9 s k p) then show ?case
    using remember_with_kept [of s "chat_order k s" k k] chat_order_ok [of s k]
      chat_order_age_same [of s k]
    by (simp add: chat_remember_eq)
next
  case (10 s k p) then show ?case
    using remember_with_kept [of s "chat_order k s" k k] chat_order_ok [of s k]
    by (simp add: chat_remember_eq chat_order_age)
next
  case (11 s j k p)
  then show ?case
    using remember_with_kept [of s "chat_order k s" j k] chat_order_ok [of s k]
      chat_order_age(2) [of j k s]
    by (auto simp: chat_remember_eq dom_def)
next
  case (12 k q s) then show ?case
    by (auto simp: chat_update_def split: option.split)
next
  case (13 k q s) then show ?case by (simp add: chat_update_def split: option.split)
next
  case (14 s k) then show ?case by (simp add: chat_delete_def store_delete_lookup)
next
  case (15 s j k) then show ?case by (simp add: chat_delete_def store_delete_age)
qed

section \<open>Properties\<close>

lemma chat_collect_ok:
  "\<forall>k \<in> set ks. st_values s k \<noteq> None \<Longrightarrow> chat_collect s model metadata ks =
     Some (map (\<lambda>k. clone_obj (Completion (the (st_values s k))))
       (filter (\<lambda>k. chat_matches model metadata (the (st_values s k))) ks))"
  by (induction ks) auto

lemma after_id_append: "x \<notin> set ps \<Longrightarrow> after_id x (ps @ x # qs) = Some qs"
  by (induction ps) auto

lemma after_id_suffix: "after_id x ks = Some r \<Longrightarrow> \<exists>ps. ks = ps @ x # r"
proof (induction ks)
  case (Cons k ks)
  then show ?case by (cases "k = x") (auto intro: exI [of _ "[]"] exI [of _ "k # ps" for ps])
qed simp

lemma set_cut_after: "set (cut_after a ks) \<subseteq> set ks"
  by (auto simp: cut_after_def split: if_splits option.splits dest!: after_id_suffix)

lemma cut_after_suffix: "\<exists>ps. ids = ps @ cut_after a ids"
proof (cases "a = [] \<or> after_id a ids = None")
  case True
  then have "cut_after a ids = ids" by (auto simp: cut_after_def)
  then show ?thesis by simp
next
  case False
  then obtain r where "after_id a ids = Some r" "cut_after a ids = r"
    by (auto simp: cut_after_def)
  then obtain ps where "ids = (ps @ [a]) @ cut_after a ids" by (auto dest!: after_id_suffix)
  then show ?thesis by blast
qed

text \<open>C17: Whatever is remembered, cancelled and deleted, in any order, the response store holds
  at most its maximum and nothing stale: every entry is what the same operations leave in a
  map without a bound.\<close>

theorem response_store_bounded_refinement:
  "length (st_order (response_ops ops (new_store n))) \<le> n
   \<and> set (st_order (response_ops ops (new_store n))) = dom (st_values (response_ops ops (new_store n)))
   \<and> st_values (response_ops ops (new_store n)) \<subseteq>\<^sub>m run_spec response_stored cancel_entry ops Map.empty"
  using rs.run_bounded [OF store_ok_new, of ops n]
    rs.run_refines [OF store_ok_new, of n Map.empty ops] rs.ok_run [OF store_ok_new, of ops n]
  by (simp add: response_ops_def new_store_def store_ok_def)

text \<open>The same for the store of chat completions, whose entries are also rewritten by
  metadata updates.\<close>

theorem chat_store_bounded_refinement:
  "length (st_order (chat_ops ops (new_store n))) \<le> n
   \<and> set (st_order (chat_ops ops (new_store n))) = dom (st_values (chat_ops ops (new_store n)))
   \<and> st_values (chat_ops ops (new_store n)) \<subseteq>\<^sub>m run_spec chat_entry update_entry ops Map.empty"
  using cs.run_bounded [OF store_ok_new, of ops n]
    cs.run_refines [OF store_ok_new, of n Map.empty ops] cs.ok_run [OF store_ok_new, of ops n]
  by (simp add: chat_ops_def new_store_def store_ok_def)

text \<open>A response remembered under a new id can be continued from: it is still there after
  fewer than the maximum of further operations on other ids.\<close>

theorem response_stays_available:
  assumes "store_ok s" and "st_values s k = None" and "length ops < st_max s"
    and "\<forall>x \<in> set ops. \<not> touches k x"
  shows "st_values (response_ops (Put k ir # ops) s) k = Some (response_entry (fst ir) (snd ir))"
  using rs.put_survives [OF assms, of ir] by (simp add: response_ops_def response_stored_def)

theorem response_stays_available_witness:
  "st_values (response_ops [Put ''a'' ([], []), Put ''b'' ([], []), Del ''c''] (new_store 3)) ''a''
     = Some (response_entry [] [])"
  using response_stays_available [of "new_store 3" "''a''" "[Put ''b'' ([], []), Del ''c'']" "([], [])"]
  by (simp add: store_ok_new new_store_def store_ok_def)

text \<open>Listing stored completions never meets a missing entry; it yields the matching ones in
  insertion order (or the reverse), after the cursor and cut at the limit, with \<open>more\<close> set
  exactly when some were cut.\<close>

theorem chat_list_correct:
  assumes "store_ok s"
  shows "chat_list s model metadata desc after limit =
    (let found = map (\<lambda>k. clone_obj (Completion (the (st_values s k))))
           (filter (\<lambda>k. chat_matches model metadata (the (st_values s k)))
             (cut_after after (if desc then rev (st_order s) else st_order s)))
     in Some (if 0 < limit \<and> limit < int (length found) then (take (nat limit) found, True)
              else (found, False)))"
proof -
  let ?ids = "cut_after after (if desc then rev (st_order s) else st_order s)"
  have "\<forall>k \<in> set ?ids. st_values s k \<noteq> None"
    using set_cut_after [of after "if desc then rev (st_order s) else st_order s"] assms
    by (auto simp: store_ok_order_iff split: if_splits)
  then show ?thesis
    by (simp add: chat_list_def chat_collect_ok take_limit_def Let_def)
qed

theorem chat_list_correct_witness:
  "chat_list (chat_ops [Put ''a'' ([(''model'', JStr ''m'')], [])] (new_store 2)) ''m'' [] False [] 0
     = Some ([[(''model'', JStr ''m''), (''metadata'', JObj [])]], False)"
  using chat_list_correct
      [OF cs.ok_run [OF store_ok_new, of "[Put ''a'' ([(''model'', JStr ''m'')], [])]" 2],
       of "''m''" "[]" False "[]" 0]
  by (simp add: chat_ops_def new_store_def chat_remember_def cut_after_def chat_matches_def
      chat_entry_def clone_obj_def Let_def)

text \<open>Paging is complete: the ids after a page's last id are exactly the ids the page left
  out, so following \<open>after\<close> from page to page visits every id once.\<close>

theorem next_page_continues:
  assumes "distinct ids" and "take_limit limit (cut_after a ids) = (page, True)"
    and "last page \<noteq> []"
  shows "cut_after a ids = page @ cut_after (last page) ids"
proof -
  let ?rest = "cut_after a ids"
  from assms(2) have lim: "0 < limit" "limit < int (length ?rest)" and page: "page = take (nat limit) ?rest"
    by (auto simp: take_limit_def Let_def split: if_splits)
  then have "page \<noteq> []" by auto
  then have page_eq: "page = butlast page @ [last page]" by simp
  have rest: "?rest = page @ drop (nat limit) ?rest" by (simp add: page)
  obtain ps where ids: "ids = ps @ ?rest"
    using cut_after_suffix by blast
  then have "ids = (ps @ butlast page) @ last page # drop (nat limit) ?rest"
    using rest page_eq by (metis append.assoc append_Cons append_Nil)
  moreover from this assms(1) have "last page \<notin> set (ps @ butlast page)"
    by (metis disjoint_iff distinct_append list.set_intros(1))
  ultimately have "after_id (last page) ids = Some (drop (nat limit) ?rest)"
    by (metis after_id_append)
  then have "cut_after (last page) ids = drop (nat limit) ?rest"
    using assms(3) by (simp add: cut_after_def)
  with rest show ?thesis by simp
qed

theorem next_page_continues_witness:
  "cut_after [] [''a'', ''b'', ''c''] = [''a'', ''b''] @ cut_after ''b'' [''a'', ''b'', ''c'']"
  using next_page_continues [of "[''a'', ''b'', ''c'']" 2 "[]" "[''a'', ''b'']"]
  by (simp add: cut_after_def take_limit_def)

end
