(* ===== verification/Failure.thy ===== *)
theory Failure
  imports Json
begin

text \<open>
  The errors of the backend client: redaction of credentials (\<open>redaction.go\<close>), the
  classification of failures Codex reports, their public form, and when a request is tried
  again (\<open>backend.go\<close>, \<open>server.go\<close>).  An error value is a \<open>go_error\<close>; \<open>errors.As\<close> for
  \<open>*backendError\<close> is \<open>as_backend\<close>, which also finds the one a response failure wraps.

  \<open>http_date\<close> stands for \<open>http.ParseTime\<close> (nanoseconds, \<open>None\<close> for an error) and \<open>now\<close> for
  the clock.
\<close>

section \<open>Redaction\<close>

text \<open>\<open>\s\<close> and \<open>\b\<close> of RE2 are ASCII; case folding of the literals is ASCII here too.\<close>

definition re_space :: "char \<Rightarrow> bool" where
  "re_space c = (c \<in> {CHR 0x09, CHR 0x0A, CHR 0x0C, CHR 0x0D, CHR '' ''})"

definition re_word :: "char \<Rightarrow> bool" where
  "re_word c = (let n = (of_char c :: nat) in
     n \<in> {95} \<or> (48 \<le> n \<and> n < 58) \<or> (65 \<le> n \<and> n < 91) \<or> (97 \<le> n \<and> n < 123))"

text \<open>A byte of \<open>[^\s,;"']\<close>.\<close>

definition secret_char :: "char \<Rightarrow> bool" where
  "secret_char c = (\<not> re_space c \<and> c \<notin> {CHR '','', CHR '';'', CHR 0x22, CHR 0x27})"

definition span :: "('a \<Rightarrow> bool) \<Rightarrow> 'a list \<Rightarrow> 'a list \<times> 'a list" where
  "span P xs = (takeWhile P xs, dropWhile P xs)"

definition ci_prefix :: "string \<Rightarrow> string \<Rightarrow> (string \<times> string) option" where
  "ci_prefix p s = (if has_prefix p (to_lower s) then Some (take (length p) s, drop (length p) s) else None)"

text \<open>A matcher gets whether the byte before is a word byte and the text from here on; it yields
  what group 1 keeps and the text after the match.\<close>

type_synonym matcher = "bool \<Rightarrow> string \<Rightarrow> (string \<times> string) option"

definition bearer_tail :: "string \<Rightarrow> string \<Rightarrow> (string \<times> string) option" where
  "bearer_tail kept s = (let (sp, r) = span re_space s; (tok, r') = span secret_char r in
     if sp = [] \<or> tok = [] then None else Some (kept @ sp, r'))"

definition match_bearer :: matcher where
  "match_bearer prev s = (if prev then None else
     case ci_prefix ''bearer'' s of None \<Rightarrow> None | Some (w, r) \<Rightarrow> bearer_tail w r)"

definition match_assign :: "string \<Rightarrow> (string \<times> string) option" where
  "match_assign s = (let (sp, r) = span re_space s in
     case r of
       [] \<Rightarrow> None
     | c # cs \<Rightarrow> if c = CHR '':'' \<or> c = CHR ''='' then
         (let (sp', r') = span re_space cs in Some (sp @ [c] @ sp', r')) else None)"

definition match_authorization :: matcher where
  "match_authorization prev s =
     (case ci_prefix ''authorization'' s of
        None \<Rightarrow> None
      | Some (w, r) \<Rightarrow> (case match_assign r of
            None \<Rightarrow> None
          | Some (a, r') \<Rightarrow> (case ci_prefix ''bearer'' r' of
                None \<Rightarrow> None
              | Some (b, r'') \<Rightarrow> bearer_tail (w @ a @ b) r'')))"

definition match_key :: matcher where
  "match_key prev s =
     (case List.find (\<lambda>k. ci_prefix k s \<noteq> None) [''access_token'', ''refresh_token'', ''id_token'', ''api_key''] of
        None \<Rightarrow> None
      | Some k \<Rightarrow> (case match_assign (drop (length k) s) of
            None \<Rightarrow> None
          | Some (a, r) \<Rightarrow> (let (tok, r') = span secret_char r in
              if tok = [] then None else Some (take (length k) s @ a, r'))))"

definition jwt_char :: "char \<Rightarrow> bool" where
  "jwt_char c = (re_word c \<or> c = CHR ''-'')"

text \<open>The last segment gives back bytes until it ends at a word boundary.\<close>

definition jwt_end :: "string \<Rightarrow> nat option" where
  "jwt_end t = List.find (\<lambda>n. re_word (t ! (n - 1)) \<noteq> (n < length t \<and> re_word (t ! n)))
     (rev [1..<Suc (length t)])"

definition match_jwt :: matcher where
  "match_jwt prev s = (if prev \<or> \<not> has_prefix ''eyJ'' s then None else
     (let (a, r1) = span jwt_char (drop 3 s) in
      if a = [] \<or> r1 = [] \<or> hd r1 \<noteq> CHR ''.'' then None else
      (let (b, r2) = span jwt_char (tl r1) in
       if b = [] \<or> r2 = [] \<or> hd r2 \<noteq> CHR ''.'' then None else
       (let (t, r3) = span jwt_char (tl r2) in
        map_option (\<lambda>n. ([], drop n t @ r3)) (jwt_end t)))))"

text \<open>\<open>ReplaceAllString(value, "${1}[REDACTED]")\<close>, left to right; every match takes at least
  one byte, so the length of the text is enough fuel.\<close>

fun redact_scan :: "nat \<Rightarrow> matcher \<Rightarrow> bool \<Rightarrow> string \<Rightarrow> string" where
  "redact_scan n m prev [] = []"
| "redact_scan 0 m prev s = s"
| "redact_scan (Suc n) m prev (c # cs) =
     (case m prev (c # cs) of
        None \<Rightarrow> c # redact_scan n m (re_word c) cs
      | Some (kept, rest) \<Rightarrow> kept @ ''[REDACTED]''
          @ redact_scan n m (re_word ((c # cs) ! (length cs - length rest))) rest)"

definition replace_secrets :: "matcher \<Rightarrow> string \<Rightarrow> string" where
  "replace_secrets m s = redact_scan (length s) m False s"

definition is_control :: "char \<Rightarrow> bool" where
  "is_control c = (c < CHR '' '' \<or> c = CHR 0x7F)"

definition redactSensitive :: "string \<Rightarrow> string" where
  "redactSensitive value =
     map (\<lambda>c. if is_control c then CHR '' '' else c)
       (fold replace_secrets [match_bearer, match_authorization, match_key, match_jwt] value)"

section \<open>Errors\<close>

record responseFailureError =
  rf_Status :: int
  rf_Message :: string
  rf_Type :: string
  rf_Code :: string
  rf_RetryAfter :: string
  rf_Param :: json

datatype go_error =
    BackendError int string              \<comment> \<open>\<open>*backendError\<close>\<close>
  | ResponseFailure responseFailureError \<comment> \<open>wraps a \<open>*backendError\<close>\<close>
  | SSELimit                             \<comment> \<open>\<open>errSSELimit\<close>\<close>
  | RetryStream                          \<comment> \<open>\<open>errRetryStream\<close>\<close>
  | ContextError                         \<comment> \<open>\<open>ctx.Err()\<close>\<close>
  | AuthFailure string string            \<comment> \<open>\<open>*authFailure\<close>: code, message\<close>
  | PoolUnavailable int string           \<comment> \<open>\<open>*poolUnavailable\<close>\<close>
  | OtherError string

definition as_backend :: "go_error \<Rightarrow> (int \<times> string) option" where
  "as_backend e = (case e of
       BackendError s m \<Rightarrow> Some (s, m)
     | ResponseFailure f \<Rightarrow> Some (rf_Status f, rf_Message f)
     | _ \<Rightarrow> None)"

definition as_failure :: "go_error \<Rightarrow> responseFailureError option" where
  "as_failure e = (case e of ResponseFailure f \<Rightarrow> Some f | _ \<Rightarrow> None)"

definition failureFallbackMessages :: "string \<Rightarrow> string option" where
  "failureFallbackMessages = map_of
     [(''invalid_prompt'', ''Invalid request.''),
      (''cyber_policy'', ''This request has been flagged for possible cybersecurity risk.''),
      (''bio_policy'', ''This content was flagged for possible biological risk.''),
      (''misalignment_policy_violation'', ''This request was blocked due to a misalignment policy violation.'')]"

definition responseFailureStatus :: "string \<Rightarrow> int" where
  "responseFailureStatus code =
     (if code = ''invalid_api_key'' then 401
      else if code = ''model_not_found'' then 404
      else if code \<in> {''rate_limit_exceeded'', ''insufficient_quota'', ''usage_limit_reached'',
          ''usage_not_included'', ''credit_balance_exhausted'', ''organization_spend_limit_exceeded'',
          ''project_spend_limit_exceeded'', ''organization_usage_limit_exceeded'', ''flex_unavailable''} then 429
      else if code \<in> {''server_is_overloaded'', ''slow_down'', ''policy_capacity_unavailable''} then 503
      else if code \<in> {''context_length_exceeded'', ''unsupported_parameter'', ''content_filter'',
          ''cyber_policy'', ''bio_policy'', ''misalignment_policy_violation'', ''audio_too_large'',
          ''audio_too_short'', ''missing_audio_sample_rate''} then 400
      else if has_prefix ''invalid_'' code then 400
      else 502)"

text \<open>\<open>time.Duration(seconds * float64(time.Second))\<close>, in nanoseconds.\<close>

definition second_ns :: int where
  "second_ns = 1000000000"

definition float_seconds :: "rat \<Rightarrow> int" where
  "float_seconds x = (case fl64 (x * of_int second_ns) of None \<Rightarrow> min_int64 | Some y \<Rightarrow> float_to_int y)"

definition parseRetryAfter :: "(string \<Rightarrow> int option) \<Rightarrow> int \<Rightarrow> string \<Rightarrow> int \<times> bool" where
  "parseRetryAfter http_date now value =
     (case parse_float value of
        FNum x \<Rightarrow> (float_seconds x, 0 \<le> x \<and> x \<le> 2147483647)
      | FInf b \<Rightarrow> (min_int64, False)
      | FNaN \<Rightarrow> (min_int64, False)
      | _ \<Rightarrow> (case http_date value of Some t \<Rightarrow> (max (t - now) 0, True) | None \<Rightarrow> (0, False)))"

definition retryAfterAdvice :: "(string \<Rightarrow> int option) \<Rightarrow> int \<Rightarrow> gomap \<Rightarrow> string" where
  "retryAfterAdvice http_date now detail =
     (case List.find (\<lambda>(k, v). equal_fold k ''retry-after''
              \<and> snd (parseRetryAfter http_date now (trim_space (stringValue v))))
        (case mapAny (mget detail ''headers'') of None \<Rightarrow> [] | Some h \<Rightarrow> h) of
        None \<Rightarrow> [] | Some (k, v) \<Rightarrow> trim_space (stringValue v))"

definition failure_type :: "string \<Rightarrow> int \<Rightarrow> string" where
  "failure_type upstreamType status =
     (if upstreamType \<noteq> [] then upstreamType
      else if status = 400 \<or> status = 404 then ''invalid_request_error''
      else if status = 401 then ''authentication_error''
      else if status = 429 then ''rate_limit_error''
      else ''api_error'')"

definition failure_code :: "gomap \<Rightarrow> string" where
  "failure_code detail = (let code = redactSensitive (stringValue (mget detail ''code''));
     upstreamType = redactSensitive (stringValue (mget detail ''type'')) in
     if code = [] \<and> responseFailureStatus upstreamType = 429 then upstreamType else code)"

definition failure_message :: "gomap \<Rightarrow> string" where
  "failure_message detail = (let text = trim_space (stringValue (mget detail ''message'')) in
     if text \<noteq> [] then redactSensitive text
     else case failureFallbackMessages (failure_code detail) of
            None \<Rightarrow> ''Codex backend response failed.'' | Some m \<Rightarrow> m)"

definition failure_status :: "gomap \<Rightarrow> int" where
  "failure_status detail = (let explicit = intValue (mget detail ''status'') in
     if 400 \<le> explicit \<and> explicit < 600 then explicit else responseFailureStatus (failure_code detail))"

definition newResponseFailure :: "(string \<Rightarrow> int option) \<Rightarrow> int \<Rightarrow> gomap \<Rightarrow> go_error" where
  "newResponseFailure http_date now detail = (let
     upstreamType = redactSensitive (stringValue (mget detail ''type''));
     text = stringValue (mget detail ''param'')
     in ResponseFailure \<lparr>rf_Status = failure_status detail, rf_Message = failure_message detail,
          rf_Type = failure_type upstreamType (failure_status detail),
          rf_Code = failure_code detail, rf_RetryAfter = retryAfterAdvice http_date now detail,
          rf_Param = (if text \<noteq> [] then JStr (redactSensitive text) else JNull)\<rparr>)"

text \<open>\<open>responseFailure\<close> is \<open>newResponseFailure\<close> with a log line.\<close>

definition responseFailure :: "(string \<Rightarrow> int option) \<Rightarrow> int \<Rightarrow> gomap \<Rightarrow> go_error" where
  "responseFailure http_date now detail = newResponseFailure http_date now detail"

definition failureDetail :: "json \<Rightarrow> gomap" where
  "failureDetail value = (case mapAny value of
       Some d \<Rightarrow> Some d
     | None \<Rightarrow> (let text = stringValue value in
         if text \<noteq> [] then Some [(''message'', JStr text)] else None))"

definition errorEventDetail :: "obj \<Rightarrow> obj" where
  "errorEventDetail event = (let
     detail = (case cloneMap (failureDetail (oget event ''error'')) of
                 Some d \<Rightarrow> d | None \<Rightarrow> odel ''type'' (clone_obj event))
     in if oget detail ''status'' = JNull then oset ''status'' (oget event ''status'') detail else detail)"

definition failedResponseError :: "(string \<Rightarrow> int option) \<Rightarrow> int \<Rightarrow> gomap \<Rightarrow> go_error option" where
  "failedResponseError http_date now response =
     (if stringValue (mget response ''status'') \<noteq> ''failed'' then None
      else Some (responseFailure http_date now (failureDetail (mget response ''error''))))"

definition eventFailure :: "(string \<Rightarrow> int option) \<Rightarrow> int \<Rightarrow> obj \<Rightarrow> go_error" where
  "eventFailure http_date now event =
     (if stringValue (oget event ''type'') = ''error''
      then newResponseFailure http_date now (Some (errorEventDetail event))
      else newResponseFailure http_date now
             (failureDetail (mget (mapAny (oget event ''response'')) ''error'')))"

text \<open>An error response: \<open>doc\<close> is what decoding the body gave, \<open>status_line\<close> is \<open>resp.Status\<close>.\<close>

definition decodeBackendError ::
  "(string \<Rightarrow> int option) \<Rightarrow> int \<Rightarrow> gomap \<Rightarrow> int \<Rightarrow> string \<Rightarrow> string \<Rightarrow> go_error" where
  "decodeBackendError http_date now doc status status_line retry_after = (let
     upstream = (case failureDetail (mget doc ''error'') of
                   Some d \<Rightarrow> Some d | None \<Rightarrow> failureDetail (mget doc ''detail''));
     detail = (case cloneMap upstream of Some d \<Rightarrow> d | None \<Rightarrow> []);
     detail = (if stringValue (oget detail ''message'') = []
                  \<and> failureFallbackMessages (stringValue (oget detail ''code'')) = None
               then oset ''message'' (JStr status_line) detail else detail);
     detail = oset ''status'' (JInt status) detail;
     detail = oset ''headers'' (JObj [(''retry-after'', JStr retry_after)]) detail
     in responseFailure http_date now (Some detail))"

section \<open>The public form\<close>

definition internal_error_message :: string where
  "internal_error_message = ''Internal server error.''"

definition publicStreamError :: "go_error \<Rightarrow> string" where
  "publicStreamError err = (case as_backend err of Some (s, m) \<Rightarrow> m | None \<Rightarrow> internal_error_message)"

definition publicErrorObject :: "go_error \<Rightarrow> obj" where
  "publicErrorObject err = (let
     result = [(''message'', JStr (publicStreamError err)), (''type'', JStr ''api_error''),
               (''param'', JNull), (''code'', JNull)]
     in case as_failure err of
          None \<Rightarrow> result
        | Some f \<Rightarrow> (let result = oset ''param'' (rf_Param f) (oset ''type'' (JStr (rf_Type f)) result) in
            if rf_Code f \<noteq> [] then oset ''code'' (JStr (rf_Code f)) result else result))"

text \<open>A response as a handler writes it.\<close>

record http_response =
  resp_status :: int
  resp_headers :: "(string \<times> string) list"
  resp_body :: json

definition json_response :: "int \<Rightarrow> json \<Rightarrow> http_response" where
  "json_response status body =
     \<lparr>resp_status = status, resp_headers = [(''Content-Type'', ''application/json'')], resp_body = body\<rparr>"

definition error_response :: "int \<Rightarrow> string \<Rightarrow> string \<Rightarrow> json \<Rightarrow> json \<Rightarrow> http_response" where
  "error_response status message typ param code = json_response status
     (JObj [(''error'', JObj [(''message'', JStr message), (''type'', JStr typ), (''param'', param), (''code'', code)])])"

definition writeBackendError :: "go_error \<Rightarrow> http_response" where
  "writeBackendError err = (case as_backend err of
       None \<Rightarrow> error_response 500 internal_error_message ''api_error'' JNull JNull
     | Some (s, m) \<Rightarrow> (let r = json_response s (JObj [(''error'', JObj (publicErrorObject err))]) in
         case as_failure err of
           None \<Rightarrow> r
         | Some f \<Rightarrow> if rf_RetryAfter f \<noteq> []
             then r\<lparr>resp_headers := (''Retry-After'', rf_RetryAfter f) # resp_headers r\<rparr> else r))"

section \<open>Retrying\<close>

definition maxRetryAdvice :: int where
  "maxRetryAdvice = 30 * second_ns"

definition failureCode :: "go_error \<Rightarrow> string" where
  "failureCode err = (case as_failure err of Some f \<Rightarrow> rf_Code f | None \<Rightarrow> [])"

definition transient :: "int \<Rightarrow> string \<Rightarrow> string \<Rightarrow> bool" where
  "transient status code advice =
     (if status = 429 then code = ''rate_limit_exceeded'' \<or> (code = [] \<and> advice \<noteq> [])
      else if code = ''server_is_overloaded'' \<or> code = ''policy_capacity_unavailable'' then advice \<noteq> []
      else 500 \<le> status \<and> status \<noteq> 504)"

definition backoff :: "int \<Rightarrow> int \<Rightarrow> int" where
  "backoff base attempt = min (wrap64 (base * 2 ^ nat (min attempt 8))) maxRetryAdvice"

text \<open>The jittered wait; \<open>r\<close> is the random number in \<open>[0, 1)\<close>.  The product is taken exactly:
  at these sizes rounding to float64 moves it by less than a nanosecond.\<close>

definition jittered :: "rat \<Rightarrow> int \<Rightarrow> int" where
  "jittered r delay = trunc_rat (of_int delay * (9 / 10 + r * (2 / 10)))"

text \<open>\<open>retryDelay\<close>: \<open>None\<close> is the false flag.  \<open>base\<close> is \<open>cfg.retryBaseDelay\<close>.\<close>

definition retryDelay ::
  "(string \<Rightarrow> int option) \<Rightarrow> int \<Rightarrow> int \<Rightarrow> int \<Rightarrow> rat \<Rightarrow> go_error option \<Rightarrow> int \<Rightarrow> int option" where
  "retryDelay http_date now maxRetries base r err attempt =
     (case Option.bind err as_backend of
        None \<Rightarrow> None
      | Some (status, m) \<Rightarrow>
          if maxRetries \<le> attempt then None
          else (let f = Option.bind err as_failure;
                    code = (case f of None \<Rightarrow> [] | Some x \<Rightarrow> rf_Code x);
                    advice = (case f of None \<Rightarrow> [] | Some x \<Rightarrow> rf_RetryAfter x)
                in if \<not> transient status code advice then None
                   else if advice \<noteq> [] then
                     (let delay = fst (parseRetryAfter http_date now advice)
                      in if delay \<le> maxRetryAdvice then Some delay else None)
                   else Some (jittered r (backoff base attempt))))"

section \<open>Laws\<close>

lemma redactSensitive_no_control: "c \<in> set (redactSensitive s) \<Longrightarrow> \<not> is_control c"
  by (auto simp: redactSensitive_def is_control_def split: if_splits)

definition clean :: "string \<Rightarrow> bool" where
  "clean s \<longleftrightarrow> (\<forall>c \<in> set s. \<not> is_control c)"

lemma clean_redact [simp]: "clean (redactSensitive s)"
  by (simp add: clean_def redactSensitive_no_control)

lemma clean_fallback: "failureFallbackMessages c = Some m \<Longrightarrow> clean m"
  by (auto simp: failureFallbackMessages_def clean_def is_control_def less_char_def split: if_splits)

lemma clean_failure_code: "clean (failure_code detail)"
  by (simp add: failure_code_def Let_def)

lemma clean_failure_message: "clean (failure_message detail)"
proof -
  have "clean ''Codex backend response failed.''"
    by (simp add: clean_def is_control_def less_char_def)
  then show ?thesis
    by (auto simp: failure_message_def Let_def intro: clean_fallback split: option.split)
qed

lemma clean_failure_type: "clean t \<Longrightarrow> clean (failure_type t s)"
  by (simp add: failure_type_def clean_def is_control_def less_char_def)

lemma responseFailureStatus_range: "400 \<le> responseFailureStatus c \<and> responseFailureStatus c < 600"
  by (simp add: responseFailureStatus_def)

lemma failure_status_range: "400 \<le> failure_status d \<and> failure_status d < 600"
  using responseFailureStatus_range by (auto simp: failure_status_def Let_def)

lemma newResponseFailure_is: "\<exists>f. newResponseFailure h now d = ResponseFailure f"
  by (simp add: newResponseFailure_def Let_def)

lemma redact_scan_Nil [simp]: "redact_scan n m prev s = [] \<longleftrightarrow> s = []"
  by (cases s; cases n) (auto split: option.split)

lemma replace_secrets_Nil [simp]: "replace_secrets m s = [] \<longleftrightarrow> s = []"
  by (simp add: replace_secrets_def)

lemma redactSensitive_Nil [simp]: "redactSensitive s = [] \<longleftrightarrow> s = []"
  by (simp add: redactSensitive_def)

lemma failure_message_nonempty: "failure_message d \<noteq> []"
  by (auto simp: failure_message_def failureFallbackMessages_def Let_def split: option.split if_splits)

lemma failure_type_nonempty: "failure_type t s \<noteq> []"
  by (simp add: failure_type_def)

text \<open>C32: Every failure Codex reports reaches the client with an HTTP error status, and with a
  message, a type and a code free of control characters, whatever the upstream sent; message and
  type are never empty.\<close>

theorem reported_failure_is_safe:
  "newResponseFailure h now detail = ResponseFailure f \<Longrightarrow>
     400 \<le> rf_Status f \<and> rf_Status f < 600 \<and> rf_Message f \<noteq> [] \<and> rf_Type f \<noteq> []
     \<and> clean (rf_Message f) \<and> clean (rf_Type f) \<and> clean (rf_Code f)"
  using failure_status_range [of detail]
  by (auto simp: newResponseFailure_def Let_def failure_message_nonempty failure_type_nonempty
      clean_failure_message clean_failure_code clean_failure_type)

theorem reported_failure_is_safe_witness:
  "\<exists>f. newResponseFailure (\<lambda>_. None) 0 (Some [(''type'', JStr ''usage_limit_reached'')]) = ResponseFailure f
     \<and> rf_Status f < 600 \<and> rf_Message f \<noteq> [] \<and> clean (rf_Code f)"
  using reported_failure_is_safe newResponseFailure_is by blast

text \<open>Waits: a valid \<open>Retry-After\<close> never gives a negative wait.\<close>

lemma trunc_rat_nonneg: "0 \<le> x \<Longrightarrow> 0 \<le> trunc_rat x"
  by (simp add: trunc_rat_def)

lemma retryAfterAdvice_valid:
  "retryAfterAdvice h now d = [] \<or> snd (parseRetryAfter h now (retryAfterAdvice h now d))"
  by (auto simp: retryAfterAdvice_def find_Some_iff split: option.split)

lemma retryDelay_SomeD:
  assumes "retryDelay h now maxRetries base r err attempt = Some d"
  obtains e s m where "err = Some e" "as_backend e = Some (s, m)" "attempt < maxRetries"
    "transient s (failureCode e) (case as_failure e of None \<Rightarrow> [] | Some x \<Rightarrow> rf_RetryAfter x)"
    "d \<le> maxRetryAdvice \<or> d = jittered r (backoff base attempt)"
proof (cases err)
  case None
  then show ?thesis using assms by (simp add: retryDelay_def)
next
  case (Some e)
  then obtain s m where b: "as_backend e = Some (s, m)"
    using assms by (auto simp: retryDelay_def split: option.splits)
  show ?thesis
    using assms Some b
    by (intro that [of e s m]) (auto simp: retryDelay_def Let_def failureCode_def backoff_def split: if_splits option.splits)
qed

lemma backoff_bounds:
  assumes "0 \<le> attempt"
  shows "0 \<le> backoff (200 * 10 ^ 6) attempt \<and> backoff (200 * 10 ^ 6) attempt \<le> maxRetryAdvice"
proof -
  define p where "p = (2::int) ^ nat (min attempt 8)"
  have "p \<le> 2 ^ 8"
    unfolding p_def by (rule power_increasing) (use assms in auto)
  moreover have "0 \<le> p"
    by (simp add: p_def)
  ultimately have "wrap64 (200 * 10 ^ 6 * p) = 200 * 10 ^ 6 * p"
    by (intro wrap64_id) (simp add: in_int64_def max_int64_def min_int64_def)
  with \<open>0 \<le> p\<close> show ?thesis
    by (simp add: backoff_def maxRetryAdvice_def second_ns_def p_def)
qed

lemma jittered_less:
  assumes "0 \<le> delay" "delay \<le> maxRetryAdvice" "0 \<le> r" "r < 1"
  shows "jittered r delay < 33 * second_ns"
proof (cases "delay = 0")
  case True
  then show ?thesis by (simp add: jittered_def trunc_rat_def second_ns_def)
next
  case False
  then have pos: "0 < (of_int delay :: rat)" using assms(1) by simp
  have "of_int delay * (9 / 10 + r * (2 / 10)) < of_int delay * (11 / 10)"
    using pos assms(4) by (intro mult_strict_left_mono) auto
  also have "\<dots> \<le> of_int maxRetryAdvice * (11 / 10 :: rat)"
    using assms(2) by (intro mult_right_mono) auto
  also have "\<dots> = of_int (33 * second_ns)"
    by (simp add: maxRetryAdvice_def)
  finally have "of_int delay * (9 / 10 + r * (2 / 10)) < (of_int (33 * second_ns) :: rat)" .
  moreover have "0 \<le> of_int delay * (9 / 10 + r * (2 / 10))"
    using assms by simp
  ultimately show ?thesis
    by (simp add: jittered_def trunc_rat_def floor_less_iff)
qed

text \<open>C33: The client is retried only after a failure the backend reported, while attempts are left,
  and with a status that can pass: 429, or a server error other than a gateway timeout, or an
  overload.  With the configured base (200 ms) the wait stays below 33 seconds: the 30 second cap
  plus jitter.\<close>

theorem retry_is_bounded_and_transient:
  assumes "retryDelay h now maxRetries (200 * 10 ^ 6) r err attempt = Some d"
    and "0 \<le> r" "r < 1" "0 \<le> attempt"
  shows "attempt < maxRetries \<and> d < 33 * second_ns
    \<and> (\<exists>e s m. err = Some e \<and> as_backend e = Some (s, m)
         \<and> (s = 429 \<or> (500 \<le> s \<and> s \<noteq> 504)
            \<or> failureCode e \<in> {''server_is_overloaded'', ''policy_capacity_unavailable''}))"
proof -
  obtain e s m where e: "err = Some e" "as_backend e = Some (s, m)" "attempt < maxRetries"
    and t: "transient s (failureCode e) (case as_failure e of None \<Rightarrow> [] | Some x \<Rightarrow> rf_RetryAfter x)"
    and d: "d \<le> maxRetryAdvice \<or> d = jittered r (backoff (200 * 10 ^ 6) attempt)"
    by (rule retryDelay_SomeD [OF assms(1)])
  have "d < 33 * second_ns"
    using d jittered_less [of "backoff (200 * 10 ^ 6) attempt" r] backoff_bounds [OF assms(4)] assms(2,3)
    by (auto simp: maxRetryAdvice_def second_ns_def)
  then show ?thesis
    using e t by (auto simp: transient_def split: if_splits)
qed

theorem retry_is_bounded_and_transient_witness:
  "retryDelay (\<lambda>_. None) 0 5 (200 * 10 ^ 6) 0 (Some (BackendError 502 ''x'')) 2 = Some 720000000
     \<and> (720000000 :: int) < 33 * second_ns"
proof -
  have w: "wrap64 (200 * 10 ^ 6 * 2 ^ nat (min 2 8)) = 800000000"
    by (simp add: wrap64_def)
  have d: "retryDelay (\<lambda>_. None) 0 5 (200 * 10 ^ 6) 0 (Some (BackendError 502 ''x'')) 2 = Some 720000000"
    using w by (simp add: retryDelay_def backoff_def as_backend_def as_failure_def transient_def maxRetryAdvice_def
        second_ns_def jittered_def trunc_rat_def)
  show ?thesis
    using retry_is_bounded_and_transient [OF d] d by simp
qed

section \<open>Bearer tokens\<close>

lemma match_bearer_shrinks: "match_bearer prev s = Some (k, r) \<Longrightarrow> length r < length s"
proof -
  assume m: "match_bearer prev s = Some (k, r)"
  then obtain w t where t: "ci_prefix ''bearer'' s = Some (w, t)" "bearer_tail w t = Some (k, r)"
    by (auto simp: match_bearer_def split: if_splits option.splits)
  from t(1) have "length t < length s"
    by (auto simp: ci_prefix_def has_prefix_take to_lower_def split: if_splits dest!: arg_cong [where f = length])
  moreover from t(2) have "length r \<le> length t"
    by (auto simp: bearer_tail_def span_def Let_def split: if_splits
        intro: order_trans [OF length_dropWhile_le length_dropWhile_le])
  ultimately show ?thesis by simp
qed

lemma redact_scan_fuel:
  assumes "\<And>prev s k r. m prev s = Some (k, r) \<Longrightarrow> length r < length s"
  shows "length s \<le> n \<Longrightarrow> redact_scan n m prev s = redact_scan (length s) m prev s"
proof (induction "length s" arbitrary: s n prev rule: less_induct)
  case less
  show ?case
  proof (cases s)
    case (Cons c cs)
    then obtain n' where n: "n = Suc n'" using less.prems by (cases n) auto
    have rest: "redact_scan n' m p r = redact_scan (length cs) m p r" if "length r \<le> length cs" for p r
      using less.hyps [of r n' p] less.hyps [of r "length cs" p] that less.prems Cons n by simp
    show ?thesis
      using rest assms [of prev s] unfolding Cons n
      by (force split: option.split)
  qed (cases n; simp)
qed

lemma match_bearer_token:
  assumes "tok \<noteq> []" "list_all secret_char tok" "rest = [] \<or> \<not> secret_char (hd rest)"
  shows "match_bearer False (''Bearer '' @ tok @ rest) = Some (''Bearer '', rest)"
proof -
  have sp: "\<not> re_space (hd tok)"
    using assms(1,2) by (cases tok) (auto simp: secret_char_def)
  have tw: "takeWhile re_space (tok @ rest) = []" "dropWhile re_space (tok @ rest) = tok @ rest"
    using sp assms(1) by (cases tok; simp)+
  have td: "takeWhile secret_char (tok @ rest) = tok" "dropWhile secret_char (tok @ rest) = rest"
    using assms(2,3) by (cases rest; auto simp: list_all_iff takeWhile_append2 dropWhile_append2)+
  have "ci_prefix ''bearer'' (''Bearer '' @ tok @ rest) = Some (''Bearer'', '' '' @ tok @ rest)"
    by (simp add: ci_prefix_def to_lower_def lower_char_def less_eq_char_def)
  moreover have "bearer_tail ''Bearer'' ('' '' @ tok @ rest) = Some (''Bearer '', rest)"
    using assms(1) by (simp add: bearer_tail_def span_def re_space_def tw td)
  ultimately show ?thesis
    by (simp add: match_bearer_def)
qed

lemma match_bearer_start: "lower_char c \<noteq> CHR ''b'' \<Longrightarrow> match_bearer prev (c # cs) = None"
  by (simp add: match_bearer_def ci_prefix_def to_lower_def)

lemma separator_start: "\<not> secret_char c \<Longrightarrow> lower_char c \<noteq> CHR ''b''"
  by (auto simp: secret_char_def re_space_def lower_char_def less_eq_char_def)

lemma redact_separator:
  assumes "rest = [] \<or> \<not> secret_char (hd rest)"
  shows "redact_scan n match_bearer p rest = redact_scan n match_bearer False rest"
proof (cases rest)
  case (Cons c cs)
  then show ?thesis
    using assms by (cases n) (auto simp: match_bearer_start separator_start)
qed (cases n; simp)

lemma redact_plain_prefix:
  "list_all (\<lambda>c. lower_char c \<noteq> CHR ''b'') xs \<Longrightarrow> xs \<noteq> [] \<Longrightarrow>
     redact_scan (length xs + n) match_bearer p (xs @ s)
     = xs @ redact_scan n match_bearer (re_word (last xs)) s"
  by (induction xs arbitrary: p) (auto simp: match_bearer_start)

lemma redact_bearer_header:
  assumes "tok \<noteq> []" "list_all secret_char tok" "rest = [] \<or> \<not> secret_char (hd rest)"
  shows "replace_secrets match_bearer (''Authorization: Bearer '' @ tok @ rest)
     = ''Authorization: Bearer [REDACTED]'' @ redact_scan (length rest) match_bearer False rest"
proof -
  let ?A = "''Authorization: ''" and ?s = "''Bearer '' @ tok @ rest"
  define K where "K = 6 + length tok + length rest"
  have len: "length (''Authorization: Bearer '' @ tok @ rest) = length ?A + Suc K"
    by (simp add: K_def)
  have "list_all (\<lambda>c. lower_char c \<noteq> CHR ''b'') ?A"
    by (simp add: lower_char_def less_eq_char_def)
  then have 1: "redact_scan (length ?A + k) match_bearer False (?A @ ?s) = ?A @ redact_scan k match_bearer False ?s" for k
    using redact_plain_prefix [of ?A k False ?s] by (simp add: re_word_def del: append_Cons)
  have 2: "redact_scan K match_bearer q rest = redact_scan (length rest) match_bearer False rest" for q
    using redact_scan_fuel [of match_bearer rest K q] match_bearer_shrinks K_def
      redact_separator [OF assms(3), of "length rest" q] by auto
  have 3: "redact_scan (Suc K) match_bearer False ?s
      = ''Bearer [REDACTED]'' @ redact_scan (length rest) match_bearer False rest"
    using match_bearer_token [OF assms] 2 by simp
  show ?thesis
    unfolding replace_secrets_def len using 1 3 by simp
qed

text \<open>Redaction hides a bearer token: what comes out of a text
  \<open>Authorization: Bearer <token><rest>\<close> does not depend on the token, for all nonempty tokens of
  bytes a token can have and any rest the token ends at.\<close>

theorem redaction_hides_bearer_token:
  assumes "tok \<noteq> []" "list_all secret_char tok" "tok' \<noteq> []" "list_all secret_char tok'"
    and "rest = [] \<or> \<not> secret_char (hd rest)"
  shows "redactSensitive (''Authorization: Bearer '' @ tok @ rest)
     = redactSensitive (''Authorization: Bearer '' @ tok' @ rest)"
  using redact_bearer_header [OF assms(1,2,5)] redact_bearer_header [OF assms(3,4,5)]
  by (simp add: redactSensitive_def del: append_Cons)

theorem redaction_hides_bearer_token_witness:
  "redactSensitive (''Authorization: Bearer '' @ ''s3cret'' @ '' for me'')
     = redactSensitive (''Authorization: Bearer '' @ ''other-1'' @ '' for me'')"
  by (rule redaction_hides_bearer_token) (simp_all add: secret_char_def re_space_def)

end
