(* ===== verification/Stream.thy ===== *)
theory Stream
  imports Failure "HOL-Library.Sublist"
begin

text \<open>
  The Codex event stream (\<open>backend.go\<close>): the payload sent upstream, the framing of server-sent
  events (\<open>readSSELine\<close> and the loop of \<open>streamOnce\<close>), the retries of \<open>streamWithRetries\<close> and the
  caller that collects a whole response (\<open>collect\<close>).

  A consumer \<open>fn\<close> is a function on a state of its own that may return an error.  What the network
  does in one attempt is an \<open>attempt_env\<close>: the outcome of sending the request, the bytes of the
  body and how they end, whether the idle timer has fired, the clock and the state of the context.
  \<open>decode\<close> stands for \<open>json.Unmarshal\<close> into a \<open>map[string]any\<close>: \<open>None\<close> for an error, \<open>Some None\<close> for
  the text \<open>null\<close>.
\<close>

section \<open>The payload\<close>

definition drop_breakpoint :: "json \<Rightarrow> json" where
  "drop_breakpoint part = (case part of JObj p \<Rightarrow> JObj (odel ''prompt_cache_breakpoint'' p) | _ \<Rightarrow> part)"

definition drop_item_breakpoints :: "json \<Rightarrow> json" where
  "drop_item_breakpoints item = (case item of
       JObj m \<Rightarrow> (case oget m ''content'' of
           JArr parts \<Rightarrow> JObj (oset ''content'' (JArr (map drop_breakpoint parts)) m)
         | _ \<Rightarrow> item)
     | _ \<Rightarrow> item)"

definition drop_breakpoints :: "obj \<Rightarrow> obj" where
  "drop_breakpoints payload = (case oget payload ''input'' of
       JArr items \<Rightarrow> oset ''input'' (JArr (map drop_item_breakpoints items)) payload
     | _ \<Rightarrow> payload)"

definition encrypted_include :: string where
  "encrypted_include = ''reasoning.encrypted_content''"

definition payload_include :: "json list \<Rightarrow> json list" where
  "payload_include include =
     (if JStr encrypted_include \<in> set include then include else include @ [JStr encrypted_include])"

definition normalizeCodexPayload :: "obj \<Rightarrow> string list \<Rightarrow> obj" where
  "normalizeCodexPayload prepared dropParams = (let
     prepared = fold odel dropParams prepared;
     prepared = drop_breakpoints (odel ''max_output_tokens'' prepared);
     prepared = oset ''store'' (JBool False) (oset ''stream'' (JBool True) prepared);
     prepared = setDefault prepared ''tool_choice'' (JStr ''auto'');
     prepared = setDefault prepared ''parallel_tool_calls'' (JBool True);
     text = (case mapAny (oget prepared ''text'') of Some t \<Rightarrow> t | None \<Rightarrow> []);
     text = setDefault text ''verbosity'' (JStr ''low'');
     prepared = oset ''text'' (JObj text) prepared
     in oset ''include'' (JArr (payload_include (sliceAny (oget prepared ''include'')))) prepared)"

definition prepareCodexPayload :: "obj \<Rightarrow> string list \<Rightarrow> obj" where
  "prepareCodexPayload payload dropParams = normalizeCodexPayload (clone_obj payload) dropParams"

text \<open>The replayed reasoning the serving account cannot read is dropped.\<close>

definition replayed_reasoning :: "json \<Rightarrow> bool" where
  "replayed_reasoning raw = (case mapAny raw of
       None \<Rightarrow> False
     | Some item \<Rightarrow> oget item ''type'' = JStr ''reasoning'' \<and> stringValue (oget item ''encrypted_content'') \<noteq> [])"

definition withoutEncryptedReasoning :: "obj \<Rightarrow> obj" where
  "withoutEncryptedReasoning payload = (let result = clone_obj payload in
     case oget result ''input'' of
       JArr items \<Rightarrow> oset ''input'' (JArr (filter (\<lambda>raw. \<not> replayed_reasoning raw) items)) result
     | _ \<Rightarrow> result)"

definition encryptedContentRejected :: "string \<Rightarrow> bool" where
  "encryptedContentRejected body = (let text = to_lower body in
     str_contains ''encrypted_content'' text \<or> str_contains ''encrypted content'' text)"

section \<open>Events\<close>

definition validResponseStatus :: "string \<Rightarrow> bool" where
  "validResponseStatus status =
     (status \<in> {''completed'', ''failed'', ''in_progress'', ''cancelled'', ''queued'', ''incomplete''})"

definition normalizeBackendEvent :: "gomap \<Rightarrow> gomap" where
  "normalizeBackendEvent event = (case event of
       None \<Rightarrow> None
     | Some e \<Rightarrow> (let e = (if oget e ''type'' = JStr ''response.done''
                         then oset ''type'' (JStr ''response.completed'') e else e)
         in case mapAny (oget e ''response'') of
              None \<Rightarrow> Some e
            | Some r \<Rightarrow> (let status = stringValue (oget r ''status'') in
                if status \<noteq> [] \<and> \<not> validResponseStatus status
                then Some (oset ''response'' (JObj (odel ''status'' r)) e) else Some e)))"

definition event_type :: "gomap \<Rightarrow> json" where
  "event_type event = mget event ''type''"

definition isLifecycleEvent :: "string \<Rightarrow> bool" where
  "isLifecycleEvent eventType =
     (eventType \<in> {''response.created'', ''response.queued'', ''response.in_progress'',
        ''response.metadata'', ''codex.response.metadata''})"

text \<open>How an event changes what the stream knows: \<open>terminal\<close> and \<open>finished\<close>.\<close>

definition event_terminal :: "gomap \<Rightarrow> bool \<times> bool" where
  "event_terminal event = (let t = event_type event in
     if t = JStr ''error'' then (True, False)
     else if t = JStr ''response.failed'' then (True, True)
     else if t = JStr ''response.completed'' \<or> t = JStr ''response.incomplete''
       then (mapAny (mget event ''response'') \<noteq> None, mapAny (mget event ''response'') \<noteq> None)
     else (False, False))"

text \<open>What the stream tells the account pool about an event.\<close>

datatype pool_note = RememberOutput gomap | RateLimits gomap

definition event_note :: "gomap \<Rightarrow> pool_note list" where
  "event_note event = (let t = event_type event in
     if t = JStr ''response.output_item.done'' then [RememberOutput (mapAny (mget event ''item''))]
     else if t = JStr ''codex.rate_limits'' then [RateLimits event]
     else [])"

section \<open>Framing\<close>

definition maxSSEEventBytes :: nat where
  "maxSSEEventBytes = 134217728"

text \<open>The rest of a body, and whether an end of file or a read error follows it.\<close>

record sse_reader =
  rd_bytes :: string
  rd_broken :: bool

datatype sse_read =
    SseLine string bool   \<comment> \<open>a line, and whether the end of file came with it\<close>
  | SseTooLong            \<comment> \<open>\<open>errSSELimit\<close>\<close>
  | SseBroken             \<comment> \<open>any other error of the reader\<close>

definition newline :: char where "newline = CHR 0x0A"

definition trim_cr :: "string \<Rightarrow> string" where
  "trim_cr line = trim_suffix [CHR 0x0D] line"

definition readSSELine :: "sse_reader \<Rightarrow> nat \<Rightarrow> sse_read \<times> sse_reader" where
  "readSSELine reader limit = (let (line, rest) = span (\<lambda>c. c \<noteq> newline) (rd_bytes reader) in
     if rest \<noteq> [] then
       (if length line + 1 > limit then SseTooLong else SseLine (trim_cr line) False,
        reader\<lparr>rd_bytes := tl rest\<rparr>)
     else
       (if length line > limit then SseTooLong
        else if rd_broken reader then SseBroken
        else SseLine (trim_cr line) True, reader\<lparr>rd_bytes := []\<rparr>))"

lemma readSSELine_shrinks:
  assumes "readSSELine reader limit = (SseLine line False, reader')"
  shows "length (rd_bytes reader') < length (rd_bytes reader)"
proof -
  let ?r = "dropWhile (\<lambda>c. c \<noteq> newline) (rd_bytes reader)"
  have r: "?r \<noteq> []" "rd_bytes reader' = tl ?r"
    using assms unfolding readSSELine_def span_def Let_def prod.case by (auto split: if_splits)
  have "length (tl ?r) < length ?r"
    using r(1) by (cases ?r) auto
  also have "\<dots> \<le> length (rd_bytes reader)"
    by (rule length_dropWhile_le)
  finally show ?thesis
    using r by simp
qed

text \<open>The answer to a request that was sent, the account that gave it, and what one attempt meets
  on its way.\<close>

record upstream =
  up_account :: string
  up_status :: int
  up_status_line :: string
  up_retry_after :: string
  up_error_doc :: gomap         \<comment> \<open>an error body, decoded\<close>
  up_body :: sse_reader

record attempt_env =
  ae_sent :: "go_error + upstream"  \<comment> \<open>the outcome of \<open>doAuthenticatedWith\<close>\<close>
  ae_idle :: bool                   \<comment> \<open>the context was cancelled by \<open>errStreamIdle\<close>\<close>
  ae_now :: int                     \<comment> \<open>the clock while events arrive\<close>
  ae_now_end :: int                 \<comment> \<open>the clock when the attempt has ended\<close>
  ae_jitter :: rat                  \<comment> \<open>\<open>rand.Float64()\<close>\<close>
  ae_cancelled :: bool              \<comment> \<open>\<open>ctx.Err() \<noteq> nil\<close> when the attempt has ended\<close>
  ae_cancelled_wait :: bool         \<comment> \<open>the context ends during the wait\<close>

type_synonym 's consumer = "'s \<Rightarrow> gomap \<Rightarrow> 's \<times> go_error option"

text \<open>The variables of \<open>streamOnce\<close>; \<open>ss_user\<close> is the state of the consumer, \<open>ss_notes\<close> the calls
  made on the pool, in order.\<close>

record 's sse_state =
  ss_data :: string
  ss_terminal :: bool
  ss_finished :: bool
  ss_notes :: "pool_note list"
  ss_user :: 's

definition sse_start :: "'s \<Rightarrow> 's sse_state" where
  "sse_start s = \<lparr>ss_data = [], ss_terminal = False, ss_finished = False, ss_notes = [], ss_user = s\<rparr>"

text \<open>The event a block of data lines holds, if it holds one.\<close>

definition block_event :: "(string \<Rightarrow> gomap option) \<Rightarrow> string \<Rightarrow> gomap option" where
  "block_event decode raw =
     (if raw = [] \<or> raw = ''[DONE]'' then None else map_option normalizeBackendEvent (decode raw))"

definition flush :: "(string \<Rightarrow> gomap option) \<Rightarrow> 's consumer \<Rightarrow> 's sse_state \<Rightarrow> 's sse_state \<times> go_error option" where
  "flush decode fn st = (let raw = ss_data st; st = st\<lparr>ss_data := []\<rparr> in
     case block_event decode raw of
       None \<Rightarrow> (st, None)
     | Some event \<Rightarrow> (let (trm, fin) = event_terminal event; (s, err) = fn (ss_user st) event in
         (st\<lparr>ss_terminal := ss_terminal st \<or> trm, ss_finished := ss_finished st \<or> fin,
             ss_notes := ss_notes st @ event_note event, ss_user := s\<rparr>, err)))"

definition stream_error :: "int \<Rightarrow> string \<Rightarrow> go_error" where
  "stream_error status message = BackendError status message"

definition idleError :: "bool \<Rightarrow> go_error option" where
  "idleError idle = (if idle then Some (BackendError 504 ''Codex backend stream timed out.'') else None)"

text \<open>A read error other than the end of the file.\<close>

definition read_failed :: "bool \<Rightarrow> bool \<Rightarrow> go_error \<Rightarrow> go_error option" where
  "read_failed idle terminal err = (if terminal then None else
     case idleError idle of Some e \<Rightarrow> Some e | None \<Rightarrow> Some err)"

text \<open>After the loop.\<close>

definition stream_end :: "(string \<Rightarrow> gomap option) \<Rightarrow> 's consumer \<Rightarrow> 's sse_state \<Rightarrow> 's sse_state \<times> go_error option" where
  "stream_end decode fn st = (let (st, err) = flush decode fn st in
     if err \<noteq> None then (st, err)
     else (st, if ss_terminal st then None
               else Some (BackendError 502 ''Codex stream closed before the response completed.'')))"

text \<open>A \<open>data:\<close> line; \<open>None\<close> when the event grows too large.\<close>

definition data_line :: "string \<Rightarrow> string \<Rightarrow> string option" where
  "data_line data line =
     (if has_prefix ''data:'' line then
        (let part = trim_space (trim_prefix ''data:'' line) in
         if length data + length part + 1 > maxSSEEventBytes then None
         else Some ((if data \<noteq> [] then data @ [newline] else data) @ part))
      else Some data)"

function (sequential) sse_loop ::
  "(string \<Rightarrow> gomap option) \<Rightarrow> bool \<Rightarrow> 's consumer \<Rightarrow> sse_reader \<Rightarrow> 's sse_state \<Rightarrow> 's sse_state \<times> go_error option" where
  "sse_loop decode idle fn reader st =
     (case readSSELine reader maxSSEEventBytes of
        (SseTooLong, reader) \<Rightarrow> (st, read_failed idle (ss_terminal st) SSELimit)
      | (SseBroken, reader) \<Rightarrow>
          (st, read_failed idle (ss_terminal st) (BackendError 502 ''Codex backend stream failed.''))
      | (SseLine [] eof, reader) \<Rightarrow>
          (case flush decode fn st of
             (st, Some err) \<Rightarrow> (st, Some err)
           | (st, None) \<Rightarrow>
               if ss_finished st \<or> eof then stream_end decode fn st else sse_loop decode idle fn reader st)
      | (SseLine line eof, reader) \<Rightarrow>
          (case data_line (ss_data st) line of
             None \<Rightarrow> (st, Some SSELimit)
           | Some data \<Rightarrow>
               (let st = st\<lparr>ss_data := data\<rparr> in
                if eof then stream_end decode fn st else sse_loop decode idle fn reader st)))"
  by pat_completeness auto
termination
  by (relation "measure (\<lambda>(decode, idle, fn, reader, st). length (rd_bytes reader))")
    (auto dest: sym [THEN readSSELine_shrinks])

declare sse_loop.simps [simp del]

section \<open>One attempt\<close>

definition streamOnce ::
  "(string \<Rightarrow> int option) \<Rightarrow> (string \<Rightarrow> gomap option) \<Rightarrow> attempt_env \<Rightarrow> 's consumer \<Rightarrow> 's
    \<Rightarrow> 's sse_state \<times> go_error option" where
  "streamOnce http_date decode env fn s = (case ae_sent env of
       Inl err \<Rightarrow> (sse_start s, Some (
         case as_backend err of
           Some b \<Rightarrow> err
         | None \<Rightarrow> (case idleError (ae_idle env) of
               Some e \<Rightarrow> e | None \<Rightarrow> BackendError 502 ''Codex backend request failed.'')))
     | Inr up \<Rightarrow>
         if up_status up div 100 \<noteq> 2
         then (sse_start s, Some (decodeBackendError http_date (ae_now env) (up_error_doc up) (up_status up)
                 (up_status_line up) (up_retry_after up)))
         else sse_loop decode (ae_idle env) fn (up_body up) (sse_start s))"

subsection \<open>What an attempt delivers\<close>

text \<open>The events of an attempt are what a consumer that takes everything sees; the reference for any
  other consumer hands it these events one by one until it refuses one.\<close>

definition recorder :: "gomap list consumer" where
  "recorder evs event = (evs @ [event], None)"

definition attempt_events ::
  "(string \<Rightarrow> int option) \<Rightarrow> (string \<Rightarrow> gomap option) \<Rightarrow> attempt_env \<Rightarrow> gomap list \<times> go_error option" where
  "attempt_events http_date decode env =
     (case streamOnce http_date decode env recorder [] of (st, err) \<Rightarrow> (ss_user st, err))"

fun feed :: "'s consumer \<Rightarrow> 's \<Rightarrow> gomap list \<Rightarrow> 's \<times> go_error option" where
  "feed fn s [] = (s, None)"
| "feed fn s (e # es) = (case fn s e of (s', None) \<Rightarrow> feed fn s' es | (s', Some err) \<Rightarrow> (s', Some err))"

definition feed_then :: "'s consumer \<Rightarrow> 's \<Rightarrow> gomap list \<Rightarrow> go_error option \<Rightarrow> 's \<times> go_error option" where
  "feed_then fn s evs final = (case feed fn s evs of
       (s', None) \<Rightarrow> (s', final) | (s', Some err) \<Rightarrow> (s', Some err))"

lemma feed_append:
  "feed fn s (xs @ ys) = (case feed fn s xs of (s', None) \<Rightarrow> feed fn s' ys | (s', Some err) \<Rightarrow> (s', Some err))"
  by (induction fn s xs rule: feed.induct) (auto split: prod.split option.split)

lemma feed_then_Cons:
  "feed_then fn s (e # evs) final =
     (case fn s e of (s', None) \<Rightarrow> feed_then fn s' evs final | (s', Some err) \<Rightarrow> (s', Some err))"
  by (auto simp: feed_then_def split: prod.split option.split)

lemma feed_then_Nil [simp]: "feed_then fn s [] final = (s, final)"
  by (simp add: feed_then_def)

text \<open>\<open>delivers\<close>: the result of a consumer is the reference on the events a recorder adds.\<close>

definition delivers ::
  "'s consumer \<Rightarrow> 's \<Rightarrow> gomap list \<Rightarrow> 's sse_state \<times> go_error option
    \<Rightarrow> gomap list sse_state \<times> go_error option \<Rightarrow> bool" where
  "delivers fn s us res rec \<longleftrightarrow>
     (\<exists>evs. ss_user (fst rec) = us @ evs \<and> (ss_user (fst res), snd res) = feed_then fn s evs (snd rec))"

definition recording :: "gomap list \<Rightarrow> 's sse_state \<Rightarrow> gomap list sse_state" where
  "recording us st = \<lparr>ss_data = ss_data st, ss_terminal = ss_terminal st, ss_finished = ss_finished st,
     ss_notes = ss_notes st, ss_user = us\<rparr>"

lemma recording_sel [simp]:
  "ss_data (recording us st) = ss_data st" "ss_terminal (recording us st) = ss_terminal st"
  "ss_finished (recording us st) = ss_finished st" "ss_user (recording us st) = us"
  "recording us (st\<lparr>ss_data := d\<rparr>) = (recording us st)\<lparr>ss_data := d\<rparr>"
  by (simp_all add: recording_def)

text \<open>A flush hands over at most one event.\<close>

lemma flush_cases:
  obtains (none) st' where "\<And>fn :: 's consumer. flush decode fn st = (st', None)" "ss_user st' = ss_user st"
      "\<And>us. flush decode recorder (recording us st) = (recording us st', None)"
  | (event) e where "\<And>fn :: 's consumer. ss_user (fst (flush decode fn st)) = fst (fn (ss_user st) e)"
      "\<And>fn :: 's consumer. snd (flush decode fn st) = snd (fn (ss_user st) e)"
      "\<And>fn us. flush decode recorder (recording us st) = (recording (us @ [e]) (fst (flush decode fn st)), None)"
proof (cases "block_event decode (ss_data st)")
  case None
  then show ?thesis
    by (intro none [of "st\<lparr>ss_data := []\<rparr>"]) (simp_all add: flush_def Let_def)
next
  case (Some e)
  then show ?thesis
    by (intro event [of e]) (simp_all add: flush_def Let_def case_prod_unfold recorder_def recording_def)
qed

lemma stream_end_delivers: "delivers fn (ss_user st) us (stream_end decode fn st) (stream_end decode recorder (recording us st))"
proof (cases rule: flush_cases [of decode st])
  case (none st')
  then show ?thesis
    by (auto simp: delivers_def stream_end_def)
next
  case (event e)
  obtain st1 err1 where f: "flush decode fn st = (st1, err1)"
    by (cases "flush decode fn st")
  then have u: "fn (ss_user st) e = (ss_user st1, err1)"
    using event(1,2) [of fn] by (simp add: prod_eq_iff)
  have r: "flush decode recorder (recording us st) = (recording (us @ [e]) st1, None)"
    using event(3) [of us fn] f by simp
  show ?thesis
    unfolding delivers_def
    by (rule exI [of _ "[e]"]) (auto simp: stream_end_def f r u feed_then_Cons split: option.split)
qed

lemma stream_end_extends:
  "\<exists>evs. ss_user (fst (stream_end decode recorder st)) = ss_user st @ evs"
  by (auto simp: stream_end_def flush_def Let_def recorder_def split: option.split prod.split)

lemma recorder_extends:
  "\<exists>evs. ss_user (fst (sse_loop decode idle recorder reader st)) = ss_user st @ evs"
proof (induction decode idle "recorder :: gomap list consumer" reader st rule: sse_loop.induct)
  case (1 decode idle reader st)
  have f: "\<exists>evs. ss_user (fst (flush decode recorder st)) = ss_user st @ evs" for st
    by (auto simp: flush_def Let_def recorder_def split: option.split prod.split)
  obtain rd reader' where rd: "readSSELine reader maxSSEEventBytes = (rd, reader')"
    by (cases "readSSELine reader maxSSEEventBytes")
  show ?case
  proof (cases rd)
    case (SseLine line eof)
    show ?thesis
    proof (cases line)
      case Nil
      obtain st1 err where fl: "flush decode recorder st = (st1, err)"
        by (cases "flush decode recorder st")
      obtain us where us: "ss_user st1 = ss_user st @ us"
        using f [of st] fl by auto
      show ?thesis
      proof (cases "err = None \<and> \<not> (ss_finished st1 \<or> eof)")
        case True
        then show ?thesis
          using 1(1) [OF rd [symmetric] SseLine Nil fl [symmetric]] us
          by (subst sse_loop.simps) (auto simp: rd SseLine Nil fl)
      next
        case False
        then show ?thesis
          using us stream_end_extends [of decode st1]
          by (subst sse_loop.simps) (auto simp: rd SseLine Nil fl split: option.split)
      qed
    next
      case (Cons a list)
      have "\<exists>evs. ss_user (fst (stream_end decode recorder (st\<lparr>ss_data := d\<rparr>))) = ss_user st @ evs" for d
        using stream_end_extends [of decode "st\<lparr>ss_data := d\<rparr>"] by simp
      with Cons show ?thesis
        using 1(2) [OF rd [symmetric] SseLine Cons _ refl]
        by (subst sse_loop.simps) (auto simp: rd SseLine Cons Let_def split: option.split)
    qed
  qed (subst sse_loop.simps; simp add: rd)+
qed

lemma delivers_step:
  assumes "fn s e = (s1, None)" "delivers fn s1 (us @ [e]) res rec"
  shows "delivers fn s us res rec"
proof -
  obtain evs where "ss_user (fst rec) = us @ (e # evs)" "(ss_user (fst res), snd res) = feed_then fn s1 evs (snd rec)"
    using assms(2) by (auto simp: delivers_def)
  then show ?thesis
    using assms(1) unfolding delivers_def by (intro exI [of _ "e # evs"]) (simp add: feed_then_Cons)
qed

lemma delivers_stop:
  assumes "fn s e = (s1, Some x)" "\<exists>evs. ss_user (fst rec) = (us @ [e]) @ evs" "ss_user (fst res) = s1" "snd res = Some x"
  shows "delivers fn s us res rec"
proof -
  obtain evs where "ss_user (fst rec) = us @ (e # evs)"
    using assms(2) by auto
  then show ?thesis
    using assms unfolding delivers_def by (intro exI [of _ "e # evs"]) (simp add: feed_then_Cons)
qed

lemma sse_loop_delivers:
  "delivers fn (ss_user st) us (sse_loop decode idle fn reader st)
     (sse_loop decode idle recorder reader (recording us st))"
proof (induction decode idle fn reader st arbitrary: us rule: sse_loop.induct)
  case (1 decode idle fn reader st)
  obtain rd reader' where rd: "readSSELine reader maxSSEEventBytes = (rd, reader')"
    by (cases "readSSELine reader maxSSEEventBytes")
  show ?case
  proof (cases rd)
    case (SseLine line eof)
    show ?thesis
    proof (cases line)
      case Nil
      note step = rd SseLine Nil
      show ?thesis
      proof (cases rule: flush_cases [of decode st])
        case (none st')
        show ?thesis
        proof (cases "ss_finished st' \<or> eof")
          case True
          then show ?thesis
            using stream_end_delivers [of fn st' us decode] none
            by (subst (1 2) sse_loop.simps) (auto simp: step)
        next
          case False
          then show ?thesis
            using 1(1) [OF rd [symmetric] SseLine Nil none(1) [of fn, symmetric] refl False] none
            by (subst (1 2) sse_loop.simps) (auto simp: step)
        qed
      next
        case (event e)
        obtain st1 err1 where f: "flush decode fn st = (st1, err1)"
          by (cases "flush decode fn st")
        then have u: "fn (ss_user st) e = (ss_user st1, err1)"
          using event(1,2) [of fn] by (simp add: prod_eq_iff)
        have r: "flush decode recorder (recording us st) = (recording (us @ [e]) st1, None)"
          using event(3) [of us fn] f by simp
        let ?rec = "sse_loop decode idle recorder reader (recording us st)"
        have rec: "?rec = (if ss_finished st1 \<or> eof then stream_end decode recorder (recording (us @ [e]) st1)
            else sse_loop decode idle recorder reader' (recording (us @ [e]) st1))"
          by (subst sse_loop.simps) (simp add: step r)
        show ?thesis
        proof (cases err1)
          case None
          have res: "sse_loop decode idle fn reader st = (if ss_finished st1 \<or> eof then stream_end decode fn st1
              else sse_loop decode idle fn reader' st1)"
            by (subst sse_loop.simps) (simp add: step f None)
          show ?thesis
            using delivers_step [of fn "ss_user st" e "ss_user st1", OF u [unfolded None]] stream_end_delivers [of fn st1 "us @ [e]" decode]
              1(1) [OF rd [symmetric] SseLine Nil f [symmetric] None, of "us @ [e]"]
            by (auto simp: rec res)
        next
          case (Some x)
          have "sse_loop decode idle fn reader st = (st1, Some x)"
            by (subst sse_loop.simps) (simp add: step f Some)
          moreover have "\<exists>evs. ss_user (fst ?rec) = (us @ [e]) @ evs"
            using stream_end_extends [of decode "recording (us @ [e]) st1"]
              recorder_extends [of decode idle reader' "recording (us @ [e]) st1"] by (simp add: rec)
          ultimately show ?thesis
            using delivers_stop [of fn "ss_user st" e "ss_user st1", OF u [unfolded Some]] by simp
        qed
      qed
    next
      case (Cons a list)
      note step = rd SseLine Cons
      show ?thesis
      proof (cases "data_line (ss_data st) line")
        case None
        then show ?thesis
          by (subst (1 2) sse_loop.simps) (simp add: step delivers_def)
      next
        case (Some data)
        have "delivers fn (ss_user st) us (sse_loop decode idle fn reader st)
            (sse_loop decode idle recorder reader (recording us st))"
          if "\<not> eof"
          using 1(2) [OF rd [symmetric] SseLine Cons _ refl that, of data us] Some that
          by (subst (1 2) sse_loop.simps) (simp add: step)
        moreover have ?thesis if eof
          using stream_end_delivers [of fn "st\<lparr>ss_data := data\<rparr>" us decode] Some that
          by (subst (1 2) sse_loop.simps) (simp add: step)
        ultimately show ?thesis by blast
      qed
    qed
  qed (subst (1 2) sse_loop.simps; simp add: rd delivers_def)+
qed

lemma streamOnce_delivers:
  "delivers fn s [] (streamOnce http_date decode env fn s) (streamOnce http_date decode env recorder [])"
proof (cases "ae_sent env")
  case (Inr up)
  have "recording [] (sse_start s) = sse_start []"
    by (simp add: recording_def sse_start_def)
  then show ?thesis
    using sse_loop_delivers [of fn "sse_start s" "[]" decode "ae_idle env" "up_body up"]
    by (auto simp: streamOnce_def Inr delivers_def sse_start_def)
qed (simp add: streamOnce_def delivers_def sse_start_def)

lemma streamOnce_feed:
  "streamOnce http_date decode env fn s = (st, err) \<Longrightarrow> attempt_events http_date decode env = (evs, final) \<Longrightarrow>
     (ss_user st, err) = feed_then fn s evs final"
  using streamOnce_delivers [of fn s http_date decode env]
  by (auto simp: attempt_events_def delivers_def split: prod.splits)

text \<open>Framing does not depend on the consumer: one attempt hands the consumer exactly the
  events of the body, in order, until the consumer refuses one, whose error is then the result; a
  consumer that refuses none gets them all and the error the attempt ends with.\<close>

theorem streamOnce_is_feed:
  "(case streamOnce http_date decode env fn s of (st, err) \<Rightarrow> (ss_user st, err))
   = (case attempt_events http_date decode env of (evs, final) \<Rightarrow> feed_then fn s evs final)"
  by (auto split: prod.split dest: streamOnce_feed)

section \<open>Retries\<close>

text \<open>The variables of one round of \<open>streamWithRetries\<close>.\<close>

record 's hold_state =
  hs_committed :: bool
  hs_held :: "gomap list"
  hs_retryable :: "go_error option"
  hs_pending :: "go_error option"
  hs_user :: 's

record retry_cfg =
  cfg_MaxRetries :: int
  cfg_retryBaseDelay :: int

definition hold_start :: "retry_cfg \<Rightarrow> nat \<Rightarrow> 's \<Rightarrow> 's hold_state" where
  "hold_start cfg attempt s = \<lparr>hs_committed = (int attempt \<ge> cfg_MaxRetries cfg), hs_held = [],
     hs_retryable = None, hs_pending = None, hs_user = s\<rparr>"

definition commit :: "'s consumer \<Rightarrow> 's hold_state \<Rightarrow> 's hold_state \<times> go_error option" where
  "commit fn h = (let (s, err) = feed fn (hs_user h) (hs_held h) in
     (h\<lparr>hs_committed := True, hs_user := s\<rparr>, err))"

definition event_obj :: "gomap \<Rightarrow> obj" where
  "event_obj event = (case event of None \<Rightarrow> [] | Some e \<Rightarrow> e)"

definition retry_after ::
  "(string \<Rightarrow> int option) \<Rightarrow> retry_cfg \<Rightarrow> int \<Rightarrow> rat \<Rightarrow> go_error option \<Rightarrow> nat \<Rightarrow> int option" where
  "retry_after http_date cfg now r err attempt =
     retryDelay http_date now (cfg_MaxRetries cfg) (cfg_retryBaseDelay cfg) r err (int attempt)"

definition forward :: "'s consumer \<Rightarrow> 's hold_state \<Rightarrow> gomap \<Rightarrow> 's hold_state \<times> go_error option" where
  "forward fn h event = (let (s, err) = fn (hs_user h) event in (h\<lparr>hs_user := s\<rparr>, err))"

definition hold_event ::
  "(string \<Rightarrow> int option) \<Rightarrow> retry_cfg \<Rightarrow> attempt_env \<Rightarrow> bool \<Rightarrow> nat \<Rightarrow> 's consumer \<Rightarrow> 's hold_state consumer" where
  "hold_event http_date cfg env holdOutput attempt fn h event =
     (if hs_committed h then forward fn h event
      else (let typ = stringValue (event_type event);
                failure = eventFailure http_date (ae_now env) (event_obj event) in
        if typ = ''error'' then (h\<lparr>hs_pending := Some failure, hs_held := hs_held h @ [event]\<rparr>, None)
        else if typ = ''response.failed''
             \<and> retry_after http_date cfg (ae_now env) (ae_jitter env) (Some failure) attempt \<noteq> None
          then (h\<lparr>hs_retryable := Some failure\<rparr>, Some RetryStream)
        else if typ \<notin> {''response.failed'', ''response.completed'', ''response.incomplete''}
             \<and> (holdOutput \<or> isLifecycleEvent typ)
          then (h\<lparr>hs_held := hs_held h @ [event]\<rparr>, None)
        else (case commit fn h of
                (h, Some err) \<Rightarrow> (h, Some err) | (h, None) \<Rightarrow> forward fn h event)))"

definition round_failure :: "'s hold_state \<Rightarrow> go_error option \<Rightarrow> go_error option" where
  "round_failure h err = (if err = Some RetryStream then hs_retryable h
     else if err = None then hs_pending h else err)"

definition account_notes :: "attempt_env \<Rightarrow> pool_note list \<Rightarrow> (string \<times> pool_note) list" where
  "account_notes env notes = (case ae_sent env of Inl e \<Rightarrow> [] | Inr up \<Rightarrow> map (Pair (up_account up)) notes)"

lemma account_notes_Nil [simp]: "account_notes env [] = []"
  by (simp add: account_notes_def split: sum.split)

lemma retry_after_attempt: "retry_after http_date cfg now r err attempt = Some d \<Longrightarrow> int attempt < cfg_MaxRetries cfg"
  by (auto simp: retry_after_def elim: retryDelay_SomeD)

text \<open>The loop over the attempts; \<open>envs k\<close> is what attempt \<open>k\<close> meets.  The result is the consumer's
  state, the notes to the pool, and the error.\<close>

function streamWithRetries ::
  "(string \<Rightarrow> int option) \<Rightarrow> (string \<Rightarrow> gomap option) \<Rightarrow> retry_cfg \<Rightarrow> (nat \<Rightarrow> attempt_env) \<Rightarrow> bool
    \<Rightarrow> 's consumer \<Rightarrow> nat \<Rightarrow> 's \<Rightarrow> 's \<times> (string \<times> pool_note) list \<times> go_error option" where
  "streamWithRetries http_date decode cfg envs holdOutput fn attempt s =
     (let env = envs attempt;
          (st, err) = streamOnce http_date decode env (hold_event http_date cfg env holdOutput attempt fn)
                        (hold_start cfg attempt s);
          h = ss_user st; notes = account_notes env (ss_notes st)
      in if hs_committed h then (hs_user h, notes, err)
         else (let failure = round_failure h err in
           case (if ae_cancelled env then None
                 else retry_after http_date cfg (ae_now_end env) (ae_jitter env) failure attempt) of
             None \<Rightarrow> (case commit fn h of
                 (h, Some commitErr) \<Rightarrow> (hs_user h, notes, Some commitErr)
               | (h, None) \<Rightarrow> (hs_user h, notes, failure))
           | Some delay \<Rightarrow>
               if ae_cancelled_wait env then (hs_user h, notes, Some ContextError)
               else (case streamWithRetries http_date decode cfg envs holdOutput fn (Suc attempt) (hs_user h) of
                       (s, notes', err) \<Rightarrow> (s, notes @ notes', err))))"
  by pat_completeness auto

termination
  by (relation "measure (\<lambda>(h, d, cfg, envs, hold, fn, attempt, s). nat (cfg_MaxRetries cfg - int attempt))")
    (auto dest: retry_after_attempt split: if_splits)

declare streamWithRetries.simps [simp del]

subsection \<open>One round\<close>

lemma forward_committed:
  assumes "hs_committed h" "feed_then (hold_event hp cfg env ho n fn) h evs final = (h', err)"
  shows "hs_committed h' \<and> (hs_user h', err) = feed_then fn (hs_user h) evs final"
  using assms
proof (induction evs arbitrary: h)
  case (Cons e evs)
  obtain s1 x where f: "fn (hs_user h) e = (s1, x)"
    by (cases "fn (hs_user h) e")
  have c: "hold_event hp cfg env ho n fn h e = (h\<lparr>hs_user := s1\<rparr>, x)"
    using Cons.prems(1) f by (simp add: hold_event_def forward_def)
  show ?case
    using Cons.IH [of "h\<lparr>hs_user := s1\<rparr>"] Cons.prems
    by (cases x) (auto simp: feed_then_Cons c f)
qed simp

text \<open>An event that is held, asks for a retry, or commits.\<close>

lemma hold_event_cases:
  assumes "\<not> hs_committed h"
  obtains (hold) h1 where "hold_event hp cfg env ho n fn h e = (h1, None)" "\<not> hs_committed h1"
      "hs_user h1 = hs_user h" "hs_held h1 = hs_held h @ [e]" "hs_retryable h1 = hs_retryable h"
  | (retry) f where "hold_event hp cfg env ho n fn h e = (h\<lparr>hs_retryable := Some f\<rparr>, Some RetryStream)"
  | (commit) "hold_event hp cfg env ho n fn h e =
      (case commit fn h of (h, Some err) \<Rightarrow> (h, Some err) | (h, None) \<Rightarrow> forward fn h e)"
proof -
  let ?H = "hold_event hp cfg env ho n fn h e" and ?t = "stringValue (event_type e)"
  let ?f = "eventFailure hp (ae_now env) (event_obj e)"
  consider "?t = ''error''"
    | "?t \<noteq> ''error''" "?t = ''response.failed'' \<and> retry_after hp cfg (ae_now env) (ae_jitter env) (Some ?f) n \<noteq> None"
    | "?t \<noteq> ''error''" "\<not> (?t = ''response.failed'' \<and> retry_after hp cfg (ae_now env) (ae_jitter env) (Some ?f) n \<noteq> None)"
      "?t \<notin> {''response.failed'', ''response.completed'', ''response.incomplete''} \<and> (ho \<or> isLifecycleEvent ?t)"
    | "?t \<noteq> ''error''" "\<not> (?t = ''response.failed'' \<and> retry_after hp cfg (ae_now env) (ae_jitter env) (Some ?f) n \<noteq> None)"
      "\<not> (?t \<notin> {''response.failed'', ''response.completed'', ''response.incomplete''} \<and> (ho \<or> isLifecycleEvent ?t))"
    by blast
  then show ?thesis
  proof cases
    case 1
    then show ?thesis
      using assms by (intro hold [of "h\<lparr>hs_pending := Some ?f, hs_held := hs_held h @ [e]\<rparr>"])
        (simp_all add: hold_event_def)
  next
    case 2
    then show ?thesis
      using assms by (intro retry [of ?f]) (simp add: hold_event_def)
  next
    case 3
    then show ?thesis
      using assms by (intro hold [of "h\<lparr>hs_held := hs_held h @ [e]\<rparr>"]) (auto simp: hold_event_def Let_def)
  next
    case 4
    then show ?thesis
      using assms by (intro commit) (simp only: hold_event_def Let_def if_False)
  qed
qed

lemma commit_feed:
  assumes "commit fn h = (h1, err1)"
  shows "hs_committed h1 \<and> feed fn (hs_user h) (hs_held h) = (hs_user h1, err1) \<and> hs_retryable h1 = hs_retryable h"
  using assms by (auto simp: commit_def split: prod.splits)

lemma feed_then_append:
  "feed_then fn s (xs @ ys) final = (case feed fn s xs of
     (s', None) \<Rightarrow> feed_then fn s' ys final | (s', Some err) \<Rightarrow> (s', Some err))"
  by (auto simp: feed_then_def feed_append split: prod.split option.split)

lemma hold_feed:
  assumes "\<not> hs_committed h" "feed_then (hold_event hp cfg env ho n fn) h evs final = (h', err)"
  shows "(hs_committed h' \<and> (hs_user h', err) = feed_then fn (hs_user h) (hs_held h @ evs) final)
    \<or> (\<not> hs_committed h' \<and> hs_user h' = hs_user h \<and> err = final \<and> hs_held h' = hs_held h @ evs)
    \<or> (\<not> hs_committed h' \<and> hs_user h' = hs_user h \<and> err = Some RetryStream \<and> hs_retryable h' \<noteq> None
        \<and> (\<exists>pre. prefix pre evs \<and> hs_held h' = hs_held h @ pre))"
  using assms
proof (induction evs arbitrary: h)
  case (Cons e evs)
  let ?H = "hold_event hp cfg env ho n fn"
  from Cons.prems(1) show ?case
  proof (cases rule: hold_event_cases [of h hp cfg env ho n fn e])
    case (hold h1)
    have "feed_then ?H h1 evs final = (h', err)"
      using Cons.prems(2) hold(1) by (simp add: feed_then_Cons)
    then show ?thesis
      using Cons.IH [OF hold(2)] hold(3,4) by (auto simp: prefix_def)
  next
    case (retry f)
    then show ?thesis
      using Cons.prems by (auto simp: feed_then_Cons)
  next
    case commit
    obtain h1 err1 where c: "Stream.commit fn h = (h1, err1)"
      by (cases "Stream.commit fn h")
    note cf = commit_feed [OF c]
    show ?thesis
    proof (cases err1)
      case (Some x)
      then show ?thesis
        using Cons.prems(2) cf by (auto simp: feed_then_Cons commit c feed_then_append)
    next
      case None
      have "?H h e = forward fn h1 e"
        using commit c None by simp
      also have "\<dots> = ?H h1 e"
        using cf by (simp add: hold_event_def)
      finally have "feed_then ?H h1 (e # evs) final = (h', err)"
        using Cons.prems(2) by (simp add: feed_then_Cons)
      then show ?thesis
        using forward_committed [of h1 hp cfg env ho n fn "e # evs" final h' err] cf None
        by (auto simp: feed_then_append)
    qed
  qed
qed (auto simp: prefix_def)

subsection \<open>All rounds\<close>

lemma newResponseFailure_not_retry: "newResponseFailure h now d \<noteq> RetryStream"
  using newResponseFailure_is [of h now d] by auto

lemma stream_end_recorder_error: "snd (stream_end decode recorder st) \<noteq> Some RetryStream"
  by (auto simp: stream_end_def flush_def Let_def recorder_def split: option.split prod.split)

lemma read_failed_not_retry: "e \<noteq> RetryStream \<Longrightarrow> read_failed idle terminal e \<noteq> Some RetryStream"
  by (auto simp: read_failed_def idleError_def)

lemma flush_recorder_error [simp]: "snd (flush decode recorder st) = None"
  by (auto simp: flush_def Let_def recorder_def split: option.split prod.split)

lemma sse_loop_recorder_error: "snd (sse_loop decode idle recorder reader st) \<noteq> Some RetryStream"
proof (induction decode idle "recorder :: gomap list consumer" reader st rule: sse_loop.induct)
  case (1 decode idle reader st)
  obtain rd reader' where rd: "readSSELine reader maxSSEEventBytes = (rd, reader')"
    by (cases "readSSELine reader maxSSEEventBytes")
  show ?case
  proof (cases rd)
    case (SseLine line eof)
    show ?thesis
    proof (cases line)
      case Nil
      obtain st1 where fl: "flush decode recorder st = (st1, None)"
        using flush_recorder_error [of decode st] by (cases "flush decode recorder st") auto
      then show ?thesis
        using 1(1) [OF rd [symmetric] SseLine Nil fl [symmetric] refl] stream_end_recorder_error [of decode st1]
        by (subst sse_loop.simps) (auto simp: rd SseLine Nil)
    next
      case (Cons a list)
      then show ?thesis
        using 1(2) [OF rd [symmetric] SseLine Cons _ refl] stream_end_recorder_error
        by (subst sse_loop.simps) (auto simp: rd SseLine Cons Let_def split: option.split)
    qed
  qed (subst sse_loop.simps; simp add: rd read_failed_not_retry)+
qed

lemma attempt_events_not_retry:
  "attempt_events hp decode env = (evs, final) \<Longrightarrow> final \<noteq> Some RetryStream"
  using sse_loop_recorder_error [of decode "ae_idle env" "up_body (projr (ae_sent env))" "sse_start []"]
  by (auto simp: attempt_events_def streamOnce_def decodeBackendError_def responseFailure_def Let_def
      newResponseFailure_not_retry as_backend_def idleError_def split: sum.splits if_splits option.splits prod.splits)

text \<open>The four ways a round ends, \<open>h\<close> and \<open>err\<close> being what \<open>streamOnce\<close> leaves.\<close>

lemma round_cases:
  assumes ev: "attempt_events hp decode env = (evs, final)"
    and once: "streamOnce hp decode env (hold_event hp cfg env ho n fn) (hold_start cfg n s) = (st, err)"
  shows "(hs_committed (ss_user st) \<and> (hs_user (ss_user st), err) = feed_then fn s evs final)
    \<or> (\<not> hs_committed (ss_user st) \<and> hs_user (ss_user st) = s \<and> err = final \<and> hs_held (ss_user st) = evs)
    \<or> (\<not> hs_committed (ss_user st) \<and> hs_user (ss_user st) = s \<and> err = Some RetryStream
        \<and> hs_retryable (ss_user st) \<noteq> None \<and> prefix (hs_held (ss_user st)) evs)"
proof -
  note f = streamOnce_feed [OF once ev, symmetric]
  show ?thesis
  proof (cases "hs_committed (hold_start cfg n s)")
    case True
    then show ?thesis
      using forward_committed [OF True f] by (simp add: hold_start_def)
  next
    case False
    then show ?thesis
      using hold_feed [OF False f] by (auto simp: hold_start_def)
  qed
qed

lemma feed_then_fst: "(s', err) = feed_then fn s evs final \<Longrightarrow> s' = fst (feed fn s evs)"
  by (auto simp: feed_then_def split: prod.splits option.splits)

lemma feed_then_None: "(s', None) = feed_then fn s evs final \<Longrightarrow> final = None \<and> feed fn s evs = (s', None)"
  by (auto simp: feed_then_def split: prod.splits option.splits)

text \<open>A round either ends the stream or hands the untouched state to the next attempt.\<close>

lemma stream_round:
  assumes ev: "attempt_events hp decode (envs attempt) = (evs, final)"
    and res: "streamWithRetries hp decode cfg envs ho fn attempt s = (s', nts, e)"
  obtains (stop) pre where "prefix pre evs" "s' = fst (feed fn s pre)"
      "e = None \<longrightarrow> final = None \<and> feed fn s evs = (s', None)"
  | (again) nts1 nts2 where "int attempt < cfg_MaxRetries cfg"
      "streamWithRetries hp decode cfg envs ho fn (Suc attempt) s = (s', nts2, e)" "nts = nts1 @ nts2"
proof -
  define env where "env = envs attempt"
  note ev = ev [folded env_def]
  obtain st err where once:
    "streamOnce hp decode env (hold_event hp cfg env ho attempt fn) (hold_start cfg attempt s) = (st, err)"
    by (cases "streamOnce hp decode env (hold_event hp cfg env ho attempt fn) (hold_start cfg attempt s)")
  let ?h = "ss_user st"
  define delay where "delay = (if ae_cancelled env then None
    else retry_after hp cfg (ae_now_end env) (ae_jitter env) (round_failure ?h err) attempt)"
  note unf = streamWithRetries.simps [of hp decode cfg envs ho fn attempt s, folded env_def, unfolded Let_def once prod.case, folded delay_def]
  note rc = round_cases [OF ev once]
  show ?thesis
  proof (cases "hs_committed ?h")
    case True
    then have "(s', e) = feed_then fn s evs final"
      using rc res unf by simp
    then show ?thesis
      by (intro stop [of evs]) (auto dest: feed_then_fst feed_then_None)
  next
    case False
    then have u: "hs_user ?h = s" "prefix (hs_held ?h) evs"
      using rc by auto
    show ?thesis
    proof (cases delay)
      case None
      obtain h1 e1 where c: "commit fn ?h = (h1, e1)"
        by (cases "commit fn ?h")
      have fd: "feed fn s (hs_held ?h) = (hs_user h1, e1)"
        using commit_feed [OF c] u by simp
      have r: "s' = hs_user h1" "e = (if e1 = None then round_failure ?h err else e1)"
        using res unf False None c by (auto split: option.splits)
      show ?thesis
      proof (rule stop)
        show "prefix (hs_held ?h) evs" by (rule u)
        show "s' = fst (feed fn s (hs_held ?h))" using fd r by simp
        show "e = None \<longrightarrow> final = None \<and> feed fn s evs = (s', None)"
          using rc False r fd attempt_events_not_retry [OF ev] by (auto simp: round_failure_def split: if_splits)
      qed
    next
      case (Some d)
      then have max: "int attempt < cfg_MaxRetries cfg"
        by (auto simp: delay_def dest: retry_after_attempt split: if_splits)
      show ?thesis
      proof (cases "ae_cancelled_wait env")
        case True
        then show ?thesis
          using res unf False Some u by (intro stop [of "[]"]) auto
      next
        case False': False
        obtain s1 n1 e1 where r: "streamWithRetries hp decode cfg envs ho fn (Suc attempt) s = (s1, n1, e1)"
          by (cases "streamWithRetries hp decode cfg envs ho fn (Suc attempt) s")
        have "s1 = s' \<and> e1 = e \<and> nts = account_notes env (ss_notes st) @ n1"
          using res unf False False' Some u r by simp
        then show ?thesis
          using again [OF max] r by blast
      qed
    qed
  qed
qed

lemma stream_run:
  "\<exists>k evs. attempt \<le> k \<and> (k = attempt \<or> int k \<le> cfg_MaxRetries cfg)
     \<and> prefix evs (fst (attempt_events hp decode (envs k)))
     \<and> fst (streamWithRetries hp decode cfg envs ho fn attempt s) = fst (feed fn s evs)"
proof (induction "nat (cfg_MaxRetries cfg - int attempt)" arbitrary: attempt rule: less_induct)
  case less
  obtain evs final where ev: "attempt_events hp decode (envs attempt) = (evs, final)"
    by (cases "attempt_events hp decode (envs attempt)")
  obtain s' nts e where res: "streamWithRetries hp decode cfg envs ho fn attempt s = (s', nts, e)"
    by (cases "streamWithRetries hp decode cfg envs ho fn attempt s")
  from ev res show ?case
  proof (cases rule: stream_round)
    case (stop pre)
    then show ?thesis
      using ev res by (intro exI [of _ attempt] exI [of _ pre]) simp
  next
    case (again nts1 nts2)
    with less [of "Suc attempt"] obtain k evs where
      "Suc attempt \<le> k" "k = Suc attempt \<or> int k \<le> cfg_MaxRetries cfg"
      "prefix evs (fst (attempt_events hp decode (envs k)))" "s' = fst (feed fn s evs)"
      by auto
    then show ?thesis
      using again(1) res by (intro exI [of _ k] exI [of _ evs]) auto
  qed
qed

lemma stream_done:
  "streamWithRetries hp decode cfg envs ho fn attempt s = (s', nts, None) \<Longrightarrow>
     \<exists>k evs. attempt \<le> k \<and> attempt_events hp decode (envs k) = (evs, None) \<and> feed fn s evs = (s', None)"
proof (induction "nat (cfg_MaxRetries cfg - int attempt)" arbitrary: attempt nts rule: less_induct)
  case less
  obtain evs final where ev: "attempt_events hp decode (envs attempt) = (evs, final)"
    by (cases "attempt_events hp decode (envs attempt)")
  from ev less.prems show ?case
  proof (cases rule: stream_round)
    case (stop pre)
    then show ?thesis
      using ev by (intro exI [of _ attempt] exI [of _ evs]) simp
  next
    case (again nts1 nts2)
    then obtain k evs where "Suc attempt \<le> k" "attempt_events hp decode (envs k) = (evs, None)"
        "feed fn s evs = (s', None)"
      using less.hyps [OF _ again(2)] by auto
    then show ?thesis
      by (intro exI [of _ k] exI [of _ evs]) simp
  qed
qed

text \<open>C6: A client never sees events of an abandoned attempt: whatever happens, the consumer ends in
  the state that one single attempt gives it, fed from its own start with the first events of that
  attempt, in order; and no attempt after the last allowed retry is made.\<close>

theorem stream_shows_one_attempt:
  "\<exists>k evs. attempt \<le> k \<and> (k = attempt \<or> int k \<le> cfg_MaxRetries cfg)
     \<and> prefix evs (fst (attempt_events hp decode (envs k)))
     \<and> fst (streamWithRetries hp decode cfg envs ho fn attempt s) = fst (feed fn s evs)"
  by (rule stream_run)

text \<open>A stream that ends without an error has given the consumer every event of one attempt
  that itself ended without an error, and the consumer accepted them all.\<close>

theorem stream_success_is_complete:
  "streamWithRetries hp decode cfg envs ho fn attempt s = (s', nts, None) \<Longrightarrow>
     \<exists>k evs. attempt \<le> k \<and> attempt_events hp decode (envs k) = (evs, None) \<and> feed fn s evs = (s', None)"
  by (rule stream_done)

text \<open>A body with one terminal event, for the witnesses.\<close>

definition sample_body :: string where
  "sample_body = ''data: {}'' @ [newline, newline]"

definition sample_decode :: "string \<Rightarrow> gomap option" where
  "sample_decode raw = Some (Some [(''type'', JStr ''response.completed''), (''response'', JObj [])])"

definition sample_env :: attempt_env where
  "sample_env = \<lparr>ae_sent = Inr \<lparr>up_account = ''a'', up_status = 200, up_status_line = ''200 OK'',
       up_retry_after = [], up_error_doc = None, up_body = \<lparr>rd_bytes = sample_body, rd_broken = False\<rparr>\<rparr>,
     ae_idle = False, ae_now = 0, ae_now_end = 0, ae_jitter = 0, ae_cancelled = False, ae_cancelled_wait = False\<rparr>"

definition sample_event :: gomap where
  "sample_event = Some [(''type'', JStr ''response.completed''), (''response'', JObj [])]"

lemma sample_once:
  "streamOnce (\<lambda>_. None) sample_decode sample_env fn s = (case fn s sample_event of (s', err) \<Rightarrow>
     (\<lparr>ss_data = [], ss_terminal = True, ss_finished = True, ss_notes = [], ss_user = s'\<rparr>, err))"
proof -
  have part: "trim_space ('' {}'') = ''{}''"
    by code_simp
  have line1: "readSSELine \<lparr>rd_bytes = sample_body, rd_broken = False\<rparr> maxSSEEventBytes
      = (SseLine ''data: {}'' False, \<lparr>rd_bytes = [newline], rd_broken = False\<rparr>)"
    by (simp add: readSSELine_def sample_body_def span_def newline_def maxSSEEventBytes_def trim_cr_def trim_suffix_def has_suffix_def)
  have line2: "readSSELine \<lparr>rd_bytes = [newline], rd_broken = False\<rparr> maxSSEEventBytes
      = (SseLine [] False, \<lparr>rd_bytes = [], rd_broken = False\<rparr>)"
    by (simp add: readSSELine_def span_def newline_def maxSSEEventBytes_def trim_cr_def trim_suffix_def has_suffix_def)
  have data: "data_line [] ''data: {}'' = Some ''{}''"
    using part by (simp add: data_line_def trim_prefix_def maxSSEEventBytes_def)
  have block: "block_event sample_decode ''{}'' = Some sample_event"
    by (simp add: block_event_def sample_decode_def sample_event_def normalizeBackendEvent_def)
  have tm: "event_terminal sample_event = (True, True)" "event_note sample_event = []"
    by (simp_all add: event_terminal_def event_note_def event_type_def sample_event_def)
  have once: "streamOnce (\<lambda>_. None) sample_decode sample_env fn s
      = sse_loop sample_decode False fn \<lparr>rd_bytes = sample_body, rd_broken = False\<rparr> (sse_start s)"
    by (simp add: streamOnce_def sample_env_def)
  show ?thesis
    unfolding once
    by (subst sse_loop.simps, simp add: line1 data sse_start_def, subst sse_loop.simps)
      (auto simp: line2 flush_def block tm stream_end_def block_event_def [of _ "[]"] split: prod.split option.split)
qed

theorem stream_success_is_complete_witness:
  "\<exists>k evs. (0::nat) \<le> k \<and> attempt_events (\<lambda>_. None) sample_decode sample_env = (evs, None)
     \<and> feed (\<lambda>n e. (Suc n, None)) 0 evs = (1, None)"
proof -
  have "streamWithRetries (\<lambda>_. None) sample_decode \<lparr>cfg_MaxRetries = 0, cfg_retryBaseDelay = 1\<rparr> (\<lambda>k. sample_env)
      False (\<lambda>n e. (Suc n, None)) 0 0 = (1, [], None)"
    by (simp add: streamWithRetries.simps sample_once hold_start_def hold_event_def forward_def)
  from stream_success_is_complete [OF this] show ?thesis by simp
qed

section \<open>Consumers\<close>

text \<open>
  The interface between the stream and what consumes it.  A consumer offers \<open>fn\<close>, its start state
  and an invariant that relates its state to the events it has seen, kept by every event; the
  stream then promises that the invariant holds at the end, for the events of one attempt.
\<close>

locale stream_consumer =
  fixes fn :: "'s consumer" and start :: 's and inv :: "'s \<Rightarrow> gomap list \<Rightarrow> bool"
  assumes inv_start: "inv start []"
    and inv_step: "inv s evs \<Longrightarrow> inv (fst (fn s e)) (evs @ [e])"
begin

lemma feed_inv:
  "inv s seen \<Longrightarrow> \<exists>pre. prefix pre evs \<and> inv (fst (feed fn s evs)) (seen @ pre)
     \<and> (snd (feed fn s evs) = None \<longrightarrow> pre = evs)"
proof (induction evs arbitrary: s seen)
  case (Cons e evs)
  obtain s1 err where f: "fn s e = (s1, err)"
    by (cases "fn s e")
  have i: "inv s1 (seen @ [e])"
    using inv_step [OF Cons.prems, of e] f by simp
  show ?case
  proof (cases err)
    case None
    from Cons.IH [OF i] obtain pre where "prefix pre evs \<and> inv (fst (feed fn s1 evs)) ((seen @ [e]) @ pre)
        \<and> (snd (feed fn s1 evs) = None \<longrightarrow> pre = evs)" ..
    then show ?thesis
      using f None by (intro exI [of _ "e # pre"]) simp
  next
    case (Some x)
    then show ?thesis
      using f i by (intro exI [of _ "[e]"]) simp
  qed
qed simp

lemma stream_inv:
  "\<exists>k evs. prefix evs (fst (attempt_events hp decode (envs k)))
     \<and> inv (fst (streamWithRetries hp decode cfg envs ho fn attempt start)) evs"
proof -
  obtain k evs where k: "prefix evs (fst (attempt_events hp decode (envs k)))"
      "fst (streamWithRetries hp decode cfg envs ho fn attempt start) = fst (feed fn start evs)"
    using stream_run [of attempt cfg hp decode envs ho fn start] by blast
  from feed_inv [OF inv_start, of evs] obtain pre where
    "prefix pre evs" "inv (fst (feed fn start evs)) ([] @ pre)" by (elim exE conjE)
  then have "prefix pre evs" "inv (fst (feed fn start evs)) pre" by simp_all
  then show ?thesis
    using k by (intro exI [of _ k] exI [of _ pre]) (auto intro: prefix_order.trans)
qed

lemma stream_complete_inv:
  assumes "streamWithRetries hp decode cfg envs ho fn attempt start = (s', nts, None)"
  shows "\<exists>k evs. attempt_events hp decode (envs k) = (evs, None) \<and> inv s' evs"
proof -
  obtain k evs where k: "attempt_events hp decode (envs k) = (evs, None)" "feed fn start evs = (s', None)"
    using stream_done [OF assms] by blast
  from feed_inv [OF inv_start, of evs] obtain pre where
    "inv (fst (feed fn start evs)) ([] @ pre)" "snd (feed fn start evs) = None \<longrightarrow> pre = evs" by (elim exE conjE)
  then have "inv (fst (feed fn start evs)) evs" using k(2) by simp
  then show ?thesis
    using k by (intro exI [of _ k] exI [of _ evs]) simp
qed

end

section \<open>Collecting a whole response\<close>

record collect_acc =
  co_completed :: gomap
  co_output :: "json list"
  co_failure :: gomap

definition collect_start :: collect_acc where
  "collect_start = \<lparr>co_completed = None, co_output = [], co_failure = None\<rparr>"

definition failed_response :: "gomap \<Rightarrow> obj \<Rightarrow> obj" where
  "failed_response failure r = (let r = oset ''status'' (JStr ''failed'') r in
     case failure of
       Some f \<Rightarrow> if oget r ''error'' = JNull then oset ''error'' (JObj f) r else r
     | None \<Rightarrow> r)"

definition collect_event :: "(string \<Rightarrow> int option) \<Rightarrow> int \<Rightarrow> collect_acc consumer" where
  "collect_event http_date now acc event = (let t = event_type event in
     if t = JStr ''response.output_item.done'' then
       (case mapAny (mget event ''item'') of
          Some item \<Rightarrow> (acc\<lparr>co_output := co_output acc @ [JObj item]\<rparr>, None) | None \<Rightarrow> (acc, None))
     else if t = JStr ''error'' then
       (acc\<lparr>co_failure := Some (errorEventDetail (event_obj event))\<rparr>, None)
     else if t = JStr ''response.completed'' \<or> t = JStr ''response.incomplete'' then
       (acc\<lparr>co_completed := cloneMap (mapAny (mget event ''response''))\<rparr>, None)
     else if t = JStr ''response.failed'' then
       (case cloneMap (mapAny (mget event ''response'')) of
          None \<Rightarrow> (acc\<lparr>co_completed := None\<rparr>, Some (responseFailure http_date now (co_failure acc)))
        | Some r \<Rightarrow> (acc\<lparr>co_completed := Some (failed_response (co_failure acc) r)\<rparr>, None))
     else (acc, None))"

definition collect_result :: "(string \<Rightarrow> int option) \<Rightarrow> int \<Rightarrow> collect_acc \<Rightarrow> go_error + obj" where
  "collect_result http_date now acc = (case co_completed acc of
       Some r \<Rightarrow> Inr (if sliceAny (oget r ''output'') = [] \<and> co_output acc \<noteq> []
                      then oset ''output'' (JArr (co_output acc)) r else r)
     | None \<Rightarrow> Inl (responseFailure http_date now (co_failure acc)))"

definition collect_whole ::
  "(string \<Rightarrow> int option) \<Rightarrow> (string \<Rightarrow> gomap option) \<Rightarrow> int \<Rightarrow> retry_cfg \<Rightarrow> (nat \<Rightarrow> attempt_env)
    \<Rightarrow> (go_error + obj) \<times> (string \<times> pool_note) list" where
  "collect_whole http_date decode now cfg envs =
     (case streamWithRetries http_date decode cfg envs True (collect_event http_date now) 0 collect_start of
        (acc, nts, Some err) \<Rightarrow> (Inl err, nts)
      | (acc, nts, None) \<Rightarrow> (collect_result http_date now acc, nts))"

text \<open>What a collected response is made of.\<close>

definition response_event :: "gomap \<Rightarrow> gomap" where
  "response_event event =
     (if event_type event \<in> {JStr ''response.completed'', JStr ''response.incomplete'', JStr ''response.failed''}
      then mapAny (mget event ''response'') else None)"

definition output_item :: "gomap \<Rightarrow> json list" where
  "output_item event = (if event_type event = JStr ''response.output_item.done'' then
     (case mapAny (mget event ''item'') of Some item \<Rightarrow> [JObj item] | None \<Rightarrow> []) else [])"

definition output_items :: "gomap list \<Rightarrow> json list" where
  "output_items evs = concat (map output_item evs)"

definition final_copy :: "gomap \<Rightarrow> obj \<Rightarrow> bool" where
  "final_copy event c \<longleftrightarrow> (\<exists>resp. response_event event = Some resp
     \<and> oget c ''status'' = (if event_type event = JStr ''response.failed'' then JStr ''failed''
                           else clone_json (oget resp ''status''))
     \<and> (\<forall>key. key \<noteq> ''status'' \<and> key \<noteq> ''error'' \<longrightarrow> oget c key = clone_json (oget resp key)))"

definition collect_inv :: "collect_acc \<Rightarrow> gomap list \<Rightarrow> bool" where
  "collect_inv acc evs \<longleftrightarrow> co_output acc = output_items evs
     \<and> (\<forall>c. co_completed acc = Some c \<longrightarrow> (\<exists>e \<in> set evs. final_copy e c))"

lemma output_items_snoc [simp]: "output_items (evs @ [e]) = output_items evs @ output_item e"
  by (simp add: output_items_def)

lemma final_copy_completed:
  "event_type e = JStr ''response.completed'' \<or> event_type e = JStr ''response.incomplete'' \<Longrightarrow>
     cloneMap (mapAny (mget e ''response'')) = Some c \<Longrightarrow> final_copy e c"
  by (auto simp: final_copy_def response_event_def cloneMap_def)

lemma final_copy_failed:
  "event_type e = JStr ''response.failed'' \<Longrightarrow> cloneMap (mapAny (mget e ''response'')) = Some c \<Longrightarrow>
     final_copy e (failed_response f c)"
  by (auto simp: final_copy_def response_event_def cloneMap_def failed_response_def Let_def split: option.split)

lemma collect_event_inv:
  assumes "collect_inv acc evs"
  shows "collect_inv (fst (collect_event hp now acc e)) (evs @ [e])"
proof -
  let ?t = "event_type e"
  consider "?t = JStr ''response.output_item.done''" | "?t = JStr ''error''"
    | "?t = JStr ''response.completed'' \<or> ?t = JStr ''response.incomplete''" | "?t = JStr ''response.failed''"
    | "?t \<notin> {JStr ''response.output_item.done'', JStr ''error'', JStr ''response.completed'',
         JStr ''response.incomplete'', JStr ''response.failed''}"
    by blast
  then show ?thesis
  proof cases
    case 3
    then show ?thesis
      using assms final_copy_completed [OF 3] by (auto simp: collect_event_def collect_inv_def output_item_def)
  next
    case 4
    then show ?thesis
      using assms final_copy_failed [OF 4]
      by (auto simp: collect_event_def collect_inv_def output_item_def split: option.split)
  qed (use assms in \<open>auto simp: collect_event_def collect_inv_def output_item_def split: option.split\<close>)
qed

lemma collect_start_inv: "collect_inv collect_start []"
  by (simp add: collect_inv_def collect_start_def output_items_def)

interpretation collecting: stream_consumer "collect_event hp now" collect_start collect_inv
  by unfold_locales (rule collect_start_inv, rule collect_event_inv)

text \<open>A collected response is a copy of a terminal response event of one complete attempt: its
  status is that of the event (\<open>failed\<close> for a failure), every other field but the error is the
  event's, and when the event carries no output items, the output is exactly the items the same
  attempt finished, in order.\<close>

theorem collect_returns_terminal_response:
  assumes "collect_whole hp decode now cfg envs = (Inr r, nts)"
  shows "\<exists>k evs e resp. attempt_events hp decode (envs k) = (evs, None) \<and> e \<in> set evs
    \<and> response_event e = Some resp
    \<and> oget r ''status'' = (if event_type e = JStr ''response.failed'' then JStr ''failed''
                          else clone_json (oget resp ''status''))
    \<and> (\<forall>key. key \<notin> {''status'', ''error'', ''output''} \<longrightarrow> oget r key = clone_json (oget resp key))
    \<and> sliceAny (oget r ''output'') = (if sliceAny (oget resp ''output'') = [] then output_items evs
                                     else cloneSlice (sliceAny (oget resp ''output'')))"
proof -
  obtain acc where sr: "streamWithRetries hp decode cfg envs True (collect_event hp now) 0 collect_start = (acc, nts, None)"
    and cr: "collect_result hp now acc = Inr r"
    using assms by (auto simp: collect_whole_def split: prod.splits option.splits)
  obtain k evs where ev: "attempt_events hp decode (envs k) = (evs, None)" and i: "collect_inv acc evs"
    using collecting.stream_complete_inv [OF sr] by blast
  obtain c where c: "co_completed acc = Some c"
    and r: "r = (if sliceAny (oget c ''output'') = [] \<and> co_output acc \<noteq> []
                 then oset ''output'' (JArr (co_output acc)) c else c)"
    using cr by (auto simp: collect_result_def split: option.splits)
  obtain e resp where e: "e \<in> set evs" "response_event e = Some resp"
    and st: "oget c ''status'' = (if event_type e = JStr ''response.failed'' then JStr ''failed''
              else clone_json (oget resp ''status''))"
    and keys: "\<And>key. key \<noteq> ''status'' \<Longrightarrow> key \<noteq> ''error'' \<Longrightarrow> oget c key = clone_json (oget resp key)"
    using i c by (auto simp: collect_inv_def final_copy_def)
  have out: "sliceAny (oget c ''output'') = cloneSlice (sliceAny (oget resp ''output''))"
    by (simp add: keys sliceAny_clone)
  then have empty: "sliceAny (oget c ''output'') = [] \<longleftrightarrow> sliceAny (oget resp ''output'') = []"
    by (simp add: cloneSlice_def)
  have co: "co_output acc = output_items evs"
    using i by (simp add: collect_inv_def)
  have rk: "oget r key = oget c key" if "key \<noteq> ''output''" for key
    using that by (simp add: r)
  have "oget r ''status'' = (if event_type e = JStr ''response.failed'' then JStr ''failed''
      else clone_json (oget resp ''status''))"
    using rk [of "''status''"] st by simp
  moreover have "\<forall>key. key \<notin> {''status'', ''error'', ''output''} \<longrightarrow> oget r key = clone_json (oget resp key)"
    using rk keys by simp
  moreover have "sliceAny (oget r ''output'') = (if sliceAny (oget resp ''output'') = [] then output_items evs
      else cloneSlice (sliceAny (oget resp ''output'')))"
    using empty out co by (simp add: r cloneSlice_def)
  ultimately show ?thesis
    using ev e by blast
qed

theorem collect_returns_terminal_response_witness:
  "\<exists>r nts. collect_whole (\<lambda>_. None) sample_decode 0 \<lparr>cfg_MaxRetries = 0, cfg_retryBaseDelay = 1\<rparr> (\<lambda>k. sample_env) = (Inr r, nts)
     \<and> (\<exists>evs e resp. attempt_events (\<lambda>_. None) sample_decode sample_env = (evs, None) \<and> e \<in> set evs
         \<and> oget r ''id'' = clone_json (oget resp ''id''))"
proof -
  have "collect_whole (\<lambda>_. None) sample_decode 0 \<lparr>cfg_MaxRetries = 0, cfg_retryBaseDelay = 1\<rparr> (\<lambda>k. sample_env) = (Inr [], [])"
    by (simp add: collect_whole_def streamWithRetries.simps sample_once hold_start_def hold_event_def forward_def
        collect_event_def collect_start_def collect_result_def event_type_def sample_event_def cloneMap_def clone_obj_def)
  note r = this
  obtain evs e resp where "attempt_events (\<lambda>_. None) sample_decode sample_env = (evs, None)" "e \<in> set evs"
      "\<forall>key. key \<notin> {''status'', ''error'', ''output''} \<longrightarrow> oget [] key = clone_json (oget resp key)"
    using collect_returns_terminal_response [OF r] by (elim exE conjE) (rule that)
  then have "attempt_events (\<lambda>_. None) sample_decode sample_env = (evs, None) \<and> e \<in> set evs
      \<and> oget [] ''id'' = clone_json (oget resp ''id'')"
    by simp
  with r show ?thesis by blast
qed

section \<open>Further laws\<close>

text \<open>A failure before any output is hidden and tried again: when an attempt delivers only
  lifecycle events and ends with an error that may be retried, the stream behaves exactly as if it
  had started with the next attempt, from the untouched state of the consumer.\<close>

theorem transient_failure_retried:
  assumes "attempt_events hp decode (envs attempt) = (evs, Some e)"
    and "list_all (\<lambda>event. isLifecycleEvent (stringValue (event_type event))) evs"
    and "retry_after hp cfg (ae_now_end (envs attempt)) (ae_jitter (envs attempt)) (Some e) attempt = Some d"
    and "\<not> ae_cancelled (envs attempt)" "\<not> ae_cancelled_wait (envs attempt)"
  shows "fst (streamWithRetries hp decode cfg envs ho fn attempt s)
      = fst (streamWithRetries hp decode cfg envs ho fn (Suc attempt) s)
    \<and> snd (snd (streamWithRetries hp decode cfg envs ho fn attempt s))
      = snd (snd (streamWithRetries hp decode cfg envs ho fn (Suc attempt) s))"
proof -
  let ?env = "envs attempt"
  let ?H = "hold_event hp cfg ?env ho attempt fn"
  obtain st err where once: "streamOnce hp decode ?env ?H (hold_start cfg attempt s) = (st, err)"
    by (cases "streamOnce hp decode ?env ?H (hold_start cfg attempt s)")
  have max: "\<not> hs_committed (hold_start cfg attempt s)"
    using retry_after_attempt [OF assms(3)] by (simp add: hold_start_def)
  have held: "feed_then ?H h evs (Some e) = (h\<lparr>hs_held := hs_held h @ evs\<rparr>, Some e)"
    if "\<not> hs_committed h" for h
    using that assms(2)
  proof (induction evs arbitrary: h)
    case (Cons a evs)
    have "?H h a = (h\<lparr>hs_held := hs_held h @ [a]\<rparr>, None)"
      using Cons.prems by (auto simp: hold_event_def isLifecycleEvent_def)
    then show ?case
      using Cons.IH [of "h\<lparr>hs_held := hs_held h @ [a]\<rparr>"] Cons.prems by (simp add: feed_then_Cons)
  qed simp
  have st: "ss_user st = (hold_start cfg attempt s)\<lparr>hs_held := evs\<rparr>" "err = Some e"
    using streamOnce_feed [OF once assms(1)] held [OF max] by (simp_all add: hold_start_def)
  have e: "round_failure h (Some e) = Some e" for h :: "'a hold_state"
    using attempt_events_not_retry [OF assms(1)] by (simp add: round_failure_def)
  show ?thesis
    unfolding streamWithRetries.simps [of hp decode cfg envs ho fn attempt s] Let_def once prod.case
    using max assms(3-5) by (simp add: e st hold_start_def split: prod.split)
qed

theorem transient_failure_retried_witness:
  "fst (streamWithRetries (\<lambda>_. None) sample_decode \<lparr>cfg_MaxRetries = 1, cfg_retryBaseDelay = 0\<rparr>
      ((\<lambda>k. sample_env)(0 := sample_env\<lparr>ae_sent := Inl (BackendError 502 ''down'')\<rparr>)) False (\<lambda>n e. (Suc n, None)) 0 0)
    = (1 :: nat)"
proof -
  let ?cfg = "\<lparr>cfg_MaxRetries = 1, cfg_retryBaseDelay = 0\<rparr>"
  let ?envs = "(\<lambda>k. sample_env)((0::nat) := sample_env\<lparr>ae_sent := Inl (BackendError 502 ''down'')\<rparr>)"
  have ev: "attempt_events (\<lambda>_. None) sample_decode (?envs 0) = ([], Some (BackendError 502 ''down''))"
    by (simp add: attempt_events_def streamOnce_def sse_start_def as_backend_def)
  have flags: "\<not> ae_cancelled (?envs 0)" "\<not> ae_cancelled_wait (?envs 0)"
    by (simp_all add: sample_env_def)
  have "\<exists>d. retry_after (\<lambda>_. None) ?cfg (ae_now_end (?envs 0)) (ae_jitter (?envs 0)) (Some (BackendError 502 ''down'')) 0 = Some d"
    by (simp add: retry_after_def retryDelay_def as_backend_def as_failure_def transient_def)
  then obtain d where d: "retry_after (\<lambda>_. None) ?cfg (ae_now_end (?envs 0)) (ae_jitter (?envs 0))
      (Some (BackendError 502 ''down'')) 0 = Some d" ..
  have "fst (streamWithRetries (\<lambda>_. None) sample_decode ?cfg ?envs False (\<lambda>n e. (Suc n, None)) (Suc 0) 0) = 1"
    by (simp add: streamWithRetries.simps sample_once hold_start_def hold_event_def forward_def)
  then show ?thesis
    using transient_failure_retried [where envs = ?envs and attempt = 0 and ho = False
        and fn = "\<lambda>n e. (Suc n, None)" and s = 0, OF ev _ d flags] by simp
qed

lemma oget_fold_odel: "oget (fold odel ks m) k = (if k \<in> set ks then JNull else oget m k)"
  by (induction ks arbitrary: m) auto

lemma drop_breakpoints_other: "k \<noteq> ''input'' \<Longrightarrow> oget (drop_breakpoints m) k = oget m k"
  by (auto simp: drop_breakpoints_def split: json.split)

lemma normalized_other:
  assumes "k \<notin> {''input'', ''include'', ''text'', ''stream'', ''store'', ''tool_choice'', ''parallel_tool_calls''}"
  shows "oget (normalizeCodexPayload p dp) k = (if k \<in> set dp \<or> k = ''max_output_tokens'' then JNull else oget p k)"
  using assms
  by (auto simp: normalizeCodexPayload_def Let_def drop_breakpoints_other oget_fold_odel)

definition no_breakpoint :: "json \<Rightarrow> bool" where
  "no_breakpoint item = list_all (\<lambda>part. mget (mapAny part) ''prompt_cache_breakpoint'' = JNull)
     (sliceAny (mget (mapAny item) ''content''))"

lemma drop_item_no_breakpoint: "no_breakpoint (drop_item_breakpoints item)"
proof (cases item)
  case (JObj m)
  have "mget (mapAny (drop_breakpoint part)) ''prompt_cache_breakpoint'' = JNull" for part
    by (auto simp: drop_breakpoint_def split: json.split)
  then show ?thesis
    by (auto simp: no_breakpoint_def drop_item_breakpoints_def JObj list_all_iff split: json.split)
qed (simp_all add: no_breakpoint_def drop_item_breakpoints_def)

lemma normalized_input:
  "oget (normalizeCodexPayload p dp) ''input''
     = (case (if ''input'' \<in> set dp then JNull else oget p ''input'') of
          JArr items \<Rightarrow> JArr (map drop_item_breakpoints items) | v \<Rightarrow> v)"
  by (simp add: normalizeCodexPayload_def Let_def drop_breakpoints_def oget_fold_odel split: json.split)

text \<open>The contract of a payload for Codex.\<close>

definition codex_payload :: "obj \<Rightarrow> bool" where
  "codex_payload m \<longleftrightarrow> oget m ''store'' = JBool False \<and> oget m ''max_output_tokens'' = JNull
     \<and> JStr encrypted_include \<in> set (sliceAny (oget m ''include'')) \<and> list_all no_breakpoint (sliceAny (oget m ''input''))"

lemma normalized_payload: "codex_payload (normalizeCodexPayload p dp)" "oget (normalizeCodexPayload p dp) ''stream'' = JBool True"
proof -
  have "list_all no_breakpoint (sliceAny (oget (normalizeCodexPayload p dp) ''input''))"
    by (auto simp: normalized_input list_all_iff drop_item_no_breakpoint split: json.split)
  moreover have "oget (normalizeCodexPayload p dp) ''max_output_tokens'' = JNull"
    by (simp add: normalized_other)
  ultimately show "codex_payload (normalizeCodexPayload p dp)"
    by (simp add: codex_payload_def) (simp add: normalizeCodexPayload_def Let_def payload_include_def)
  show "oget (normalizeCodexPayload p dp) ''stream'' = JBool True"
    by (simp add: normalizeCodexPayload_def Let_def)
qed

text \<open>C30: What Codex is sent, whatever the client asked for: a stream that is not stored, with the
  encrypted reasoning included, without an output limit, and without cache breakpoints in any part of
  any input item.\<close>

theorem codex_payload_contract:
  "oget (prepareCodexPayload p dp) ''stream'' = JBool True
   \<and> oget (prepareCodexPayload p dp) ''store'' = JBool False
   \<and> oget (prepareCodexPayload p dp) ''max_output_tokens'' = JNull
   \<and> JStr encrypted_include \<in> set (sliceAny (oget (prepareCodexPayload p dp) ''include''))
   \<and> list_all no_breakpoint (sliceAny (oget (prepareCodexPayload p dp) ''input''))"
  using normalized_payload [of "clone_obj p" dp] by (simp add: prepareCodexPayload_def codex_payload_def)

end
