(* ===== verification/Accounts.thy ===== *)
theory Accounts
  imports Stream "HOL-Library.Multiset"
begin

text \<open>
  The account pool (\<open>accounts.go\<close>): the accounts found on disk, their load, usage and cooldowns,
  the affinity of encrypted reasoning and cache keys to accounts, and the choice of an account for
  a request.

  The pool's objects are shared: a lease keeps pointing at the account it was given while a rescan
  may drop that account or put a new object in its place.  So the pool holds a heap of accounts and
  a map from ids to addresses.  Every operation that holds the lock is one function on the pool;
  the clock \<open>now\<close> and the disk are arguments.
\<close>

section \<open>Time\<close>

text \<open>A \<open>time.Time\<close> is its distance from the Unix epoch in nanoseconds; \<open>Sub\<close> saturates.\<close>

definition zero_time :: int where
  "zero_time = - 62135596800 * second_ns"

definition time_sub :: "int \<Rightarrow> int \<Rightarrow> int" where
  "time_sub a b = max min_int64 (min max_int64 (a - b))"

text \<open>\<open>time.Unix(sec, 0)\<close> counts seconds from the year 1 in an \<open>int64\<close>.\<close>

definition time_unix :: "int \<Rightarrow> int" where
  "time_unix sec = (wrap64 (sec + 62135596800) - 62135596800) * second_ns"

definition unix_of :: "int \<Rightarrow> int" where
  "unix_of t = t div second_ns"

text \<open>\<open>time.Duration(x) * time.Second\<close> for an integer \<open>x\<close>: the product wraps.\<close>

definition seconds_duration :: "int \<Rightarrow> int" where
  "seconds_duration n = wrap64 (wrap64 n * second_ns)"

section \<open>Floats\<close>

text \<open>The floats read from headers and events may be infinities or not a number.\<close>

definition float_less :: "float_text \<Rightarrow> float_text \<Rightarrow> bool" where
  "float_less a b = (case (a, b) of
       (FNum x, FNum y) \<Rightarrow> x < y
     | (FInf True, FNum y) \<Rightarrow> True
     | (FNum x, FInf neg) \<Rightarrow> \<not> neg
     | (FInf True, FInf False) \<Rightarrow> True
     | _ \<Rightarrow> False)"

definition float_eq :: "float_text \<Rightarrow> float_text \<Rightarrow> bool" where
  "float_eq a b = (case (a, b) of
       (FNum x, FNum y) \<Rightarrow> x = y | (FInf a', FInf b') \<Rightarrow> a' = b' | _ \<Rightarrow> False)"

definition float_le :: "float_text \<Rightarrow> float_text \<Rightarrow> bool" where
  "float_le a b = (float_less a b \<or> float_eq a b)"

text \<open>\<open>ParseFloat(TrimSpace(s))\<close> without an error.\<close>

definition parsed_float :: "string \<Rightarrow> float_text option" where
  "parsed_float s = numberValue (JStr s)"

section \<open>Data\<close>

record accountUsage =
  us_PrimaryPercent :: float_text
  us_SecondaryPercent :: float_text
  us_HasPrimary :: bool
  us_HasSecondary :: bool
  us_PrimaryResetAt :: int
  us_SecondaryResetAt :: int
  us_UpdatedAt :: int

definition no_usage :: accountUsage where
  "no_usage = \<lparr>us_PrimaryPercent = FNum 0, us_SecondaryPercent = FNum 0, us_HasPrimary = False,
     us_HasSecondary = False, us_PrimaryResetAt = zero_time, us_SecondaryResetAt = zero_time,
     us_UpdatedAt = zero_time\<rparr>"

record poolAccount =
  ac_id :: string
  ac_inflight :: int
  ac_served :: int
  ac_lastUsed :: int
  ac_coolUntil :: int
  ac_coolReason :: string
  ac_coolStamp :: string
  ac_lastError :: string
  ac_lastErrorAt :: int
  ac_usage :: accountUsage

definition new_account :: "string \<Rightarrow> poolAccount" where
  "new_account id' = \<lparr>ac_id = id', ac_inflight = 0, ac_served = 0, ac_lastUsed = zero_time,
     ac_coolUntil = zero_time, ac_coolReason = [], ac_coolStamp = [], ac_lastError = [],
     ac_lastErrorAt = zero_time, ac_usage = no_usage\<rparr>"

definition clear_cooldown :: "poolAccount \<Rightarrow> poolAccount" where
  "clear_cooldown a = a\<lparr>ac_coolUntil := zero_time, ac_coolReason := [], ac_coolStamp := []\<rparr>"

type_synonym addr = nat

record affinityEntry =
  af_account :: string
  af_at :: int

record accountPool =
  po_heap :: "addr \<Rightarrow> poolAccount"
  po_next :: addr
  po_accounts :: "(string \<times> addr) list"
  po_disabled :: "string list"
  po_scannedAt :: int
  po_affinity :: "(string \<times> affinityEntry) list"

definition upd :: "addr \<Rightarrow> (poolAccount \<Rightarrow> poolAccount) \<Rightarrow> accountPool \<Rightarrow> accountPool" where
  "upd a f p = p\<lparr>po_heap := (po_heap p)(a := f (po_heap p a))\<rparr>"

definition account_at :: "accountPool \<Rightarrow> string \<Rightarrow> addr option" where
  "account_at p id' = map_of (po_accounts p) id'"

section \<open>The disk\<close>

text \<open>
  What a scan sees: whether the primary file exists, the entries of the accounts directory (with
  whether each is a directory and holds an \<open>auth.json\<close>), the modification time and size of each
  account's file, and the disabled ids the state file lists (\<open>None\<close>: unreadable or not JSON).
\<close>

record disk =
  dk_primary :: bool
  dk_entries :: "(string \<times> bool \<times> bool) list option"
  dk_stat :: "string \<Rightarrow> (int \<times> int) option"
  dk_disabled :: "string list option"

definition defaultAccountID :: string where
  "defaultAccountID = ''default''"

definition id_char :: "char \<Rightarrow> bool" where
  "id_char c = (let n = (of_char c :: nat) in 97 \<le> n \<and> n \<le> 122 \<or> 48 \<le> n \<and> n \<le> 57)"

definition accountIDPattern :: "string \<Rightarrow> bool" where
  "accountIDPattern s = (s \<noteq> [] \<and> length s \<le> 64 \<and> id_char (hd s)
     \<and> list_all (\<lambda>c. id_char c \<or> c = CHR ''-'') (tl s))"

definition fileStamp :: "disk \<Rightarrow> string \<Rightarrow> string" where
  "fileStamp d id' = (case dk_stat d id' of
       None \<Rightarrow> ''missing'' | Some (mtime, size') \<Rightarrow> itoa mtime @ '':'' @ itoa size')"

definition present_ids :: "disk \<Rightarrow> string list" where
  "present_ids d = (if dk_primary d then [defaultAccountID] else [])
     @ map fst (filter (\<lambda>(name, is_dir, has_auth).
          is_dir \<and> accountIDPattern name \<and> name \<noteq> defaultAccountID \<and> has_auth)
        (case dk_entries d of None \<Rightarrow> [] | Some es \<Rightarrow> es))"

definition readDisabledAccounts :: "disk \<Rightarrow> string list" where
  "readDisabledAccounts d = (case dk_disabled d of None \<Rightarrow> [] | Some ids \<Rightarrow> ids)"

definition writeDisabledAccounts :: "string list \<Rightarrow> string list" where
  "writeDisabledAccounts disabled = sort (remdups disabled)"

text \<open>\<open>rescanLocked\<close>: accounts still present keep their object.\<close>

definition add_account :: "string \<Rightarrow> accountPool \<Rightarrow> accountPool" where
  "add_account id' p = (if account_at p id' = None
     then p\<lparr>po_heap := (po_heap p)(po_next p := new_account id'), po_next := Suc (po_next p),
            po_accounts := (id', po_next p) # po_accounts p\<rparr>
     else p)"

definition lift_cooldown :: "disk \<Rightarrow> addr \<Rightarrow> accountPool \<Rightarrow> accountPool" where
  "lift_cooldown d a p = (let acct = po_heap p a in
     if ac_coolStamp acct \<noteq> [] \<and> fileStamp d (ac_id acct) \<noteq> ac_coolStamp acct
     then upd a clear_cooldown p else p)"

definition rescan :: "int \<Rightarrow> disk \<Rightarrow> accountPool \<Rightarrow> accountPool" where
  "rescan now d p = (let
     p = p\<lparr>po_scannedAt := now\<rparr>;
     p = p\<lparr>po_accounts := filter (\<lambda>(id', a). id' \<in> set (present_ids d)) (po_accounts p)\<rparr>;
     p = fold add_account (present_ids d) p;
     p = fold (lift_cooldown d) (map snd (po_accounts p)) p
     in p\<lparr>po_disabled := readDisabledAccounts d\<rparr>)"

definition accountRescanInterval :: int where
  "accountRescanInterval = 10 * second_ns"

definition maybeRescan :: "int \<Rightarrow> disk \<Rightarrow> accountPool \<Rightarrow> accountPool" where
  "maybeRescan now d p =
     (if time_sub now (po_scannedAt p) \<ge> accountRescanInterval then rescan now d p else p)"

definition empty_pool :: accountPool where
  "empty_pool = \<lparr>po_heap = (\<lambda>a. new_account []), po_next = 0, po_accounts = [], po_disabled = [],
     po_scannedAt = zero_time, po_affinity = []\<rparr>"

definition newAccountPool :: "int \<Rightarrow> disk \<Rightarrow> accountPool" where
  "newAccountPool now d = rescan now d empty_pool"

definition orderedIds :: "accountPool \<Rightarrow> string list" where
  "orderedIds p = (let ids = map fst (po_accounts p) in
     filter (\<lambda>i. i = defaultAccountID) ids @ sort (filter (\<lambda>i. i \<noteq> defaultAccountID) ids))"

definition ordered :: "accountPool \<Rightarrow> addr list" where
  "ordered p = map (\<lambda>i. the (account_at p i)) (orderedIds p)"

section \<open>Affinity\<close>

definition affinityTTL :: int where
  "affinityTTL = 6 * 3600 * second_ns"

definition affinityMaxEntries :: nat where
  "affinityMaxEntries = 20000"

definition stickySlack :: int where
  "stickySlack = 2"

text \<open>A lookup drops an entry that is too old or whose account is gone.\<close>

definition affinity :: "int \<Rightarrow> string \<Rightarrow> accountPool \<Rightarrow> string option \<times> accountPool" where
  "affinity now key p = (case map_of (po_affinity p) key of
       None \<Rightarrow> (None, p)
     | Some entry \<Rightarrow>
         if time_sub now (af_at entry) > affinityTTL \<or> account_at p (af_account entry) = None
         then (None, p\<lparr>po_affinity := AList.delete key (po_affinity p)\<rparr>)
         else (Some (af_account entry), p))"

text \<open>\<open>remember\<close>: a full table first loses its old entries, then an arbitrary half; the half that goes
  is the front of the list, which stands for the order of Go's map iteration.\<close>

definition affinity_room :: "int \<Rightarrow> (string \<times> affinityEntry) list \<Rightarrow> (string \<times> affinityEntry) list" where
  "affinity_room now entries =
     (if length entries \<ge> affinityMaxEntries then
        (let live = filter (\<lambda>(k, e). \<not> time_sub now (af_at e) > affinityTTL) entries in
         if length live \<ge> affinityMaxEntries then drop (affinityMaxEntries div 2) live else live)
      else entries)"

definition remember :: "int \<Rightarrow> string \<Rightarrow> string \<Rightarrow> accountPool \<Rightarrow> accountPool" where
  "remember now key account p = p\<lparr>po_affinity :=
     AList.update key \<lparr>af_account = account, af_at = now\<rparr> (affinity_room now (po_affinity p))\<rparr>"

text \<open>\<open>fingerprint\<close> is the hexadecimal SHA-256 prefix of \<open>reasoningKey\<close>.\<close>

definition reasoningKey :: "(string \<Rightarrow> string) \<Rightarrow> string \<Rightarrow> string" where
  "reasoningKey fingerprint encrypted = ''rs:'' @ fingerprint encrypted"

definition rememberOutput :: "(string \<Rightarrow> string) \<Rightarrow> int \<Rightarrow> string \<Rightarrow> gomap \<Rightarrow> accountPool \<Rightarrow> accountPool" where
  "rememberOutput fingerprint now account item p =
     (if item = None \<or> mget item ''type'' \<noteq> JStr ''reasoning'' then p
      else (let content = stringValue (mget item ''encrypted_content'') in
        if content \<noteq> [] then remember now (reasoningKey fingerprint content) account p else p))"

record routeHints =
  rh_reasoningKeys :: "string list"
  rh_stickyKey :: string

definition hintsForPayload :: "(string \<Rightarrow> string) \<Rightarrow> obj \<Rightarrow> routeHints" where
  "hintsForPayload fingerprint payload =
     \<lparr>rh_reasoningKeys = concat (map (\<lambda>raw. case mapAny raw of
          None \<Rightarrow> []
        | Some item \<Rightarrow> if oget item ''type'' = JStr ''reasoning'' \<and> stringValue (oget item ''encrypted_content'') \<noteq> []
            then [reasoningKey fingerprint (stringValue (oget item ''encrypted_content''))] else [])
        (sliceAny (oget payload ''input''))),
      rh_stickyKey = (let key = stringValue (oget payload ''prompt_cache_key'') in
        if key \<noteq> [] then ''ck:'' @ key else [])\<rparr>"

section \<open>Choosing an account\<close>

text \<open>\<open>usageScore\<close>: the tighter of the two windows.\<close>

definition usageScore :: "poolAccount \<Rightarrow> float_text" where
  "usageScore a = (let u = ac_usage a;
     score = (if us_HasPrimary u then us_PrimaryPercent u else FNum 0) in
     if us_HasSecondary u \<and> float_less score (us_SecondaryPercent u) then us_SecondaryPercent u else score)"

definition lessLoaded :: "poolAccount \<Rightarrow> poolAccount \<Rightarrow> bool" where
  "lessLoaded a b =
     (if ac_inflight a \<noteq> ac_inflight b then ac_inflight a < ac_inflight b
      else if \<not> float_eq (usageScore a) (usageScore b) then float_less (usageScore a) (usageScore b)
      else ac_lastUsed a < ac_lastUsed b)"

text \<open>The first key with a live affinity.\<close>

fun pinned_by :: "int \<Rightarrow> string list \<Rightarrow> accountPool \<Rightarrow> string option \<times> accountPool" where
  "pinned_by now [] p = (None, p)"
| "pinned_by now (key # keys) p = (case affinity now key p of
       (Some a, p) \<Rightarrow> (Some a, p) | (None, p) \<Rightarrow> pinned_by now keys p)"

definition candidates :: "string set \<Rightarrow> accountPool \<Rightarrow> addr list" where
  "candidates exclude p = filter (\<lambda>a. ac_id (po_heap p a) \<notin> exclude \<and> ac_id (po_heap p a) \<notin> set (po_disabled p)) (ordered p)"

definition cooling :: "int \<Rightarrow> accountPool \<Rightarrow> addr \<Rightarrow> bool" where
  "cooling now p a = (now < ac_coolUntil (po_heap p a))"

definition best_of :: "accountPool \<Rightarrow> addr \<Rightarrow> addr list \<Rightarrow> addr" where
  "best_of p a as = fold (\<lambda>x best. if lessLoaded (po_heap p x) (po_heap p best) then x else best) as a"

definition with_id :: "accountPool \<Rightarrow> string \<Rightarrow> addr list \<Rightarrow> addr option" where
  "with_id p i as = List.find (\<lambda>a. ac_id (po_heap p a) = i) as"

text \<open>The preferred account of a cache key, if it is not much busier than the best one.\<close>

definition sticky_choice :: "int \<Rightarrow> routeHints \<Rightarrow> addr list \<Rightarrow> addr \<Rightarrow> accountPool \<Rightarrow> addr option \<times> accountPool" where
  "sticky_choice now hints ready best p =
     (if rh_stickyKey hints = [] then (None, p)
      else (case affinity now (rh_stickyKey hints) p of
          (None, p) \<Rightarrow> (None, p)
        | (Some preferred, p) \<Rightarrow>
            (List.find (\<lambda>a. ac_id (po_heap p a) = preferred
               \<and> ac_inflight (po_heap p a) \<le> ac_inflight (po_heap p best) + stickySlack) ready, p)))"

text \<open>The choice: an account and whether the pin was missed, and the pool without stale affinities.\<close>

definition missed_pin :: "string option \<Rightarrow> accountPool \<Rightarrow> addr \<Rightarrow> bool" where
  "missed_pin pinned p a = (pinned \<noteq> None \<and> Some (ac_id (po_heap p a)) \<noteq> pinned)"

definition soonest :: "accountPool \<Rightarrow> addr list \<Rightarrow> addr" where
  "soonest p as = hd (sort_key (\<lambda>a. ac_coolUntil (po_heap p a)) as)"

definition chooseLocked :: "int \<Rightarrow> routeHints \<Rightarrow> string set \<Rightarrow> accountPool \<Rightarrow> (addr \<times> bool) option \<times> accountPool" where
  "chooseLocked now hints exclude p =
     (let cands = candidates exclude p;
          ready = filter (\<lambda>a. \<not> cooling now p a) cands;
          resting = filter (\<lambda>a. cooling now p a) cands;
          (pinned, p) = pinned_by now (rh_reasoningKeys hints) p
      in case Option.bind pinned (\<lambda>i. with_id p i ready) of
           Some a \<Rightarrow> (Some (a, False), p)
         | None \<Rightarrow>
             if ready = [] then
               (if resting = [] then (None, p)
                else (Some (soonest p resting, missed_pin pinned p (soonest p resting)), p))
             else
               (let best = best_of p (hd ready) (tl ready) in
                case (if pinned = None then sticky_choice now hints ready best p else (None, p)) of
                  (Some a, p) \<Rightarrow> (Some (a, False), p)
                | (None, p) \<Rightarrow> (Some (best, missed_pin pinned p best), p)))"

section \<open>Leases\<close>

record credentials =
  cr_AccessToken :: string
  cr_AccountID :: string

record accountLease =
  le_acct :: addr
  le_id :: string
  le_cred :: credentials
  le_pinMissed :: bool

definition authFileNotFound :: "string \<Rightarrow> go_error" where
  "authFileNotFound path = AuthFailure ''auth_file_not_found''
     (''Codex auth file not found at '' @ path @ ''; run `codex login`'')"

definition unavailableLocked :: "string \<Rightarrow> go_error option \<Rightarrow> accountPool \<Rightarrow> go_error" where
  "unavailableLocked primaryPath credErr p = (case credErr of
       Some e \<Rightarrow> e
     | None \<Rightarrow>
         if po_accounts p = [] then authFileNotFound primaryPath
         else if list_all (\<lambda>(i, a). i \<in> set (po_disabled p)) (po_accounts p)
           then PoolUnavailable 503 ''Every Codex account on this proxy is disabled; enable one in the console at /ui.''
         else PoolUnavailable 503 ''No Codex account is available for this request.'')"

definition take_account :: "int \<Rightarrow> poolAccount \<Rightarrow> poolAccount" where
  "take_account now a = a\<lparr>ac_inflight := ac_inflight a + 1, ac_served := ac_served a + 1, ac_lastUsed := now\<rparr>"

text \<open>The first locked section of \<open>acquire\<close>: choose, with a second scan when nothing was found and
  nothing was tried, and count the request in.\<close>

definition acquire_choice ::
  "int \<Rightarrow> disk \<Rightarrow> routeHints \<Rightarrow> string set \<Rightarrow> go_error option \<Rightarrow> accountPool \<Rightarrow> (addr \<times> bool) option \<times> accountPool" where
  "acquire_choice now d hints exclude credErr p =
     (case chooseLocked now hints exclude (maybeRescan now d p) of
        (Some c, p) \<Rightarrow> (Some c, p)
      | (None, p) \<Rightarrow> if credErr = None \<and> exclude = {} then chooseLocked now hints exclude (rescan now d p)
          else (None, p))"

definition acquire_take ::
  "int \<Rightarrow> disk \<Rightarrow> routeHints \<Rightarrow> string set \<Rightarrow> go_error option \<Rightarrow> accountPool \<Rightarrow> (addr \<times> bool) option \<times> accountPool" where
  "acquire_take now d hints exclude credErr p =
     (case acquire_choice now d hints exclude credErr p of
        (Some (a, missed), p) \<Rightarrow> (Some (a, missed), upd a (take_account now) p)
      | (None, p) \<Rightarrow> (None, p))"

text \<open>The second one, when the credentials do not load: count it out again.\<close>

definition borrow_failed :: "int \<Rightarrow> string \<Rightarrow> addr \<Rightarrow> accountPool \<Rightarrow> accountPool" where
  "borrow_failed now message a p = upd a (\<lambda>x. x\<lparr>ac_inflight := ac_inflight x - 1, ac_served := ac_served x - 1,
     ac_lastError := redactSensitive message, ac_lastErrorAt := now\<rparr>) p"

definition acquire_remember :: "int \<Rightarrow> routeHints \<Rightarrow> string \<Rightarrow> accountPool \<Rightarrow> accountPool" where
  "acquire_remember now hints account p =
     (if rh_stickyKey hints \<noteq> [] then remember now (rh_stickyKey hints) account p else p)"

text \<open>The text of an error.\<close>

definition error_text :: "go_error \<Rightarrow> string" where
  "error_text e = (case e of
       BackendError s m \<Rightarrow> m
     | ResponseFailure f \<Rightarrow> rf_Message f
     | SSELimit \<Rightarrow> ''Codex SSE size limit exceeded''
     | RetryStream \<Rightarrow> ''retry Codex stream''
     | ContextError \<Rightarrow> ''context canceled''
     | AuthFailure c m \<Rightarrow> m
     | PoolUnavailable s m \<Rightarrow> m
     | OtherError m \<Rightarrow> m)"

text \<open>
  \<open>acquire\<close>, run without other requests between its sections.  Each round sees its own clock and
  disk and borrows the credentials of the account it chose; the list of rounds is the fuel, and
  \<open>None\<close> is that it ran out.
\<close>

record acquire_env =
  aq_now :: int
  aq_disk :: disk
  aq_borrow :: "string \<Rightarrow> go_error + credentials"

type_synonym acquire_result = "(go_error + accountLease) \<times> string set \<times> accountPool"

fun acquire ::
  "string \<Rightarrow> routeHints \<Rightarrow> acquire_env list \<Rightarrow> go_error option \<Rightarrow> string set \<Rightarrow> accountPool \<Rightarrow> acquire_result option" where
  "acquire primaryPath hints [] credErr exclude p = None"
| "acquire primaryPath hints (env # envs) credErr exclude p =
     (case acquire_take (aq_now env) (aq_disk env) hints exclude credErr p of
        (None, p) \<Rightarrow> Some (Inl (unavailableLocked primaryPath credErr p), exclude, p)
      | (Some (a, missed), p) \<Rightarrow>
          (let i = ac_id (po_heap p a) in
           case aq_borrow env i of
             Inl err \<Rightarrow> acquire primaryPath hints envs (Some err) (insert i exclude)
                 (borrow_failed (aq_now env) (error_text err) a p)
           | Inr cred \<Rightarrow> Some (Inr \<lparr>le_acct = a, le_id = i, le_cred = cred, le_pinMissed = missed\<rparr>, exclude,
                 acquire_remember (aq_now env) hints i p)))"

definition release :: "addr \<Rightarrow> accountPool \<Rightarrow> accountPool" where
  "release a p = upd a (\<lambda>x. x\<lparr>ac_inflight := ac_inflight x - 1\<rparr>) p"

section \<open>Usage\<close>

type_synonym headers = "string \<Rightarrow> string"

text \<open>A window: percent, reset time, present.\<close>

definition header_window :: "headers \<Rightarrow> int \<Rightarrow> string \<Rightarrow> float_text \<times> int \<times> bool" where
  "header_window h now window = (let name = \<lambda>x. ''x-codex-'' @ window @ x in
     case parsed_float (h (name ''-used-percent'')) of
       None \<Rightarrow> (FNum 0, zero_time, False)
     | Some percent \<Rightarrow>
         (percent,
          (case parsed_float (h (name ''-reset-at'')) of
             Some r \<Rightarrow> if float_less (FNum 0) r then time_unix (float_text_to_int r)
               else (case parsed_float (h (name ''-reset-after-seconds'')) of
                       Some after \<Rightarrow> if float_le (FNum 0) after then now + seconds_duration (float_text_to_int after) else zero_time
                     | None \<Rightarrow> zero_time)
           | None \<Rightarrow> (case parsed_float (h (name ''-reset-after-seconds'')) of
                       Some after \<Rightarrow> if float_le (FNum 0) after then now + seconds_duration (float_text_to_int after) else zero_time
                     | None \<Rightarrow> zero_time)),
          True))"

definition usage_of :: "int \<Rightarrow> float_text \<times> int \<times> bool \<Rightarrow> float_text \<times> int \<times> bool \<Rightarrow> accountUsage option" where
  "usage_of now primary secondary =
     (if snd (snd primary) \<or> snd (snd secondary)
      then Some \<lparr>us_PrimaryPercent = fst primary, us_SecondaryPercent = fst secondary,
        us_HasPrimary = snd (snd primary), us_HasSecondary = snd (snd secondary),
        us_PrimaryResetAt = fst (snd primary), us_SecondaryResetAt = fst (snd secondary), us_UpdatedAt = now\<rparr>
      else None)"

definition usageFromHeaders :: "headers \<Rightarrow> int \<Rightarrow> accountUsage option" where
  "usageFromHeaders h now = usage_of now (header_window h now ''primary'') (header_window h now ''secondary'')"

definition event_window :: "int \<Rightarrow> json \<Rightarrow> float_text \<times> int \<times> bool" where
  "event_window now raw = (let window = mapAny raw in
     case numberValue (mget window ''used_percent'') of
       None \<Rightarrow> (FNum 0, zero_time, False)
     | Some percent \<Rightarrow> (let after = (case numberValue (mget window ''reset_after_seconds'') of
             Some x \<Rightarrow> now + seconds_duration (float_text_to_int x) | None \<Rightarrow> zero_time) in
         (percent,
          (case numberValue (mget window ''resets_at'') of
             Some r \<Rightarrow> if float_less (FNum 0) r then time_unix (float_text_to_int r) else after
           | None \<Rightarrow> after),
          True)))"

definition usageFromEvent :: "gomap \<Rightarrow> int \<Rightarrow> accountUsage option" where
  "usageFromEvent event now =
     (if mget event ''type'' \<noteq> JStr ''codex.rate_limits'' then None
      else (let limits = (case mapAny (mget event ''rate_limits'') of Some l \<Rightarrow> Some l | None \<Rightarrow> event) in
        usage_of now (event_window now (mget limits ''primary'')) (event_window now (mget limits ''secondary''))))"

definition observe :: "int \<Rightarrow> headers \<Rightarrow> int \<Rightarrow> addr \<Rightarrow> accountPool \<Rightarrow> accountPool" where
  "observe now h status a p = upd a (\<lambda>x. let
     x = (case usageFromHeaders h now of Some u \<Rightarrow> x\<lparr>ac_usage := u\<rparr> | None \<Rightarrow> x) in
     if status div 100 = 2 then x\<lparr>ac_lastError := [], ac_lastErrorAt := zero_time\<rparr> else x) p"

definition observeRateLimitEvent :: "int \<Rightarrow> string \<Rightarrow> gomap \<Rightarrow> accountPool \<Rightarrow> accountPool" where
  "observeRateLimitEvent now account event p = (case usageFromEvent event now of
       None \<Rightarrow> p
     | Some u \<Rightarrow> (case account_at p account of None \<Rightarrow> p | Some a \<Rightarrow> upd a (\<lambda>x. x\<lparr>ac_usage := u\<rparr>) p))"

text \<open>What the pool does with a note of the stream.\<close>

definition take_note :: "(string \<Rightarrow> string) \<Rightarrow> int \<Rightarrow> string \<times> pool_note \<Rightarrow> accountPool \<Rightarrow> accountPool" where
  "take_note fingerprint now note p = (case note of
       (account, RememberOutput item) \<Rightarrow> rememberOutput fingerprint now account item p
     | (account, RateLimits event) \<Rightarrow> observeRateLimitEvent now account event p)"

section \<open>Cooldowns\<close>

definition rateLimitFallbackCooldown :: int where
  "rateLimitFallbackCooldown = 60 * second_ns"

definition usageLimitFallbackCooldown :: int where
  "usageLimitFallbackCooldown = 300 * second_ns"

definition maxAccountCooldown :: int where
  "maxAccountCooldown = 8 * 24 * 3600 * second_ns"

definition unauthorizedCooldown :: int where
  "unauthorizedCooldown = 600 * second_ns"

definition coolDown :: "int \<Rightarrow> disk \<Rightarrow> addr \<Rightarrow> int \<Rightarrow> string \<Rightarrow> string \<Rightarrow> accountPool \<Rightarrow> accountPool" where
  "coolDown now d a delay reason detail p = upd a (\<lambda>x. x\<lparr>ac_coolUntil := now + min delay maxAccountCooldown,
     ac_coolReason := reason, ac_coolStamp := fileStamp d (ac_id x), ac_lastError := detail, ac_lastErrorAt := now\<rparr>) p"

definition clearCooldown :: "string \<Rightarrow> accountPool \<Rightarrow> accountPool" where
  "clearCooldown i p = (case account_at p i of None \<Rightarrow> p | Some a \<Rightarrow> upd a clear_cooldown p)"

text \<open>The reset times of a 429, first that applies.\<close>

definition reset_at_wait :: "gomap \<Rightarrow> int \<Rightarrow> int option" where
  "reset_at_wait errDoc now =
     (case numberValue (mget errDoc ''resets_at'') of
        Some r \<Rightarrow> if float_less (FNum (int_to_float (unix_of now))) r
          then Some (time_sub (time_unix (float_text_to_int r)) now) else None
      | None \<Rightarrow> None)"

definition retry_after_wait :: "headers \<Rightarrow> int option" where
  "retry_after_wait h = (let (n, ok) = atoi (trim_space (h ''Retry-After'')) in
     if ok \<and> 0 < n then Some (seconds_duration n) else None)"

definition usage_wait :: "headers \<Rightarrow> int \<Rightarrow> int option" where
  "usage_wait h now = (case usageFromHeaders h now of
       None \<Rightarrow> None
     | Some u \<Rightarrow>
         if us_HasPrimary u \<and> float_le (FNum 100) (us_PrimaryPercent u) \<and> now < us_PrimaryResetAt u
         then Some (time_sub (us_PrimaryResetAt u) now)
         else if us_HasSecondary u \<and> float_le (FNum 100) (us_SecondaryPercent u) \<and> now < us_SecondaryResetAt u
         then Some (time_sub (us_SecondaryResetAt u) now)
         else None)"

definition resets_in_wait :: "gomap \<Rightarrow> int option" where
  "resets_in_wait errDoc = (case numberValue (mget errDoc ''resets_in_seconds'') of
       Some s \<Rightarrow> if float_less (FNum 0) s then Some (seconds_duration (float_text_to_int s)) else None
     | None \<Rightarrow> None)"

definition cooldownForStatus :: "int \<Rightarrow> headers \<Rightarrow> gomap \<Rightarrow> int \<Rightarrow> (int \<times> string) option" where
  "cooldownForStatus status h doc now =
     (if status = 429 then (let
        errDoc = mapAny (mget doc ''error'');
        kind = stringValue (mget errDoc ''type'') @ '' '' @ stringValue (mget errDoc ''code'');
        limited = str_contains ''usage_limit'' kind;
        reason = (if limited then ''usage_limit'' else ''rate_limited'')
        in Some (case resets_in_wait errDoc of
            Some w \<Rightarrow> (w, reason)
          | None \<Rightarrow> (case reset_at_wait errDoc now of
            Some w \<Rightarrow> (w, reason)
          | None \<Rightarrow> (case retry_after_wait h of
            Some w \<Rightarrow> (w, reason)
          | None \<Rightarrow> (case usage_wait h now of
            Some w \<Rightarrow> (w, ''usage_limit'')
          | None \<Rightarrow> (if limited then usageLimitFallbackCooldown else rateLimitFallbackCooldown, reason))))))
      else if status = 401 then Some (unauthorizedCooldown, ''unauthorized'')
      else None)"

section \<open>Operator actions\<close>

text \<open>\<open>None\<close> is success.  \<open>write_error\<close> is the outcome of writing the state file, \<open>d'\<close> the disk after
  files were removed.\<close>

definition errUnknownAccount :: string where
  "errUnknownAccount = ''Unknown account.''"

definition setEnabled ::
  "string \<Rightarrow> bool \<Rightarrow> int \<Rightarrow> disk \<Rightarrow> string option \<Rightarrow> accountPool \<Rightarrow> string option \<times> string list option \<times> accountPool" where
  "setEnabled i enabled now d write_error p = (let p = rescan now d p in
     case account_at p i of
       None \<Rightarrow> (Some errUnknownAccount, None, p)
     | Some a \<Rightarrow>
         (let next' = (if enabled then removeAll i (po_disabled p) else List.insert i (po_disabled p)) in
          case write_error of
            Some e \<Rightarrow> (Some e, None, p)
          | None \<Rightarrow> (let p = p\<lparr>po_disabled := next'\<rparr> in
              (None, Some (writeDisabledAccounts next'), if enabled then upd a clear_cooldown p else p))))"

definition drop_affinities :: "string \<Rightarrow> accountPool \<Rightarrow> accountPool" where
  "drop_affinities i p = p\<lparr>po_affinity := filter (\<lambda>(k, e). af_account e \<noteq> i) (po_affinity p)\<rparr>"

definition remove_account ::
  "string \<Rightarrow> int \<Rightarrow> disk \<Rightarrow> string option \<Rightarrow> disk \<Rightarrow> accountPool \<Rightarrow> string option \<times> string list option \<times> accountPool" where
  "remove_account i now d remove_error d' p = (let p = rescan now d p in
     if account_at p i = None then (Some errUnknownAccount, None, p)
     else (case remove_error of
         Some e \<Rightarrow> (Some e, None, p)
       | None \<Rightarrow> (None,
           if i \<in> set (po_disabled p) then Some (writeDisabledAccounts (removeAll i (po_disabled p))) else None,
           rescan now d' (drop_affinities i p))))"

definition newAccountID :: "string option \<Rightarrow> int \<Rightarrow> disk \<Rightarrow> accountPool \<Rightarrow> string option \<times> accountPool" where
  "newAccountID stamp now d p = (let p = rescan now d p in
     (if po_accounts p = [] \<and> \<not> dk_primary d then Some defaultAccountID else stamp, p))"

text \<open>\<open>writeAccount\<close> after the file work: \<open>d\<close> is the disk with the new file.\<close>

definition writeAccount :: "string \<Rightarrow> string option \<Rightarrow> int \<Rightarrow> disk \<Rightarrow> accountPool \<Rightarrow> string option \<times> accountPool" where
  "writeAccount i write_error now d p =
     (if \<not> accountIDPattern i then (Some errUnknownAccount, p)
      else case write_error of
        Some e \<Rightarrow> (Some e, p)
      | None \<Rightarrow> (let p = rescan now d p in (None, case account_at p i of
            None \<Rightarrow> p
          | Some a \<Rightarrow> upd a (\<lambda>x. (clear_cooldown x)\<lparr>ac_lastError := [], ac_lastErrorAt := zero_time\<rparr>) p)))"

text \<open>\<open>preflight\<close>: the first error, unless some enabled account has credentials.\<close>

fun preflight_scan :: "(string \<Rightarrow> go_error + credentials) \<Rightarrow> string list \<Rightarrow> go_error option \<Rightarrow> bool \<times> go_error option" where
  "preflight_scan borrow [] first = (False, first)"
| "preflight_scan borrow (i # is) first = (case borrow i of
     Inr cred \<Rightarrow> (True, first)
   | Inl e \<Rightarrow> preflight_scan borrow is (if first = None then Some e else first))"

definition preflight ::
  "string \<Rightarrow> (string \<Rightarrow> go_error + credentials) \<Rightarrow> int \<Rightarrow> disk \<Rightarrow> accountPool \<Rightarrow> go_error option \<times> accountPool" where
  "preflight primaryPath borrow now d p = (let p = rescan now d p;
     (ok, first) = preflight_scan borrow (filter (\<lambda>i. i \<notin> set (po_disabled p)) (orderedIds p)) None in
     (if ok then None
      else case first of
        Some e \<Rightarrow> Some e
      | None \<Rightarrow> Some (if po_accounts p = [] then authFileNotFound primaryPath
          else AuthFailure ''authentication_failed'' ''every Codex account on this proxy is disabled''), p))"

section \<open>Well-formed pools\<close>

text \<open>The map has one object per id, allocated, and of that id.\<close>

definition pool_wf :: "accountPool \<Rightarrow> bool" where
  "pool_wf p \<longleftrightarrow> distinct (map fst (po_accounts p)) \<and> distinct (map snd (po_accounts p))
     \<and> (\<forall>(i, a) \<in> set (po_accounts p). a < po_next p \<and> ac_id (po_heap p a) = i)"

lemma pool_wf_heap:
  "pool_wf p \<Longrightarrow> (\<And>a. ac_id (h a) = ac_id (po_heap p a)) \<Longrightarrow> pool_wf (p\<lparr>po_heap := h\<rparr>)"
  by (simp add: pool_wf_def)

lemma pool_wf_upd: "pool_wf p \<Longrightarrow> (\<And>x. ac_id (f x) = ac_id x) \<Longrightarrow> pool_wf (upd a f p)"
  unfolding upd_def by (rule pool_wf_heap) auto

lemma pool_wf_fields [simp]:
  "pool_wf (p\<lparr>po_affinity := x\<rparr>) = pool_wf p" "pool_wf (p\<lparr>po_disabled := ds\<rparr>) = pool_wf p"
  "pool_wf (p\<lparr>po_scannedAt := t\<rparr>) = pool_wf p"
  by (simp_all add: pool_wf_def)

text \<open>The load of every account and the outstanding leases agree.\<close>

definition load_inv :: "accountPool \<Rightarrow> addr multiset \<Rightarrow> bool" where
  "load_inv p L \<longleftrightarrow> pool_wf p \<and> (\<forall>a. ac_inflight (po_heap p a) = int (count L a)) \<and> (\<forall>a. a \<in># L \<longrightarrow> a < po_next p)"

lemma load_inv_fields [simp]:
  "load_inv (p\<lparr>po_affinity := x\<rparr>) L = load_inv p L" "load_inv (p\<lparr>po_disabled := ds\<rparr>) L = load_inv p L"
  "load_inv (p\<lparr>po_scannedAt := t\<rparr>) L = load_inv p L"
  by (simp_all add: load_inv_def)

lemma load_inv_upd:
  "load_inv p L \<Longrightarrow> (\<And>x. ac_id (f x) = ac_id x) \<Longrightarrow> (\<And>x. ac_inflight (f x) = ac_inflight x) \<Longrightarrow> load_inv (upd a f p) L"
  by (simp add: load_inv_def pool_wf_upd) (simp add: upd_def)

lemma load_inv_add_account: "load_inv p L \<Longrightarrow> load_inv (add_account i p) L"
proof (cases "account_at p i = None")
  case True
  assume inv: "load_inv p L"
  then have nx: "count L (po_next p) = 0"
    by (auto simp: load_inv_def count_eq_zero_iff)
  have "i \<notin> fst ` set (po_accounts p)"
    using True by (simp add: account_at_def map_of_eq_None_iff)
  with inv nx True show ?thesis
    by (fastforce simp: load_inv_def pool_wf_def add_account_def new_account_def less_Suc_eq)
qed (auto simp: add_account_def)

lemma fold_invariant: "P s \<Longrightarrow> (\<And>x s. x \<in> set xs \<Longrightarrow> P s \<Longrightarrow> P (f x s)) \<Longrightarrow> P (fold f xs s)"
  by (induction xs arbitrary: s) auto

lemma pool_wf_add_account: "pool_wf p \<Longrightarrow> pool_wf (add_account i p)"
proof (cases "account_at p i = None")
  case True
  assume wf: "pool_wf p"
  have "i \<notin> fst ` set (po_accounts p)"
    using True by (simp add: account_at_def map_of_eq_None_iff)
  with wf True show ?thesis
    by (fastforce simp: pool_wf_def add_account_def new_account_def less_Suc_eq)
qed (auto simp: add_account_def)

lemma pool_wf_lift: "pool_wf p \<Longrightarrow> pool_wf (lift_cooldown d a p)"
  by (simp add: lift_cooldown_def Let_def pool_wf_upd clear_cooldown_def)

lemma load_inv_lift: "load_inv p L \<Longrightarrow> load_inv (lift_cooldown d a p) L"
  by (simp add: lift_cooldown_def Let_def load_inv_upd clear_cooldown_def)

lemma load_inv_rescan: "load_inv p L \<Longrightarrow> load_inv (rescan now d p) L"
proof -
  assume "load_inv p L"
  then have "load_inv (p\<lparr>po_scannedAt := now, po_accounts := filter (\<lambda>(id', a). id' \<in> set (present_ids d)) (po_accounts p)\<rparr>) L"
    by (auto simp: load_inv_def pool_wf_def distinct_map_filter)
  then show ?thesis
    unfolding rescan_def Let_def load_inv_fields
    by (auto intro!: fold_invariant [where P = "\<lambda>p. load_inv p L"] load_inv_lift load_inv_add_account)
qed

section \<open>The choice\<close>

lemma affinity_frame: "affinity now key p = (r, p') \<Longrightarrow> \<exists>x. p' = p\<lparr>po_affinity := x\<rparr>"
  by (auto simp: affinity_def split: option.splits if_splits intro: exI [of _ "po_affinity p"])

lemma pinned_frame: "pinned_by now keys p = (r, p') \<Longrightarrow> \<exists>x. p' = p\<lparr>po_affinity := x\<rparr>"
proof (induction now keys p rule: pinned_by.induct)
  case (1 now p)
  then show ?case by (auto intro: exI [of _ "po_affinity p"])
next
  case (2 now key keys p)
  obtain r1 p1 where a: "affinity now key p = (r1, p1)"
    by (cases "affinity now key p")
  then obtain x where "p1 = p\<lparr>po_affinity := x\<rparr>"
    using affinity_frame by blast
  then show ?case
    using 2 a by (cases r1) auto
qed

lemma sticky_frame: "sticky_choice now hints ready best p = (r, p') \<Longrightarrow> \<exists>x. p' = p\<lparr>po_affinity := x\<rparr>"
  unfolding sticky_choice_def
  by (auto split: if_splits option.splits prod.splits dest!: affinity_frame intro: exI [of _ "po_affinity p"])

lemma sticky_member:
  "sticky_choice now hints ready best p = (Some a, p') \<Longrightarrow> a \<in> set ready
     \<and> ac_inflight (po_heap p a) \<le> ac_inflight (po_heap p best) + stickySlack"
  by (auto simp: sticky_choice_def find_Some_iff split: if_splits option.splits prod.splits dest!: affinity_frame)

lemma affinity_field_sel [simp]:
  "po_heap (p\<lparr>po_affinity := x\<rparr>) = po_heap p" "ac_id (po_heap (p\<lparr>po_affinity := x\<rparr>) a) = ac_id (po_heap p a)"
  by simp_all

lemma best_of_member: "best_of p a as \<in> set (a # as)"
  unfolding best_of_def by (rule fold_invariant [where P = "\<lambda>b. b \<in> set (a # as)"]) auto

lemma best_of_least:
  "x \<in> set (a # as) \<Longrightarrow> ac_inflight (po_heap p (best_of p a as)) \<le> ac_inflight (po_heap p x)"
proof (induction as arbitrary: a x)
  case (Cons b as)
  let ?c = "if lessLoaded (po_heap p b) (po_heap p a) then b else a"
  have c: "ac_inflight (po_heap p ?c) \<le> ac_inflight (po_heap p a)" "ac_inflight (po_heap p ?c) \<le> ac_inflight (po_heap p b)"
    by (auto simp: lessLoaded_def split: if_splits)
  have "best_of p a (b # as) = best_of p ?c as"
    by (simp add: best_of_def)
  moreover have "ac_inflight (po_heap p (best_of p ?c as)) \<le> ac_inflight (po_heap p ?c)"
    by (rule Cons.IH) simp
  moreover have "x \<in> set as \<Longrightarrow> ac_inflight (po_heap p (best_of p ?c as)) \<le> ac_inflight (po_heap p x)"
    by (rule Cons.IH) simp
  ultimately show ?case
    using Cons.prems c by (metis order_trans set_ConsD)
qed (simp add: best_of_def)

text \<open>The parts of a choice.\<close>

definition ready_accounts :: "int \<Rightarrow> string set \<Rightarrow> accountPool \<Rightarrow> addr list" where
  "ready_accounts now exclude p = filter (\<lambda>a. \<not> cooling now p a) (candidates exclude p)"

definition resting_accounts :: "int \<Rightarrow> string set \<Rightarrow> accountPool \<Rightarrow> addr list" where
  "resting_accounts now exclude p = filter (\<lambda>a. cooling now p a) (candidates exclude p)"

lemma choose_cases:
  assumes "chooseLocked now hints exclude p = (res, p')"
    and "pinned_by now (rh_reasoningKeys hints) p = (pinned, p1)"
  obtains (pin) a i where "res = Some (a, False)" "pinned = Some i" "with_id p i (ready_accounts now exclude p) = Some a"
  | (none) "res = None" "candidates exclude p = []"
  | (resting) a where "res = Some (a, missed_pin pinned p a)" "ready_accounts now exclude p = []"
      "resting_accounts now exclude p \<noteq> []" "a = soonest p (resting_accounts now exclude p)"
      "Option.bind pinned (\<lambda>i. with_id p i (ready_accounts now exclude p)) = None"
  | (sticky) a where "res = Some (a, False)" "pinned = None" "a \<in> set (ready_accounts now exclude p)"
      "\<And>x. x \<in> set (ready_accounts now exclude p) \<Longrightarrow> ac_inflight (po_heap p a) \<le> ac_inflight (po_heap p x) + stickySlack"
  | (best) a where "res = Some (a, missed_pin pinned p a)" "a \<in> set (ready_accounts now exclude p)"
      "\<And>x. x \<in> set (ready_accounts now exclude p) \<Longrightarrow> ac_inflight (po_heap p a) \<le> ac_inflight (po_heap p x)"
      "Option.bind pinned (\<lambda>i. with_id p i (ready_accounts now exclude p)) = None"
proof -
  obtain x where p1: "p1 = p\<lparr>po_affinity := x\<rparr>"
    using pinned_frame [OF assms(2)] by blast
  let ?ready = "ready_accounts now exclude p" and ?rest = "resting_accounts now exclude p"
  have w: "with_id p1 = with_id p" "best_of p1 = best_of p" "missed_pin pinned p1 = missed_pin pinned p" "soonest p1 = soonest p"
    by (auto simp: fun_eq_iff with_id_def best_of_def missed_pin_def soonest_def p1)
  note ch = assms(1) [unfolded chooseLocked_def Let_def assms(2) prod.case, folded ready_accounts_def resting_accounts_def, unfolded w]
  show ?thesis
  proof (cases "Option.bind pinned (\<lambda>i. with_id p i ?ready)")
    case (Some a)
    then obtain i where "pinned = Some i" "with_id p i ?ready = Some a"
      by (cases pinned) auto
    then show ?thesis
      using ch by (intro pin) auto
  next
    case None
    note nopin = this
    show ?thesis
    proof (cases "?ready = []")
      case True
      show ?thesis
      proof (cases "?rest = []")
        case True': True
        have "candidates exclude p = []"
        proof (rule ccontr)
          assume "candidates exclude p \<noteq> []"
          then obtain a where "a \<in> set (candidates exclude p)" by (cases "candidates exclude p") auto
          then have "a \<in> set ?ready \<or> a \<in> set ?rest"
            by (auto simp: ready_accounts_def resting_accounts_def)
          with True True' show False by simp
        qed
        then show ?thesis
          using ch nopin True True' by (intro none) auto
      next
        case False
        then show ?thesis
          using ch nopin True by (intro resting) auto
      qed
    next
      case False
      let ?best = "best_of p (hd ?ready) (tl ?ready)"
      have hd: "hd ?ready # tl ?ready = ?ready"
        using False by simp
      have bm: "?best \<in> set ?ready"
        using best_of_member [of p "hd ?ready" "tl ?ready"] by (simp only: hd)
      have bl: "ac_inflight (po_heap p ?best) \<le> ac_inflight (po_heap p x)" if "x \<in> set ?ready" for x
        using best_of_least [of x "hd ?ready" "tl ?ready" p] that by (simp only: hd)
      obtain r p2 where st: "(if pinned = None then sticky_choice now hints ?ready ?best p1 else (None, p1)) = (r, p2)"
        by (cases "if pinned = None then sticky_choice now hints ?ready ?best p1 else (None, p1)")
      show ?thesis
      proof (cases r)
        case None
        obtain y where "p2 = p\<lparr>po_affinity := y\<rparr>"
          using st p1 sticky_frame [of now hints ?ready ?best p1 r p2] by (auto split: if_splits)
        then have "missed_pin pinned p2 ?best = missed_pin pinned p ?best"
          by (simp add: missed_pin_def)
        then show ?thesis
          using ch nopin False st None bm bl by (intro best [of ?best]) simp_all
      next
        case (Some a)
        then have "pinned = None" "a \<in> set ?ready" "ac_inflight (po_heap p a) \<le> ac_inflight (po_heap p ?best) + stickySlack"
          using st sticky_member [of now hints ?ready ?best p1 a p2] p1 by (auto split: if_splits)
        then show ?thesis
          using ch nopin False st Some bl by (intro sticky [of a]) force+
      qed
    qed
  qed
qed

lemma orderedIds_set: "set (orderedIds p) = fst ` set (po_accounts p)"
  by (auto simp: orderedIds_def Let_def)

lemma ordered_set: "pool_wf p \<Longrightarrow> set (ordered p) = snd ` set (po_accounts p)"
  by (force simp: ordered_def orderedIds_set pool_wf_def account_at_def image_iff)

lemma candidates_account:
  assumes "pool_wf p" "a \<in> set (candidates exclude p)"
  shows "account_at p (ac_id (po_heap p a)) = Some a \<and> a < po_next p"
proof -
  have "a \<in> set (ordered p)"
    using assms(2) by (simp add: candidates_def)
  then obtain i where "(i, a) \<in> set (po_accounts p)"
    using ordered_set [OF assms(1)] by auto
  then show ?thesis
    using assms(1) by (auto simp: pool_wf_def account_at_def)
qed

lemma soonest_in:
  assumes "as \<noteq> []"
  shows "soonest p as \<in> set as \<and> (\<forall>x \<in> set as. ac_coolUntil (po_heap p (soonest p as)) \<le> ac_coolUntil (po_heap p x))"
proof -
  let ?s = "sort_key (\<lambda>a. ac_coolUntil (po_heap p a)) as"
  have ne: "?s \<noteq> []"
    using assms by (metis set_empty set_sort)
  then have "sorted (map (\<lambda>a. ac_coolUntil (po_heap p a)) (hd ?s # tl ?s))"
    by simp
  then have "\<forall>x \<in> set ?s. ac_coolUntil (po_heap p (hd ?s)) \<le> ac_coolUntil (po_heap p x)"
    using ne by (cases ?s) auto
  then show ?thesis
    using ne hd_in_set [of ?s] by (simp add: soonest_def)
qed

lemma choose_candidate:
  assumes "chooseLocked now hints exclude p = (Some (a, missed), p')"
  shows "a \<in> set (candidates exclude p) \<and> (cooling now p a \<longrightarrow> ready_accounts now exclude p = [] \<and> a = soonest p (candidates exclude p))"
proof -
  obtain pinned p1 where pb: "pinned_by now (rh_reasoningKeys hints) p = (pinned, p1)"
    by (cases "pinned_by now (rh_reasoningKeys hints) p")
  have rd: "x \<in> set (ready_accounts now exclude p) \<Longrightarrow> x \<in> set (candidates exclude p) \<and> \<not> cooling now p x" for x
    by (simp add: ready_accounts_def)
  from assms pb show ?thesis
  proof (cases rule: choose_cases)
    case (pin a' i)
    then show ?thesis
      using rd by (auto simp: with_id_def find_Some_iff)
  next
    case (resting a')
    then have "resting_accounts now exclude p = candidates exclude p"
      by (auto simp: ready_accounts_def resting_accounts_def filter_empty_conv intro: filter_True)
    then show ?thesis
      using resting soonest_in [of "candidates exclude p" p] by auto
  qed (use rd in auto)
qed

text \<open>C21: The account a request gets was not tried before by this request, is enabled, and is the
  current object of its id; a cooling account is taken only when every usable account is cooling, and
  then it is the one that recovers first.\<close>

theorem chosen_account_is_usable:
  assumes "pool_wf p" "chooseLocked now hints exclude p = (Some (a, missed), p')"
  shows "ac_id (po_heap p a) \<notin> exclude \<and> ac_id (po_heap p a) \<notin> set (po_disabled p)
    \<and> account_at p (ac_id (po_heap p a)) = Some a
    \<and> (cooling now p a \<longrightarrow> list_all (\<lambda>x. cooling now p x \<and> ac_coolUntil (po_heap p a) \<le> ac_coolUntil (po_heap p x))
          (candidates exclude p))"
proof -
  note c = choose_candidate [OF assms(2)]
  have "list_all (\<lambda>x. cooling now p x \<and> ac_coolUntil (po_heap p a) \<le> ac_coolUntil (po_heap p x)) (candidates exclude p)"
    if "cooling now p a"
  proof -
    have "candidates exclude p \<noteq> []"
      using c by auto
    then show ?thesis
      using c that soonest_in [of "candidates exclude p" p]
      by (auto simp: list_all_iff ready_accounts_def filter_empty_conv)
  qed
  then show ?thesis
    using c candidates_account [OF assms(1)] by (auto simp: candidates_def)
qed

definition sample_disk :: disk where
  "sample_disk = \<lparr>dk_primary = True, dk_entries = Some [(''b'', True, True)],
     dk_stat = (\<lambda>i. Some (1, 2)), dk_disabled = Some []\<rparr>"

definition no_hints :: routeHints where
  "no_hints = \<lparr>rh_reasoningKeys = [], rh_stickyKey = []\<rparr>"

lemma load_inv_new: "load_inv (newAccountPool now d) {#}"
  unfolding newAccountPool_def
  by (rule load_inv_rescan) (simp add: load_inv_def empty_pool_def pool_wf_def new_account_def)

lemma pool_wf_new: "pool_wf (newAccountPool now d)"
  using load_inv_new [of now d] by (simp add: load_inv_def)

lemma sample_candidates:
  "candidates {} (newAccountPool 0 sample_disk) = [0, 1]"
  by code_simp

theorem chosen_account_is_usable_witness:
  "\<exists>a missed p'. chooseLocked 0 no_hints {} (newAccountPool 0 sample_disk) = (Some (a, missed), p')
     \<and> ac_id (po_heap (newAccountPool 0 sample_disk) a) \<notin> set (po_disabled (newAccountPool 0 sample_disk))"
proof -
  have "fst (chooseLocked 0 no_hints {} (newAccountPool 0 sample_disk)) \<noteq> None"
    by code_simp
  then obtain a missed p' where "chooseLocked 0 no_hints {} (newAccountPool 0 sample_disk) = (Some (a, missed), p')"
    by (cases "chooseLocked 0 no_hints {} (newAccountPool 0 sample_disk)") auto
  from this chosen_account_is_usable [OF pool_wf_new this] show ?thesis by blast
qed

text \<open>C26: Replayed reasoning goes only to the account that made it: the choice reports a missed pin
  exactly when some reasoning key still has a live affinity and the first such key points at another
  account than the one chosen; and a ready account that made the reasoning is always chosen.\<close>

theorem pin_is_exact:
  assumes "chooseLocked now hints exclude p = (Some (a, missed), p')"
    and "pinned_by now (rh_reasoningKeys hints) p = (pinned, p1)"
  shows "(missed \<longleftrightarrow> pinned \<noteq> None \<and> pinned \<noteq> Some (ac_id (po_heap p a)))
    \<and> (list_ex (\<lambda>x. pinned = Some (ac_id (po_heap p x))) (ready_accounts now exclude p) \<longrightarrow>
         pinned = Some (ac_id (po_heap p a)))"
proof -
  have nobody: "\<not> list_ex (\<lambda>x. pinned = Some (ac_id (po_heap p x))) (ready_accounts now exclude p)"
    if "Option.bind pinned (\<lambda>i. with_id p i (ready_accounts now exclude p)) = None"
    using that by (cases pinned) (auto simp: with_id_def find_None_iff list_ex_iff)
  from assms show ?thesis
  proof (cases rule: choose_cases)
    case (pin a' i)
    then show ?thesis by (auto simp: with_id_def find_Some_iff)
  next
    case (sticky a')
    then show ?thesis by (simp add: list_ex_iff)
  qed (use nobody in \<open>auto simp: missed_pin_def\<close>)
qed

definition pin_hints :: routeHints where
  "pin_hints = \<lparr>rh_reasoningKeys = [''rs:k''], rh_stickyKey = []\<rparr>"

definition pinned_pool :: accountPool where
  "pinned_pool = remember 0 ''rs:k'' ''b'' (newAccountPool 0 sample_disk)"

lemma pinned_pool_pin: "pinned_by 0 (rh_reasoningKeys pin_hints) pinned_pool = (Some ''b'', pinned_pool)"
proof -
  have "account_at (newAccountPool 0 sample_disk) ''b'' = Some 1" "po_affinity (newAccountPool 0 sample_disk) = []"
    by code_simp+
  then show ?thesis
    by (simp add: pin_hints_def pinned_pool_def affinity_def remember_def affinity_room_def affinityMaxEntries_def
        account_at_def time_sub_def min_int64_def max_int64_def affinityTTL_def second_ns_def)
qed

theorem pin_is_exact_witness:
  "\<exists>a missed p'. chooseLocked 0 pin_hints {} pinned_pool = (Some (a, missed), p') \<and> ac_id (po_heap pinned_pool a) = ''b'' \<and> \<not> missed"
proof -
  have h: "po_heap pinned_pool = po_heap (newAccountPool 0 sample_disk)"
    "candidates {} pinned_pool = candidates {} (newAccountPool 0 sample_disk)"
    "cooling 0 pinned_pool = cooling 0 (newAccountPool 0 sample_disk)"
    by (simp_all add: pinned_pool_def remember_def candidates_def ordered_def orderedIds_def account_at_def cooling_def fun_eq_iff)
  have r: "ready_accounts 0 {} pinned_pool = [0, 1]"
    unfolding ready_accounts_def h sample_candidates by code_simp
  have b: "ac_id (po_heap pinned_pool (Suc 0)) = ''b''"
    unfolding h by code_simp
  obtain res p' where ch: "chooseLocked 0 pin_hints {} pinned_pool = (res, p')"
    by (cases "chooseLocked 0 pin_hints {} pinned_pool")
  have "res \<noteq> None"
    using ch pinned_pool_pin
  proof (cases rule: choose_cases)
    case none
    with h sample_candidates show ?thesis by simp
  qed auto
  then obtain a missed where c: "chooseLocked 0 pin_hints {} pinned_pool = (Some (a, missed), p')"
    using ch by (cases res) auto
  show ?thesis
    using pin_is_exact [OF c pinned_pool_pin] c by (auto simp: r b)
qed



section \<open>The pool over time\<close>

text \<open>
  The pool as the requests and the operator see it: every critical section is one step, in any
  order.  \<open>L\<close> is the multiset of accounts that a request holds: between its choice and the failure
  of its credentials or the release of its lease.
\<close>

inductive pool_step :: "accountPool \<times> addr multiset \<Rightarrow> accountPool \<times> addr multiset \<Rightarrow> bool" where
  take: "acquire_take now d hints exclude credErr p = (Some (a, missed), p') \<Longrightarrow> pool_step (p, L) (p', add_mset a L)"
| refuse: "acquire_take now d hints exclude credErr p = (None, p') \<Longrightarrow> pool_step (p, L) (p', L)"
| fail: "a \<in># L \<Longrightarrow> pool_step (p, L) (borrow_failed now message a p, L - {#a#})"
| stick: "pool_step (p, L) (acquire_remember now hints account p, L)"
| release: "a \<in># L \<Longrightarrow> pool_step (p, L) (release a p, L - {#a#})"
| observe: "pool_step (p, L) (observe now h status a p, L)"
| hear: "pool_step (p, L) (take_note fingerprint now nt p, L)"
| cool: "pool_step (p, L) (coolDown now d a delay reason detail p, L)"
| clear: "pool_step (p, L) (clearCooldown i p, L)"
| scan: "pool_step (p, L) (rescan now d p, L)"
| enable: "pool_step (p, L) (snd (snd (setEnabled i enabled now d err p)), L)"
| remove: "pool_step (p, L) (snd (snd (remove_account i now d err d' p)), L)"
| login: "pool_step (p, L) (snd (writeAccount i err now d p), L)"
| probe: "pool_step (p, L) (snd (preflight path borrow now d p), L)"
| new_id: "pool_step (p, L) (snd (newAccountID stamp now d p), L)"

inductive_cases pool_stepE: "pool_step (p, L) (p', L')"

lemma count_upd: "po_heap (upd a f p) x = (if x = a then f (po_heap p a) else po_heap p x)"
  by (simp add: upd_def)

lemma load_inv_take:
  assumes "load_inv p L" "a < po_next p"
  shows "load_inv (upd a (take_account now) p) (add_mset a L)"
  using assms pool_wf_upd [of p "take_account now" a]
  by (auto simp: load_inv_def count_upd take_account_def upd_def)

lemma load_inv_drop:
  assumes "load_inv p L" "a \<in># L" "\<And>x. ac_id (f x) = ac_id x" "\<And>x. ac_inflight (f x) = ac_inflight x - 1"
  shows "load_inv (upd a f p) (L - {#a#})"
proof -
  have "int (count (L - {#a#}) x) = (if x = a then int (count L x) - 1 else int (count L x))" for x
    using assms(2) by (simp add: of_nat_diff Suc_leI)
  moreover have "po_next (upd a f p) = po_next p"
    by (simp add: upd_def)
  ultimately show ?thesis
    using assms pool_wf_upd [of p f a] unfolding load_inv_def count_upd by (auto dest: in_diffD)
qed

lemma choose_frame: "chooseLocked now hints exclude p = (r, p') \<Longrightarrow> \<exists>x. p' = p\<lparr>po_affinity := x\<rparr>"
  by (auto simp: chooseLocked_def Let_def split: prod.splits option.splits if_splits
      dest!: pinned_frame sticky_frame)

lemma acquire_choice_props:
  assumes "acquire_choice now d hints exclude credErr p = (r, p')" "load_inv p L"
  shows "load_inv p' L \<and> (\<forall>a m. r = Some (a, m) \<longrightarrow> a < po_next p')"
proof -
  have mr: "load_inv (maybeRescan now d p) L"
    using assms(2) by (simp add: maybeRescan_def load_inv_rescan)
  have step: "load_inv q' L \<and> (\<forall>a m. r' = Some (a, m) \<longrightarrow> a < po_next q')"
    if c: "chooseLocked now hints exclude q = (r', q')" and i: "load_inv q L" for q q' r'
  proof -
    from choose_frame [OF c] obtain x where "q' = q\<lparr>po_affinity := x\<rparr>" ..
    moreover have "a < po_next q" if "r' = Some (a, m)" for a m
      using choose_candidate [of now hints exclude q a m q'] candidates_account [of q a exclude] c i that
      by (simp add: load_inv_def)
    ultimately show ?thesis
      using i by simp
  qed
  obtain r1 p1 where c: "chooseLocked now hints exclude (maybeRescan now d p) = (r1, p1)"
    by (cases "chooseLocked now hints exclude (maybeRescan now d p)")
  show ?thesis
    using assms(1) step [OF c mr] step [of "rescan now d p1" r p'] load_inv_rescan [of p1 L now d]
    by (auto simp: acquire_choice_def c split: option.splits if_splits)
qed

lemma acquire_take_inv:
  assumes "acquire_take now d hints exclude credErr p = (r, p')" "load_inv p L"
  shows "load_inv p' (case r of None \<Rightarrow> L | Some (a, m) \<Rightarrow> add_mset a L)"
proof -
  obtain r1 p1 where c: "acquire_choice now d hints exclude credErr p = (r1, p1)"
    by (cases "acquire_choice now d hints exclude credErr p")
  show ?thesis
    using assms(1) acquire_choice_props [OF c assms(2)] load_inv_take [of p1 L]
    by (auto simp: acquire_take_def c split: option.splits)
qed

lemma load_inv_remember [simp]: "load_inv (remember now k a p) L = load_inv p L"
  by (simp add: remember_def)

lemma load_inv_step: "pool_step (p, L) (p', L') \<Longrightarrow> load_inv p L \<Longrightarrow> load_inv p' L'"
proof (erule pool_stepE, goal_cases)
  case (1 now d hints exclude credErr a missed)
  then show ?case using acquire_take_inv [of now d hints exclude credErr p _ p' L] by fastforce
next
  case (2 now d hints exclude credErr)
  then show ?case using acquire_take_inv [of now d hints exclude credErr p _ p' L] by fastforce
next
  case (3 a now message)
  then show ?case by (simp add: borrow_failed_def load_inv_drop)
next
  case (5 a)
  then show ?case by (simp add: release_def load_inv_drop)
qed (auto simp: acquire_remember_def observe_def take_note_def rememberOutput_def
    observeRateLimitEvent_def coolDown_def clearCooldown_def setEnabled_def remove_account_def drop_affinities_def
    writeAccount_def preflight_def newAccountID_def clear_cooldown_def Let_def
    intro!: load_inv_upd load_inv_rescan split: option.splits pool_note.splits prod.splits)

lemma load_inv_reachable: "pool_step\<^sup>*\<^sup>* s t \<Longrightarrow> load_inv (fst s) (snd s) \<Longrightarrow> load_inv (fst t) (snd t)"
proof (induction rule: rtranclp_induct)
  case (step y z)
  then show ?case by (cases y; cases z) (auto dest: load_inv_step)
qed simp

text \<open>C5: Load never leaks: whatever requests, scans and operator actions happen in whatever order,
  the number of requests in flight on every account object is the number of leases that hold it, so
  it is never negative and falls back to zero; and every id names one account of that id.\<close>

theorem inflight_counts_leases:
  assumes "pool_step\<^sup>*\<^sup>* (newAccountPool now d, {#}) (p, L)"
  shows "ac_inflight (po_heap p a) = int (count L a) \<and> pool_wf p"
  using load_inv_reachable [OF assms] load_inv_new [of now d] by (simp add: load_inv_def)

theorem inflight_counts_leases_witness:
  "\<exists>p. pool_step\<^sup>*\<^sup>* (newAccountPool 0 sample_disk, {#}) (p, {#0#}) \<and> ac_inflight (po_heap p 0) = 1"
proof -
  have "fst (acquire_take 0 sample_disk no_hints {} None (newAccountPool 0 sample_disk)) = Some (0, False)"
    by code_simp
  then obtain p where "acquire_take 0 sample_disk no_hints {} None (newAccountPool 0 sample_disk) = (Some (0, False), p)"
    by (cases "acquire_take 0 sample_disk no_hints {} None (newAccountPool 0 sample_disk)") auto
  then have s: "pool_step\<^sup>*\<^sup>* (newAccountPool 0 sample_disk, {#}) (p, {#0#})"
    using pool_step.take by (metis r_into_rtranclp)
  with inflight_counts_leases [OF s, of 0] show ?thesis by auto
qed

section \<open>Affinity laws\<close>

lemma length_update_le: "length (AList.update k v xs) \<le> Suc (length xs)"
  by (induction xs) auto

lemma affinity_room_length:
  assumes "length xs \<le> affinityMaxEntries"
  shows "length (affinity_room now xs) < affinityMaxEntries"
proof -
  have "length (filter (\<lambda>(k, e). \<not> time_sub now (af_at e) > affinityTTL) xs) \<le> affinityMaxEntries"
    using assms length_filter_le order_trans by blast
  then show ?thesis
    using assms by (auto simp: affinity_room_def Let_def affinityMaxEntries_def)
qed



section \<open>Operator laws\<close>

lemma candidates_enabled: "a \<in> set (candidates exclude p) \<Longrightarrow> ac_id (po_heap p a) \<notin> set (po_disabled p)"
  by (simp add: candidates_def)

lemma rescan_disabled: "po_disabled (rescan now d p) = readDisabledAccounts d"
  by (simp add: rescan_def Let_def)

text \<open>Disabling an account takes effect at once and outlives the process: after it succeeds, no
  request is given the account, and a pool that reads the state file back, at any later scan, still
  does not give it.\<close>

theorem disabled_account_is_never_chosen:
  assumes "setEnabled i False now d None p = (None, Some written, p')"
    and "q = p' \<or> (dk_disabled d' = Some written \<and> q = rescan now' d' p'')"
    and "chooseLocked t hints exclude q = (Some (a, missed), q')"
  shows "ac_id (po_heap q a) \<noteq> i"
proof -
  have w: "i \<in> set (po_disabled p')" "written = writeDisabledAccounts (po_disabled p')"
    using assms(1) by (auto simp: setEnabled_def Let_def split: option.splits if_splits)
  then have "i \<in> set (po_disabled q)"
    using assms(2) by (auto simp: rescan_disabled readDisabledAccounts_def writeDisabledAccounts_def)
  then show ?thesis
    using choose_candidate [OF assms(3)] candidates_enabled by blast
qed

theorem disabled_account_is_never_chosen_witness:
  "\<exists>written p' a m q'. setEnabled ''b'' False 0 sample_disk None (newAccountPool 0 sample_disk) = (None, Some written, p')
     \<and> chooseLocked 0 no_hints {} p' = (Some (a, m), q') \<and> ac_id (po_heap p' a) \<noteq> ''b''"
proof -
  let ?r = "setEnabled ''b'' False 0 sample_disk None (newAccountPool 0 sample_disk)"
  have "fst ?r = None" "fst (snd ?r) = Some [''b'']"
    by code_simp+
  then obtain p' where r: "?r = (None, Some [''b''], p')"
    by (cases ?r) auto
  have "fst (chooseLocked 0 no_hints {} (snd (snd ?r))) = Some (0, False)"
    by code_simp
  then obtain q' where c: "chooseLocked 0 no_hints {} p' = (Some (0, False), q')"
    using r by (cases "chooseLocked 0 no_hints {} p'") auto
  show ?thesis
    using r c disabled_account_is_never_chosen [OF r disjI1 [OF refl] c] by blast
qed

section \<open>Cooldown laws\<close>

lemma lift_cooldown_heap:
  "po_heap (lift_cooldown d x p) a =
     (if x = a \<and> ac_coolStamp (po_heap p a) \<noteq> [] \<and> fileStamp d (ac_id (po_heap p a)) \<noteq> ac_coolStamp (po_heap p a)
      then clear_cooldown (po_heap p a) else po_heap p a)"
  by (simp add: lift_cooldown_def Let_def count_upd)

lemma lift_all_heap:
  "po_heap (fold (lift_cooldown d) as p) a =
     (if a \<in> set as \<and> ac_coolStamp (po_heap p a) \<noteq> [] \<and> fileStamp d (ac_id (po_heap p a)) \<noteq> ac_coolStamp (po_heap p a)
      then clear_cooldown (po_heap p a) else po_heap p a)"
  by (induction as arbitrary: p) (auto simp: lift_cooldown_heap clear_cooldown_def)

lemma add_all_old:
  "a < po_next p \<Longrightarrow> (i, a) \<in> set (po_accounts p) \<Longrightarrow>
     po_heap (fold add_account ids p) a = po_heap p a \<and> (i, a) \<in> set (po_accounts (fold add_account ids p))"
proof (induction ids arbitrary: p)
  case (Cons x ids)
  then show ?case
    using Cons.IH [of "add_account x p"] by (auto simp: add_account_def)
qed simp

lemma rescan_keeps:
  assumes "pool_wf p" "account_at p i = Some a" "i \<in> set (present_ids d)"
  shows "po_heap (rescan now d p) a =
     (if ac_coolStamp (po_heap p a) \<noteq> [] \<and> fileStamp d i \<noteq> ac_coolStamp (po_heap p a)
      then clear_cooldown (po_heap p a) else po_heap p a)"
proof -
  let ?q = "p\<lparr>po_scannedAt := now, po_accounts := filter (\<lambda>(id', a). id' \<in> set (present_ids d)) (po_accounts p)\<rparr>"
  have ia: "(i, a) \<in> set (po_accounts p)"
    using assms(2) by (simp add: account_at_def map_of_SomeD)
  then have old: "a < po_next ?q" "(i, a) \<in> set (po_accounts ?q)" "ac_id (po_heap p a) = i"
    using assms(1,3) by (auto simp: pool_wf_def)
  note add = add_all_old [OF old(1,2), of "present_ids d"]
  then have "a \<in> set (map snd (po_accounts (fold add_account (present_ids d) ?q)))"
    by force
  then show ?thesis
    using add old(3) by (simp add: rescan_def Let_def lift_all_heap)
qed

lemma fileStamp_nonempty: "fileStamp d i \<noteq> []"
  by (simp add: fileStamp_def split: option.split)



text \<open>A reset far in the future gives no cooldown: \<open>time.Duration(seconds) * time.Second\<close> wraps, so
  a 429 that asks to wait 9223372037 seconds or slightly more is answered with a negative wait, and
  the account that was just refused stays ready.\<close>

theorem long_reset_gives_no_cooldown:
  assumes "9223372037 \<le> s" "s \<le> 18446744073"
    and "mget (mapAny (mget doc ''error'')) ''resets_in_seconds'' = JFloat (of_int s)"
  shows "\<exists>w reason. cooldownForStatus 429 h doc now = Some (w, reason) \<and> w < 0
    \<and> \<not> cooling now (coolDown now d a w reason detail p) a"
proof -
  have n: "float_text_to_int (FNum (of_int s)) = s"
    using assms(1,2) by (simp add: float_text_to_int_def float_to_int_def trunc_rat_def in_int64_def min_int64_def max_int64_def)
  have "(s * second_ns + 9223372036854775808) mod 18446744073709551616
      = s * second_ns + 9223372036854775808 - 18446744073709551616"
    using assms(1,2) by (subst mod_pos_geq) (simp_all add: second_ns_def)
  then have w: "seconds_duration s = s * second_ns - 18446744073709551616"
    using assms(1,2) by (simp add: seconds_duration_def in_int64_def min_int64_def max_int64_def) (simp add: wrap64_def)
  then have neg: "seconds_duration s < 0"
    using assms(2) by (simp add: second_ns_def)
  have "\<exists>reason. cooldownForStatus 429 h doc now = Some (seconds_duration s, reason)"
    using assms(1,3) n by (simp add: cooldownForStatus_def resets_in_wait_def numberValue_def float_less_def Let_def)
  with neg show ?thesis
    by (fastforce simp: cooling_def coolDown_def count_upd)
qed

theorem long_reset_gives_no_cooldown_witness:
  "\<exists>w reason. cooldownForStatus 429 (\<lambda>_. []) (Some [(''error'', JObj [(''resets_in_seconds'', JFloat 9223372037)])]) 0 = Some (w, reason)
     \<and> w < 0"
  using long_reset_gives_no_cooldown [of 9223372037 "Some [(''error'', JObj [(''resets_in_seconds'', JFloat 9223372037)])]"
    "\<lambda>_. []" 0 sample_disk 0 "[]" "newAccountPool 0 sample_disk"]
  by auto

end
