(* ===== verification/Failover.thy ===== *)
theory Failover
  imports Accounts
begin

text \<open>
  Sending a request on an account of the pool (\<open>backend.go\<close>: \<open>doAuthenticatedWith\<close>,
  \<open>sendOnAccount\<close>, \<open>poolError\<close>, \<open>headersWithTier\<close>).  Each round of the loop sees an environment:
  what \<open>acquire\<close> meets, the outcomes of the exchanges with the server, the clock and the disk.  An
  exchange is \<open>makeRequest\<close> followed by \<open>client.Do\<close>, either of which may fail; it sees the lease,
  so it may depend on the credentials and on whether the pin was missed.
\<close>

section \<open>One account\<close>

record http_answer =
  an_status :: int
  an_headers :: headers
  an_body :: string      \<comment> \<open>as \<open>bufferedBody\<close> reads it\<close>
  an_doc :: gomap        \<comment> \<open>the body, decoded\<close>

type_synonym exchange = "accountLease \<Rightarrow> go_error + http_answer"

record send_env =
  se_first :: exchange
  se_reload :: "go_error + credentials"
  se_second :: exchange

datatype send_error = CredentialError go_error | RequestError go_error

definition exchange_result :: "accountLease \<Rightarrow> go_error + http_answer \<Rightarrow> accountLease \<times> (send_error + http_answer)" where
  "exchange_result lease r = (lease, case r of Inl e \<Rightarrow> Inl (RequestError e) | Inr a \<Rightarrow> Inr a)"

definition sendOnAccount :: "send_env \<Rightarrow> accountLease \<Rightarrow> accountLease \<times> (send_error + http_answer)" where
  "sendOnAccount env lease = (case se_first env lease of
       Inl e \<Rightarrow> exchange_result lease (Inl e)
     | Inr a \<Rightarrow>
         if an_status a \<noteq> 401 then exchange_result lease (Inr a)
         else (case se_reload env of
             Inl e \<Rightarrow> (lease, Inl (CredentialError e))
           | Inr cred \<Rightarrow> (let lease = lease\<lparr>le_cred := cred\<rparr> in exchange_result lease (se_second env lease))))"

definition poolError :: "go_error \<Rightarrow> go_error" where
  "poolError err = (case err of
       PoolUnavailable s m \<Rightarrow> BackendError s m | _ \<Rightarrow> BackendError 401 (error_text err))"

section \<open>The loop over accounts\<close>

record round_env =
  rn_acquire :: "acquire_env list"
  rn_send :: send_env
  rn_resend :: send_env
  rn_now :: int
  rn_disk :: disk

text \<open>The variables of the loop: \<open>exclude\<close>, \<open>refused\<close> with \<open>refusedLease\<close>, \<open>credentialErr\<close>, and the
  pool.\<close>

record failover =
  fo_exclude :: "string set"
  fo_refused :: "(http_answer \<times> accountLease) option"
  fo_credErr :: "go_error option"
  fo_pool :: accountPool

type_synonym outcome = "go_error + http_answer \<times> accountLease"

text \<open>\<open>Done\<close> also shows the \<open>exclude\<close> map the loop ends with.\<close>

datatype round_result = Next failover | Done outcome "string set" accountPool | Stuck

definition no_account :: "go_error \<Rightarrow> failover \<Rightarrow> outcome" where
  "no_account err st = (case fo_refused st of
       Some r \<Rightarrow> Inr r
     | None \<Rightarrow> Inl (case fo_credErr st of
           Some e \<Rightarrow> BackendError 401 (error_text e) | None \<Rightarrow> poolError err))"

definition observed :: "round_env \<Rightarrow> accountLease \<Rightarrow> http_answer \<Rightarrow> accountPool \<Rightarrow> accountPool" where
  "observed env lease a p = observe (rn_now env) (an_headers a) (an_status a) (le_acct lease) p"

text \<open>Encrypted reasoning that the account cannot read.\<close>

definition reasoning_rejected :: "routeHints \<Rightarrow> accountLease \<Rightarrow> http_answer \<Rightarrow> bool" where
  "reasoning_rejected hints lease a = (an_status a = 400 \<and> rh_reasoningKeys hints \<noteq> []
     \<and> \<not> le_pinMissed lease \<and> encryptedContentRejected (an_body a))"

text \<open>An account condemned by the answer: cooled down, excluded, released.\<close>

definition condemn :: "round_env \<Rightarrow> accountLease \<Rightarrow> int \<Rightarrow> string \<Rightarrow> string \<Rightarrow> accountPool \<Rightarrow> accountPool" where
  "condemn env lease delay reason detail p =
     release (le_acct lease) (coolDown (rn_now env) (rn_disk env) (le_acct lease) delay reason detail p)"

definition status_detail :: "int \<Rightarrow> string" where
  "status_detail status = ''Codex answered HTTP '' @ itoa status"

definition settle :: "round_env \<Rightarrow> accountLease \<Rightarrow> http_answer \<Rightarrow> failover \<Rightarrow> round_result" where
  "settle env lease a st =
     (case (if an_status a = 401 \<or> an_status a = 429
            then cooldownForStatus (an_status a) (an_headers a) (an_doc a) (rn_now env) else None) of
        Some (delay, reason) \<Rightarrow>
          Next (st\<lparr>fo_exclude := insert (le_id lease) (fo_exclude st), fo_refused := Some (a, lease),
            fo_pool := condemn env lease delay reason (status_detail (an_status a)) (fo_pool st)\<rparr>)
      | None \<Rightarrow> Done (Inr (a, lease)) (fo_exclude st) (fo_pool st))"

text \<open>The answer of an account that the client code sees as an error of the request: the wrapper
  \<open>accountCredentialError\<close> unwraps to nothing.\<close>

definition send_failure :: "send_error \<Rightarrow> go_error" where
  "send_failure e = (case e of RequestError x \<Rightarrow> x | CredentialError x \<Rightarrow> OtherError (error_text x))"

definition on_account :: "routeHints \<Rightarrow> round_env \<Rightarrow> accountLease \<Rightarrow> failover \<Rightarrow> round_result" where
  "on_account hints env lease st = (case sendOnAccount (rn_send env) lease of
       (lease, Inl (CredentialError e)) \<Rightarrow>
          Next (st\<lparr>fo_exclude := insert (le_id lease) (fo_exclude st), fo_credErr := Some e,
            fo_pool := coolDown (rn_now env) (rn_disk env) (le_acct lease) unauthorizedCooldown ''unauthorized''
              (redactSensitive (error_text e)) (release (le_acct lease) (fo_pool st))\<rparr>)
     | (lease, Inl (RequestError e)) \<Rightarrow> Done (Inl e) (fo_exclude st) (release (le_acct lease) (fo_pool st))
     | (lease, Inr a) \<Rightarrow>
         (let st = st\<lparr>fo_pool := observed env lease a (fo_pool st)\<rparr> in
          if reasoning_rejected hints lease a then
            (case sendOnAccount (rn_resend env) (lease\<lparr>le_pinMissed := True\<rparr>) of
               (lease, Inl e) \<Rightarrow> Done (Inl (send_failure e)) (fo_exclude st) (release (le_acct lease) (fo_pool st))
             | (lease, Inr a) \<Rightarrow> settle env lease a (st\<lparr>fo_pool := observed env lease a (fo_pool st)\<rparr>))
          else settle env lease a st))"

type_synonym acquirer = "acquire_env list \<Rightarrow> string set \<Rightarrow> accountPool \<Rightarrow> acquire_result option"

definition failover_round :: "acquirer \<Rightarrow> routeHints \<Rightarrow> round_env \<Rightarrow> failover \<Rightarrow> round_result" where
  "failover_round acq hints env st = (case acq (rn_acquire env) (fo_exclude st) (fo_pool st) of
       None \<Rightarrow> Stuck
     | Some (Inl err, exclude, p) \<Rightarrow> Done (no_account err st) exclude p
     | Some (Inr lease, exclude, p) \<Rightarrow> on_account hints env lease (st\<lparr>fo_exclude := exclude, fo_pool := p\<rparr>))"

text \<open>The rounds are the fuel; \<open>None\<close> is that they ran out.\<close>

fun failover_loop :: "acquirer \<Rightarrow> routeHints \<Rightarrow> round_env list \<Rightarrow> failover \<Rightarrow> (outcome \<times> string set \<times> accountPool) option" where
  "failover_loop acq hints [] st = None"
| "failover_loop acq hints (env # envs) st = (case failover_round acq hints env st of
       Next st \<Rightarrow> failover_loop acq hints envs st | Done r ex p \<Rightarrow> Some (r, ex, p) | Stuck \<Rightarrow> None)"

definition failover_start :: "accountPool \<Rightarrow> failover" where
  "failover_start p = \<lparr>fo_exclude = {}, fo_refused = None, fo_credErr = None, fo_pool = p\<rparr>"

definition pool_acquire :: "string \<Rightarrow> routeHints \<Rightarrow> acquirer" where
  "pool_acquire primaryPath hints envs exclude p = acquire primaryPath hints envs None exclude p"

definition doAuthenticatedWith ::
  "string \<Rightarrow> routeHints \<Rightarrow> round_env list \<Rightarrow> accountPool \<Rightarrow> (outcome \<times> string set \<times> accountPool) option" where
  "doAuthenticatedWith primaryPath hints envs p =
     failover_loop (pool_acquire primaryPath hints) hints envs (failover_start p)"

section \<open>Headers\<close>

record header_cfg =
  hc_Originator :: string
  hc_UserAgent :: string
  hc_ClientVersion :: string
  hc_platform :: string   \<comment> \<open>\<open>runtime.GOOS; runtime.GOARCH\<close>\<close>

definition defaultOriginator :: string where
  "defaultOriginator = ''codex_exec''"

definition set_if :: "bool \<Rightarrow> string \<Rightarrow> string \<Rightarrow> (string \<times> string) list \<Rightarrow> (string \<times> string) list" where
  "set_if b k v h = (if b then AList.update k v h else h)"

definition headersWithTier ::
  "header_cfg \<Rightarrow> credentials \<Rightarrow> bool \<Rightarrow> string \<Rightarrow> string \<Rightarrow> bool \<Rightarrow> (string \<times> string) list" where
  "headersWithTier cfg cred stream requestID serviceTier fastMode = (let
     h = [(''Authorization'', ''Bearer '' @ cr_AccessToken cred)];
     h = AList.update ''Originator'' (if hc_Originator cfg = [] then defaultOriginator else hc_Originator cfg) h;
     h = AList.update ''User-Agent'' (if hc_UserAgent cfg = []
           then ''openai-api-server-via-codex/'' @ hc_ClientVersion cfg @ '' ('' @ hc_platform cfg @ '')''
           else hc_UserAgent cfg) h;
     h = set_if (serviceTier \<noteq> []) ''X-Service-Tier'' serviceTier h;
     h = set_if fastMode ''X-Fast-Mode'' ''true'' h;
     h = set_if (cr_AccountID cred \<noteq> []) ''Chatgpt-Account-Id'' (cr_AccountID cred) h;
     h = set_if stream ''Accept'' ''text/event-stream'' h;
     h = set_if stream ''Content-Type'' ''application/json'' h;
     h = set_if stream ''Openai-Beta'' ''responses=experimental'' h;
     h = set_if (requestID \<noteq> []) ''Session_id'' requestID h
     in set_if (requestID \<noteq> []) ''X-Client-Request-Id'' requestID h)"

section \<open>What the pool promises\<close>

text \<open>
  The interface of the loop: \<open>acq\<close> gives out accounts that this request has not tried, remembers
  what it tried itself, and keeps the books of the pool: an account given out is held once more.
\<close>

definition granted :: "go_error + accountLease \<Rightarrow> addr multiset \<Rightarrow> addr multiset" where
  "granted r L = (case r of Inl e \<Rightarrow> L | Inr lease \<Rightarrow> add_mset (le_acct lease) L)"

definition refusal :: "http_answer \<Rightarrow> bool" where
  "refusal a = (an_status a = 401 \<or> an_status a = 429)"

text \<open>What a request holds when it is over: the account of an answer that is no refusal.\<close>

definition held :: "outcome \<Rightarrow> addr multiset \<Rightarrow> addr multiset" where
  "held r L = (case r of Inl e \<Rightarrow> L | Inr (a, lease) \<Rightarrow> if refusal a then L else add_mset (le_acct lease) L)"

locale account_source =
  fixes acq :: acquirer
  assumes fresh: "acq env ex p = Some (Inr lease, ex', p') \<Longrightarrow> le_id lease \<notin> ex' \<and> ex \<subseteq> ex'"
    and books: "acq env ex p = Some (r, ex', p') \<Longrightarrow> load_inv p L \<Longrightarrow> load_inv p' (granted r L)"
    and exhausted: "acq env ex p = Some (Inl e, ex', p') \<Longrightarrow> candidates ex' p' = []"

lemma sendOnAccount_lease:
  "sendOnAccount env lease = (lease', r) \<Longrightarrow> le_id lease' = le_id lease \<and> le_acct lease' = le_acct lease"
  by (auto simp: sendOnAccount_def exchange_result_def Let_def split: sum.splits if_splits)

lemma cooldown_for_refusal: "refusal a \<Longrightarrow> \<exists>x. cooldownForStatus (an_status a) h doc now = Some x"
  unfolding refusal_def cooldownForStatus_def Let_def by (elim disjE) (simp_all del: split_paired_Ex)

lemma settle_cases:
  obtains (again) delay reason where "refusal a"
      "settle env lease a st = Next (st\<lparr>fo_exclude := insert (le_id lease) (fo_exclude st), fo_refused := Some (a, lease),
         fo_pool := condemn env lease delay reason (status_detail (an_status a)) (fo_pool st)\<rparr>)"
  | (final) "\<not> refusal a" "settle env lease a st = Done (Inr (a, lease)) (fo_exclude st) (fo_pool st)"
proof (cases "refusal a")
  case True
  then obtain delay reason where "cooldownForStatus (an_status a) (an_headers a) (an_doc a) (rn_now env) = Some (delay, reason)"
    using cooldown_for_refusal by fastforce
  then show ?thesis
    using True by (intro again) (auto simp: settle_def refusal_def)
next
  case False
  then show ?thesis
    by (intro final) (auto simp: settle_def refusal_def)
qed

lemma load_inv_observed: "load_inv p L \<Longrightarrow> load_inv (observed env lease a p) L"
  unfolding observed_def observe_def by (rule load_inv_upd) (auto simp: Let_def split: option.split)

lemma load_inv_release: "load_inv p (add_mset a L) \<Longrightarrow> load_inv (release a p) L"
  using load_inv_drop [of p "add_mset a L" a "\<lambda>x. x\<lparr>ac_inflight := ac_inflight x - 1\<rparr>"] by (simp add: release_def)

lemma load_inv_coolDown: "load_inv p L \<Longrightarrow> load_inv (coolDown now d a delay reason detail p) L"
  unfolding coolDown_def by (rule load_inv_upd) auto

lemma load_inv_condemn: "load_inv p (add_mset (le_acct lease) L) \<Longrightarrow> load_inv (condemn env lease w r d p) L"
  by (simp add: condemn_def load_inv_release load_inv_coolDown)

text \<open>What a round leaves when it is given an account.\<close>

definition round_ok :: "accountLease \<Rightarrow> string set \<Rightarrow> addr multiset \<Rightarrow> round_result \<Rightarrow> bool" where
  "round_ok lease ex L res = (case res of
       Next st \<Rightarrow> fo_exclude st = insert (le_id lease) ex \<and> load_inv (fo_pool st) L
         \<and> (\<forall>a l. fo_refused st = Some (a, l) \<longrightarrow> refusal a)
     | Done r ex' p \<Rightarrow> load_inv p (held r L) \<and> (\<forall>a l. r = Inr (a, l) \<longrightarrow> \<not> refusal a)
     | Stuck \<Rightarrow> False)"

lemma settle_ok:
  assumes "load_inv (fo_pool st) (add_mset (le_acct lease) L)"
  shows "round_ok lease (fo_exclude st) L (settle env lease a st)"
proof (cases rule: settle_cases [of a env lease st])
  case (again delay reason)
  then show ?thesis
    using load_inv_condemn [OF assms] by (simp add: round_ok_def)
next
  case final
  then show ?thesis
    using assms by (simp add: round_ok_def held_def)
qed

lemma round_ok_lease: "le_id l = le_id l' \<Longrightarrow> round_ok l ex L r = round_ok l' ex L r"
  by (auto simp: round_ok_def split: round_result.split)

lemma on_account_ok:
  assumes "load_inv (fo_pool st) (add_mset (le_acct lease) L)" "\<And>a l. fo_refused st = Some (a, l) \<Longrightarrow> refusal a"
  shows "round_ok lease (fo_exclude st) L (on_account hints env lease st)"
proof -
  obtain lease1 r1 where s1: "sendOnAccount (rn_send env) lease = (lease1, r1)"
    by (cases "sendOnAccount (rn_send env) lease")
  note l1 = sendOnAccount_lease [OF s1]
  show ?thesis
  proof (cases r1)
    case (Inl e)
    then show ?thesis
      using assms l1 load_inv_release [OF assms(1)]
      by (cases e) (auto simp: on_account_def s1 round_ok_def held_def load_inv_coolDown)
  next
    case (Inr a)
    let ?st = "st\<lparr>fo_pool := observed env lease1 a (fo_pool st)\<rparr>"
    have i1: "load_inv (fo_pool ?st) (add_mset (le_acct lease1) L)"
      using assms(1) l1 by (simp add: load_inv_observed)
    show ?thesis
    proof (cases "reasoning_rejected hints lease1 a")
      case False
      then show ?thesis
        using settle_ok [OF i1, of env a] l1 round_ok_lease [of lease1 lease]
        by (simp add: on_account_def s1 Inr)
    next
      case True
      obtain lease2 r2 where s2: "sendOnAccount (rn_resend env) (lease1\<lparr>le_pinMissed := True\<rparr>) = (lease2, r2)"
        by (cases "sendOnAccount (rn_resend env) (lease1\<lparr>le_pinMissed := True\<rparr>)")
      have l2: "le_id lease2 = le_id lease" "le_acct lease2 = le_acct lease"
        using sendOnAccount_lease [OF s2] l1 by simp_all
      show ?thesis
      proof (cases r2)
        case (Inl e)
        then show ?thesis
          using True i1 l1 l2 load_inv_release [of "fo_pool ?st" "le_acct lease" L]
          by (simp add: on_account_def s1 Inr s2 round_ok_def held_def)
      next
        case Inr': (Inr a2)
        let ?st2 = "?st\<lparr>fo_pool := observed env lease2 a2 (fo_pool ?st)\<rparr>"
        have "load_inv (fo_pool ?st2) (add_mset (le_acct lease2) L)"
          using i1 l1 l2 by (simp add: load_inv_observed)
        from settle_ok [OF this, of env a2] show ?thesis
          using True l2 round_ok_lease [of lease2 lease] by (simp add: on_account_def s1 Inr s2 Inr')
      qed
    qed
  qed
qed

context account_source
begin

lemma round_ok:
  assumes "failover_round acq hints env st = res" "res \<noteq> Stuck" "load_inv (fo_pool st) L"
    and "\<And>a l. fo_refused st = Some (a, l) \<Longrightarrow> refusal a"
  shows "(\<exists>e ex p. res = Done (no_account e st) ex p \<and> load_inv p L \<and> candidates ex p = [])
    \<or> (\<exists>lease ex. le_id lease \<notin> ex \<and> fo_exclude st \<subseteq> ex \<and> round_ok lease ex L res)"
proof -
  obtain r ex p where a: "acq (rn_acquire env) (fo_exclude st) (fo_pool st) = Some (r, ex, p)"
    using assms(1,2) by (cases "acq (rn_acquire env) (fo_exclude st) (fo_pool st)") (auto simp: failover_round_def)
  note b = books [OF a assms(3)]
  show ?thesis
  proof (cases r)
    case (Inl e)
    then show ?thesis
      using assms(1) a b exhausted [of "rn_acquire env" _ _ e ex p] by (auto simp: failover_round_def granted_def)
  next
    case (Inr lease)
    have "round_ok lease ex L (on_account hints env lease (st\<lparr>fo_exclude := ex, fo_pool := p\<rparr>))"
      using on_account_ok [of "st\<lparr>fo_exclude := ex, fo_pool := p\<rparr>" lease L hints env] b Inr assms(4)
      by (simp add: granted_def)
    then show ?thesis
      using assms(1) a Inr fresh [of "rn_acquire env" "fo_exclude st" "fo_pool st" lease ex p] by (auto simp: failover_round_def)
  qed
qed

lemma round_progress:
  assumes "failover_round acq hints env st = Next st'"
  shows "\<exists>i. i \<notin> fo_exclude st \<and> i \<in> fo_exclude st' \<and> fo_exclude st \<subseteq> fo_exclude st'"
proof -
  obtain lease ex p where a: "acq (rn_acquire env) (fo_exclude st) (fo_pool st) = Some (Inr lease, ex, p)"
    and n: "on_account hints env lease (st\<lparr>fo_exclude := ex, fo_pool := p\<rparr>) = Next st'"
    using assms by (auto simp: failover_round_def split: option.splits sum.splits)
  have "fo_exclude st' = insert (le_id lease) ex"
    using n sendOnAccount_lease
    by (auto simp: on_account_def settle_def Let_def split: prod.splits sum.splits send_error.splits if_splits option.splits)
  then show ?thesis
    using fresh [OF a] by auto
qed

lemma loop_ok:
  assumes "failover_loop acq hints envs st = Some (r, ex, p')" "load_inv (fo_pool st) L"
    and "\<And>a l. fo_refused st = Some (a, l) \<Longrightarrow> refusal a"
  shows "load_inv p' (held r L) \<and> (\<forall>a l. r = Inr (a, l) \<and> refusal a \<longrightarrow> candidates ex p' = [])"
  using assms
proof (induction envs arbitrary: st)
  case (Cons env envs)
  have ok: "(\<exists>e ex p. failover_round acq hints env st = Done (no_account e st) ex p \<and> load_inv p L \<and> candidates ex p = [])
    \<or> (\<exists>lease ex. le_id lease \<notin> ex \<and> fo_exclude st \<subseteq> ex \<and> round_ok lease ex L (failover_round acq hints env st))"
    if "failover_round acq hints env st \<noteq> Stuck"
    by (rule round_ok [OF refl that Cons.prems(2)]) (rule Cons.prems(3))
  show ?case
  proof (cases "failover_round acq hints env st")
    case (Next st')
    then obtain lease ex1 where "round_ok lease ex1 L (Next st')"
      using ok by auto
    then have "load_inv (fo_pool st') L" "\<And>a l. fo_refused st' = Some (a, l) \<Longrightarrow> refusal a"
      by (simp_all add: round_ok_def)
    then show ?thesis
      using Cons.IH [of st'] Cons.prems(1) Next by simp
  next
    case (Done r' ex' q)
    then have r: "r = r'" "ex = ex'" "p' = q"
      using Cons.prems(1) by simp_all
    have "(\<exists>e. r' = no_account e st \<and> load_inv q L \<and> candidates ex' q = [])
      \<or> load_inv q (held r' L) \<and> (\<forall>a l. r' = Inr (a, l) \<longrightarrow> \<not> refusal a)"
      using ok unfolding Done by (auto simp: round_ok_def)
    then show ?thesis
      using Cons.prems(3) unfolding r by (cases "fo_refused st") (auto simp: no_account_def held_def)
  qed (use Cons.prems in simp)
qed simp

end

text \<open>
  When the accounts that can ever appear are within a finite set, the pool always answers, and
  gives out accounts of that set: this is what makes the loop end.
\<close>

definition ids_within :: "string set \<Rightarrow> accountPool \<Rightarrow> bool" where
  "ids_within A p \<longleftrightarrow> pool_wf p \<and> fst ` set (po_accounts p) \<subseteq> A"

definition acquires_within :: "string set \<Rightarrow> acquire_env list \<Rightarrow> bool" where
  "acquires_within A envs \<longleftrightarrow> list_all (\<lambda>e. set (present_ids (aq_disk e)) \<subseteq> A) envs \<and> card A < length envs"

abbreviation round_within :: "string set \<Rightarrow> round_env \<Rightarrow> bool" where
  "round_within A env \<equiv> acquires_within A (rn_acquire env)"

locale total_account_source = account_source +
  assumes total: "finite A \<Longrightarrow> ids_within A p \<Longrightarrow> acquires_within A env \<Longrightarrow> ex \<subseteq> A \<Longrightarrow>
    \<exists>r ex' p'. acq env ex p = Some (r, ex', p') \<and> ids_within A p' \<and> ex' \<subseteq> A \<and> (\<forall>lease. r = Inr lease \<longrightarrow> le_id lease \<in> A)"

lemma ids_within_upd: "ids_within A p \<Longrightarrow> (\<And>x. ac_id (f x) = ac_id x) \<Longrightarrow> ids_within A (upd a f p)"
  by (simp add: ids_within_def pool_wf_upd) (simp add: upd_def)

lemma ids_within_observed: "ids_within A p \<Longrightarrow> ids_within A (observed env lease a p)"
  unfolding observed_def observe_def by (rule ids_within_upd) (auto simp: Let_def split: option.split)

lemma ids_within_release: "ids_within A p \<Longrightarrow> ids_within A (release a p)"
  unfolding release_def by (rule ids_within_upd) auto

lemma ids_within_coolDown: "ids_within A p \<Longrightarrow> ids_within A (coolDown now d a delay reason detail p)"
  unfolding coolDown_def by (rule ids_within_upd) auto

lemma settle_next:
  "settle env lease a st = Next st' \<Longrightarrow> ids_within A (fo_pool st) \<Longrightarrow>
     ids_within A (fo_pool st') \<and> fo_exclude st' = insert (le_id lease) (fo_exclude st)"
  by (auto simp: settle_def condemn_def ids_within_release ids_within_coolDown split: option.splits if_splits)

lemma on_account_next:
  assumes "on_account hints env lease st = Next st'" "ids_within A (fo_pool st)"
  shows "ids_within A (fo_pool st') \<and> fo_exclude st' = insert (le_id lease) (fo_exclude st)"
proof -
  obtain lease1 r1 where s1: "sendOnAccount (rn_send env) lease = (lease1, r1)"
    by (cases "sendOnAccount (rn_send env) lease")
  note l1 = sendOnAccount_lease [OF s1]
  show ?thesis
  proof (cases r1)
    case (Inl e)
    then show ?thesis
      using assms l1 by (cases e) (auto simp: on_account_def s1 ids_within_coolDown ids_within_release)
  next
    case (Inr a)
    let ?st = "st\<lparr>fo_pool := observed env lease1 a (fo_pool st)\<rparr>"
    have i: "ids_within A (fo_pool ?st)"
      using assms(2) by (simp add: ids_within_observed)
    obtain lease2 r2 where s2: "sendOnAccount (rn_resend env) (lease1\<lparr>le_pinMissed := True\<rparr>) = (lease2, r2)"
      by (cases "sendOnAccount (rn_resend env) (lease1\<lparr>le_pinMissed := True\<rparr>)")
    note l2 = sendOnAccount_lease [OF s2]
    have un: "on_account hints env lease st = (if reasoning_rejected hints lease1 a then
        (case r2 of Inl e \<Rightarrow> Done (Inl (send_failure e)) (fo_exclude st) (release (le_acct lease2) (fo_pool ?st))
         | Inr a2 \<Rightarrow> settle env lease2 a2 (?st\<lparr>fo_pool := observed env lease2 a2 (fo_pool ?st)\<rparr>))
        else settle env lease1 a ?st)"
      by (simp add: on_account_def s1 s2 Inr Let_def split: sum.split)
    show ?thesis
    proof (cases "reasoning_rejected hints lease1 a")
      case False
      then show ?thesis
        using assms(1) settle_next [of env lease1 a ?st st' A] i l1 by (simp add: un)
    next
      case True
      then obtain a2 where r2: "r2 = Inr a2"
        and n: "settle env lease2 a2 (?st\<lparr>fo_pool := observed env lease2 a2 (fo_pool ?st)\<rparr>) = Next st'"
        using assms(1) by (cases r2) (simp_all add: un)
      show ?thesis
        using settle_next [OF n, of A] ids_within_observed [OF i, of env lease2 a2] l1 l2 by simp
    qed
  qed
qed

lemma on_account_not_stuck: "on_account hints env lease st \<noteq> Stuck"
  by (auto simp: on_account_def settle_def Let_def split: prod.splits sum.splits send_error.splits option.splits)

context total_account_source
begin

lemma loop_terminates:
  assumes "finite A" "fo_exclude st \<subseteq> A" "ids_within A (fo_pool st)"
    and "card (A - fo_exclude st) < length envs" "\<And>env. env \<in> set envs \<Longrightarrow> round_within A env"
  shows "failover_loop acq hints envs st \<noteq> None"
  using assms(2-)
proof (induction envs arbitrary: st)
  case (Cons env envs)
  obtain r ex p where a: "acq (rn_acquire env) (fo_exclude st) (fo_pool st) = Some (r, ex, p)"
    and w: "ids_within A p" "ex \<subseteq> A" "\<And>lease. r = Inr lease \<Longrightarrow> le_id lease \<in> A"
    using total [OF assms(1) Cons.prems(2) _ Cons.prems(1), of "rn_acquire env"] Cons.prems(4) by auto
  show ?case
  proof (cases r)
    case (Inl e)
    then show ?thesis
      by (simp add: failover_round_def a)
  next
    case (Inr lease)
    let ?st = "st\<lparr>fo_exclude := ex, fo_pool := p\<rparr>"
    have res: "failover_round acq hints env st = on_account hints env lease ?st"
      by (simp add: failover_round_def a Inr)
    show ?thesis
    proof (cases "on_account hints env lease ?st")
      case (Next st')
      have n: "ids_within A (fo_pool st')" "fo_exclude st' = insert (le_id lease) ex"
        using on_account_next [OF Next, of A] w(1) by simp_all
      have f: "le_id lease \<notin> ex" "fo_exclude st \<subseteq> ex" "le_id lease \<in> A"
        using fresh [of "rn_acquire env" "fo_exclude st" "fo_pool st" lease ex p] a Inr w(3) by auto
      have "A - fo_exclude st' \<subset> A - fo_exclude st"
        using n(2) f by auto
      then have "card (A - fo_exclude st') < card (A - fo_exclude st)"
        using assms(1) by (intro psubset_card_mono) auto
      moreover have "fo_exclude st' \<subseteq> A"
        using n(2) f(3) w(2) by simp
      ultimately show ?thesis
        using Cons.IH [of st'] n(1) Cons.prems(3,4) by (simp add: res Next)
    qed (simp_all add: res on_account_not_stuck)
  qed
qed simp

end

section \<open>The pool keeps its promises\<close>

lemma candidates_affinity [simp]: "candidates ex (p\<lparr>po_affinity := x\<rparr>) = candidates ex p"
  by (simp add: candidates_def ordered_def orderedIds_def account_at_def)

lemma choose_none: "chooseLocked now hints ex p = (None, p') \<Longrightarrow> candidates ex p' = []"
proof -
  assume c: "chooseLocked now hints ex p = (None, p')"
  obtain pinned p1 where pb: "pinned_by now (rh_reasoningKeys hints) p = (pinned, p1)"
    by (cases "pinned_by now (rh_reasoningKeys hints) p")
  have "candidates ex p = []"
    using c pb by (cases rule: choose_cases) auto
  moreover obtain x where "p' = p\<lparr>po_affinity := x\<rparr>"
    using choose_frame [OF c] by blast
  ultimately show ?thesis by simp
qed

lemma take_choice:
  assumes "acquire_take now d hints ex ce p = (r, p')"
  obtains q q' where "chooseLocked now hints ex q = (r, q')" "q = maybeRescan now d p \<or> (\<exists>t. q = rescan now d t)"
    "p' = (case r of None \<Rightarrow> q' | Some (a, m) \<Rightarrow> upd a (take_account now) q')"
proof -
  obtain r1 p1 where c: "chooseLocked now hints ex (maybeRescan now d p) = (r1, p1)"
    by (cases "chooseLocked now hints ex (maybeRescan now d p)")
  have ex: "\<exists>t. rescan now d p1 = rescan now d t"
    by blast
  show ?thesis
    using assms that [of "maybeRescan now d p"] that [of "rescan now d p1"] c ex
    by (auto simp: acquire_take_def acquire_choice_def split: option.splits prod.splits if_splits)
qed

lemma taken_id: "chooseLocked now hints ex q = (Some (a, m), q') \<Longrightarrow> ac_id (po_heap (upd a (take_account now) q') a) \<notin> ex"
proof -
  assume c: "chooseLocked now hints ex q = (Some (a, m), q')"
  obtain x where "q' = q\<lparr>po_affinity := x\<rparr>"
    using choose_frame [OF c] by blast
  then show ?thesis
    using choose_candidate [OF c] by (simp add: candidates_def count_upd take_account_def)
qed

lemma acquire_fresh:
  "acquire path hints envs ce ex p = Some (Inr lease, ex', p') \<Longrightarrow> le_id lease \<notin> ex' \<and> ex \<subseteq> ex'"
proof (induction path hints envs ce ex p rule: acquire.induct)
  case (2 path hints env envs ce ex p)
  obtain r p1 where t: "acquire_take (aq_now env) (aq_disk env) hints ex ce p = (r, p1)"
    by (cases "acquire_take (aq_now env) (aq_disk env) hints ex ce p")
  then obtain a m where r: "r = Some (a, m)"
    using 2(2) by (cases r) auto
  obtain q q' where "chooseLocked (aq_now env) hints ex q = (Some (a, m), q')" "p1 = upd a (take_account (aq_now env)) q'"
    by (rule take_choice [OF t]) (simp add: r)
  then have new: "ac_id (po_heap p1 a) \<notin> ex"
    using taken_id by simp
  show ?case
    using 2 new by (auto simp: t r Let_def split: sum.splits)
qed simp

lemma acquire_exhausted: "acquire path hints envs ce ex p = Some (Inl e, ex', p') \<Longrightarrow> candidates ex' p' = []"
proof (induction path hints envs ce ex p rule: acquire.induct)
  case (2 path hints env envs ce ex p)
  obtain r p1 where t: "acquire_take (aq_now env) (aq_disk env) hints ex ce p = (r, p1)"
    by (cases "acquire_take (aq_now env) (aq_disk env) hints ex ce p")
  show ?case
  proof (cases r)
    case None
    have "candidates ex p1 = []"
      by (rule take_choice [OF t]) (auto simp: None dest: choose_none)
    then show ?thesis
      using 2(2) by (simp add: t None)
  next
    case (Some am)
    then show ?thesis
      using 2 by (cases am) (auto simp: t Let_def split: sum.splits)
  qed
qed simp

lemma acquire_books:
  "acquire path hints envs ce ex p = Some (r, ex', p') \<Longrightarrow> load_inv p L \<Longrightarrow> load_inv p' (granted r L)"
proof (induction path hints envs ce ex p rule: acquire.induct)
  case (2 path hints env envs ce ex p)
  obtain r1 p1 where t: "acquire_take (aq_now env) (aq_disk env) hints ex ce p = (r1, p1)"
    by (cases "acquire_take (aq_now env) (aq_disk env) hints ex ce p")
  note i = acquire_take_inv [OF t 2(3)]
  show ?case
  proof (cases r1)
    case None
    then show ?thesis
      using 2(2) i by (auto simp: t granted_def)
  next
    case (Some am)
    obtain a m where am: "am = (a, m)" by (cases am)
    have f: "load_inv (borrow_failed now msg a p1) L" for now msg
      using load_inv_drop [of p1 "add_mset a L" a] i Some am by (simp add: borrow_failed_def)
    show ?thesis
    proof (cases "aq_borrow env (ac_id (po_heap p1 a))")
      case (Inl err)
      then show ?thesis
        using 2(1) [OF t [symmetric] Some am [symmetric] refl Inl _ f] 2(2) by (simp add: t Some am)
    next
      case (Inr cred)
      then show ?thesis
        using 2(2) i by (auto simp: t Some am granted_def acquire_remember_def Let_def split: if_splits)
    qed
  qed
qed simp

interpretation pool_source: account_source "pool_acquire path hints"
  by unfold_locales (auto simp: pool_acquire_def dest: acquire_fresh acquire_exhausted acquire_books)

lemma add_all_ids: "fst ` set (po_accounts (fold add_account ids p)) = fst ` set (po_accounts p) \<union> set ids"
proof (induction ids arbitrary: p)
  case (Cons i ids)
  have "fst ` set (po_accounts (add_account i p)) = insert i (fst ` set (po_accounts p))"
    by (auto simp: add_account_def account_at_def map_of_eq_None_iff)
  then show ?case
    using Cons.IH [of "add_account i p"] by simp
qed simp

lemma lift_all_accounts: "po_accounts (fold (lift_cooldown d) as p) = po_accounts p"
  by (induction as arbitrary: p) (simp_all add: lift_cooldown_def Let_def upd_def)

lemma rescan_ids: "fst ` set (po_accounts (rescan now d p)) = set (present_ids d)"
  by (auto simp: rescan_def Let_def lift_all_accounts add_all_ids)

lemma pool_wf_rescan: "pool_wf p \<Longrightarrow> pool_wf (rescan now d p)"
proof -
  assume "pool_wf p"
  then have "pool_wf (p\<lparr>po_scannedAt := now, po_accounts := filter (\<lambda>(id', a). id' \<in> set (present_ids d)) (po_accounts p)\<rparr>)"
    by (auto simp: pool_wf_def distinct_map_filter)
  then show ?thesis
    unfolding rescan_def Let_def pool_wf_fields
    by (auto intro!: fold_invariant [where P = pool_wf] pool_wf_lift pool_wf_add_account)
qed

lemma ids_within_rescan: "ids_within A p \<Longrightarrow> set (present_ids d) \<subseteq> A \<Longrightarrow> ids_within A (rescan now d p)"
  by (simp add: ids_within_def rescan_ids pool_wf_rescan)

lemma ids_within_choose:
  assumes "chooseLocked now hints ex p = (r, p')" "ids_within A p"
  shows "ids_within A p' \<and> (\<forall>a m. r = Some (a, m) \<longrightarrow> ac_id (po_heap p' a) \<in> A)"
proof -
  obtain x where p': "p' = p\<lparr>po_affinity := x\<rparr>"
    using choose_frame [OF assms(1)] by blast
  have "ac_id (po_heap p a) \<in> A" if "r = Some (a, m)" for a m
  proof -
    have "account_at p (ac_id (po_heap p a)) = Some a"
      using choose_candidate [of now hints ex p a m p'] assms that candidates_account [of p a ex]
      by (simp add: ids_within_def)
    then have "ac_id (po_heap p a) \<in> fst ` set (po_accounts p)"
      by (force simp: account_at_def dest: map_of_SomeD)
    then show ?thesis
      using assms(2) by (auto simp: ids_within_def)
  qed
  then show ?thesis
    using assms(2) by (simp add: p' ids_within_def)
qed

lemma ids_within_take:
  assumes t: "acquire_take now d hints ex ce p = (r, p')" and i: "ids_within A p" "set (present_ids d) \<subseteq> A"
  shows "ids_within A p' \<and> (\<forall>a m. r = Some (a, m) \<longrightarrow> ac_id (po_heap p' a) \<in> A)"
proof -
  have m: "ids_within A (maybeRescan now d p)"
    using i by (simp add: maybeRescan_def ids_within_rescan)
  have up: "ids_within A (upd a (take_account now) q) \<and> ac_id (po_heap (upd a (take_account now) q) a) = ac_id (po_heap q a)"
    if "ids_within A q" for q a
    using ids_within_upd [OF that, of "take_account now" a] by (simp add: take_account_def count_upd)
  obtain r1 p1 where c: "chooseLocked now hints ex (maybeRescan now d p) = (r1, p1)"
    by (cases "chooseLocked now hints ex (maybeRescan now d p)")
  note c1 = ids_within_choose [OF c m]
  obtain r2 p2 where c': "chooseLocked now hints ex (rescan now d p1) = (r2, p2)"
    by (cases "chooseLocked now hints ex (rescan now d p1)")
  note c2 = ids_within_choose [OF c', of A] ids_within_rescan [of A p1 d now] i(2)
  have ch: "acquire_choice now d hints ex ce p =
      (case r1 of Some x \<Rightarrow> (Some x, p1) | None \<Rightarrow> if ce = None \<and> ex = {} then (r2, p2) else (None, p1))"
    using c c' by (cases "ex = {}") (auto simp: acquire_choice_def split: option.split)
  show ?thesis
    using t c1 c2 up by (auto simp: acquire_take_def ch split: option.splits if_splits)
qed

lemma acquire_total:
  assumes "finite A" "ids_within A p" "ex \<subseteq> A" "card (A - ex) < length envs"
    and "list_all (\<lambda>e. set (present_ids (aq_disk e)) \<subseteq> A) envs"
  shows "\<exists>r ex' p'. acquire path hints envs ce ex p = Some (r, ex', p') \<and> ids_within A p' \<and> ex' \<subseteq> A
    \<and> (\<forall>lease. r = Inr lease \<longrightarrow> le_id lease \<in> A)"
  using assms(2-)
proof (induction envs arbitrary: ce ex p)
  case (Cons env envs)
  obtain r1 p1 where t: "acquire_take (aq_now env) (aq_disk env) hints ex ce p = (r1, p1)"
    by (cases "acquire_take (aq_now env) (aq_disk env) hints ex ce p")
  have w: "ids_within A p1" "\<And>a m. r1 = Some (a, m) \<Longrightarrow> ac_id (po_heap p1 a) \<in> A"
    using ids_within_take [OF t Cons.prems(1)] Cons.prems(4) by auto
  show ?case
  proof (cases r1)
    case None
    then show ?thesis
      using w(1) Cons.prems(2) by (simp add: t)
  next
    case (Some am)
    obtain a m where am: "am = (a, m)" by (cases am)
    let ?i = "ac_id (po_heap p1 a)"
    obtain q q' where "chooseLocked (aq_now env) hints ex q = (Some (a, m), q')" "p1 = upd a (take_account (aq_now env)) q'"
      by (rule take_choice [OF t]) (simp add: Some am)
    then have new: "?i \<notin> ex"
      using taken_id by simp
    have iA: "?i \<in> A"
      using w(2) Some am by simp
    show ?thesis
    proof (cases "aq_borrow env ?i")
      case (Inl err)
      have "ids_within A (borrow_failed (aq_now env) (error_text err) a p1)"
        unfolding borrow_failed_def by (rule ids_within_upd [OF w(1)]) simp
      moreover have "A - insert ?i ex \<subset> A - ex"
        using new iA by auto
      then have "card (A - insert ?i ex) < card (A - ex)"
        using assms(1) by (intro psubset_card_mono) auto
      ultimately show ?thesis
        using Cons.IH [of "borrow_failed (aq_now env) (error_text err) a p1" "insert ?i ex" "Some err"] Cons.prems iA
        by (simp add: t Some am Inl)
    next
      case (Inr cred)
      then show ?thesis
        using w(1) iA Cons.prems(2) by (auto simp: t Some am Let_def acquire_remember_def remember_def ids_within_def)
    qed
  qed
qed simp

interpretation pool_total: total_account_source "pool_acquire path hints"
proof
  fix A p env ex
  assume a: "finite A" "ids_within A p" "acquires_within A env" "ex \<subseteq> A"
  have "card (A - ex) \<le> card A"
    using a(1) by (intro card_mono) auto
  then show "\<exists>r ex' p'. pool_acquire path hints env ex p = Some (r, ex', p') \<and> ids_within A p' \<and> ex' \<subseteq> A
      \<and> (\<forall>lease. r = Inr lease \<longrightarrow> le_id lease \<in> A)"
    using acquire_total [of A p ex env path hints None] a
    by (simp add: pool_acquire_def acquires_within_def)
qed

section \<open>Properties of a request\<close>

lemma all_tried:
  assumes "candidates ex p = []" "pool_wf p" "account_at p i = Some x"
  shows "i \<in> ex \<or> i \<in> set (po_disabled p)"
proof -
  have ix: "(i, x) \<in> set (po_accounts p)"
    using assms(3) by (simp add: account_at_def map_of_SomeD)
  then have "x \<in> set (ordered p)"
    using ordered_set [OF assms(2)] by force
  then show ?thesis
    using assms ix by (auto simp: candidates_def filter_empty_conv pool_wf_def)
qed

lemma start_loop_ok:
  assumes "doAuthenticatedWith path hints envs p = Some (r, ex, p')" "load_inv p L"
  shows "load_inv p' (held r L) \<and> (\<forall>a l. r = Inr (a, l) \<and> refusal a \<longrightarrow> candidates ex p' = [])"
  by (rule pool_source.loop_ok [of path hints hints envs "failover_start p"])
    (use assms in \<open>simp_all add: doAuthenticatedWith_def failover_start_def\<close>)

text \<open>C4: A request never leaks load: when it is over, whatever accounts it went through and however it
  ended, the pool's counters agree with the leases outstanding before it, plus the one account whose
  answer is handed to the caller; an error or a refusal holds nothing.\<close>

theorem request_keeps_the_books:
  assumes "doAuthenticatedWith path hints envs p = Some (r, ex, p')" "load_inv p L"
  shows "load_inv p' (held r L)"
  using start_loop_ok [OF assms] by simp

text \<open>C13: A refusal (401 or 429) reaches the client only when no account is left: every account of the
  pool is disabled or was tried by this request.\<close>

theorem refusal_only_when_all_tried:
  assumes "doAuthenticatedWith path hints envs p = Some (Inr (a, lease), ex, p')" "load_inv p L" "refusal a"
    and "account_at p' i = Some x"
  shows "i \<in> ex \<or> i \<in> set (po_disabled p')"
proof -
  have "candidates ex p' = []" "pool_wf p'"
    using start_loop_ok [OF assms(1,2)] assms(3) by (auto simp: load_inv_def)
  then show ?thesis
    using all_tried assms(4) by blast
qed

text \<open>No account is tried twice: every round that goes on to another account has excluded one that
  was not excluded before.\<close>

theorem no_account_tried_twice:
  assumes "failover_round (pool_acquire path hints) hints env st = Next st'"
  shows "\<exists>i. i \<notin> fo_exclude st \<and> i \<in> fo_exclude st' \<and> fo_exclude st \<subseteq> fo_exclude st'"
  by (rule pool_source.round_progress [OF assms])

text \<open>C23: The request ends: if the accounts on disk stay within a finite set \<open>A\<close>, then one round more
  than \<open>A\<close> has members is enough, in the loop over accounts and in every \<open>acquire\<close>.\<close>

theorem failover_terminates:
  assumes "finite A" "pool_wf p" "fst ` set (po_accounts p) \<subseteq> A"
    and "card A < length envs" "list_all (round_within A) envs"
  shows "doAuthenticatedWith path hints envs p \<noteq> None"
  unfolding doAuthenticatedWith_def
  by (rule pool_total.loop_terminates [OF assms(1)])
    (use assms in \<open>auto simp: failover_start_def ids_within_def list_all_iff\<close>)

section \<open>Witnesses\<close>

text \<open>A pool with one account, on a disk with one file.\<close>

definition one_disk :: disk where
  "one_disk = sample_disk\<lparr>dk_entries := None\<rparr>"

definition sample_answer :: "int \<Rightarrow> http_answer" where
  "sample_answer status = \<lparr>an_status = status, an_headers = (\<lambda>_. []), an_body = [], an_doc = None\<rparr>"

definition sample_send :: "int \<Rightarrow> send_env" where
  "sample_send status = \<lparr>se_first = (\<lambda>l. Inr (sample_answer status)),
     se_reload = Inl (AuthFailure ''c'' ''m''), se_second = (\<lambda>l. Inr (sample_answer status))\<rparr>"

definition sample_round :: "int \<Rightarrow> round_env" where
  "sample_round status = \<lparr>rn_acquire = replicate 2 \<lparr>aq_now = 0, aq_disk = one_disk,
       aq_borrow = (\<lambda>i. Inr \<lparr>cr_AccessToken = ''t'', cr_AccountID = []\<rparr>)\<rparr>,
     rn_send = sample_send status, rn_resend = sample_send status, rn_now = 0, rn_disk = one_disk\<rparr>"

definition sample_run :: "int \<Rightarrow> (outcome \<times> string set \<times> accountPool) option" where
  "sample_run status = doAuthenticatedWith ''auth.json'' no_hints (replicate 2 (sample_round status)) (newAccountPool 0 one_disk)"

lemma run_case:
  assumes "case x of Some (Inr (a, l), ex, p) \<Rightarrow> P a l ex p | _ \<Rightarrow> False"
  obtains a l ex p where "x = Some (Inr (a, l), ex, p)" "P a l ex p"
proof -
  obtain r ex p where x: "x = Some (r, ex, p)"
    using assms by (cases x) auto
  show thesis
  proof (cases r)
    case (Inr al)
    then show thesis
      using assms x that by (cases al) simp
  qed (use assms x in simp)
qed

lemma sample_run_shape:
  "case sample_run 429 of Some (Inr (a, l), ex, p) \<Rightarrow> refusal a \<and> account_at p defaultAccountID = Some 0 | _ \<Rightarrow> False"
  by code_simp

lemma sample_run_ok:
  "case sample_run 200 of Some (Inr (a, l), ex, p) \<Rightarrow> \<not> refusal a \<and> le_acct l = 0 | _ \<Rightarrow> False"
  by code_simp

theorem request_keeps_the_books_witness:
  "\<exists>a l ex p. sample_run 200 = Some (Inr (a, l), ex, p) \<and> load_inv p {#0#}"
proof -
  obtain a l ex p where r: "sample_run 200 = Some (Inr (a, l), ex, p)" "\<not> refusal a" "le_acct l = 0"
    using sample_run_ok by (elim run_case) simp
  have "load_inv p (held (Inr (a, l)) {#})"
    using request_keeps_the_books [OF r(1) [unfolded sample_run_def] load_inv_new] .
  with r show ?thesis by (simp add: held_def)
qed

theorem refusal_only_when_all_tried_witness:
  "\<exists>a l ex p. sample_run 429 = Some (Inr (a, l), ex, p) \<and> (defaultAccountID \<in> ex \<or> defaultAccountID \<in> set (po_disabled p))"
proof -
  obtain a l ex p where r: "sample_run 429 = Some (Inr (a, l), ex, p)" "refusal a" "account_at p defaultAccountID = Some 0"
    using sample_run_shape by (elim run_case) simp
  show ?thesis
    using r(1) refusal_only_when_all_tried [OF r(1) [unfolded sample_run_def] load_inv_new r(2,3)] by blast
qed

theorem no_account_tried_twice_witness:
  "\<exists>st'. failover_round (pool_acquire ''auth.json'' no_hints) no_hints (sample_round 429) (failover_start (newAccountPool 0 one_disk)) = Next st'
     \<and> fo_exclude st' \<noteq> {}"
proof -
  have "case failover_round (pool_acquire ''auth.json'' no_hints) no_hints (sample_round 429) (failover_start (newAccountPool 0 one_disk))
      of Next st' \<Rightarrow> True | _ \<Rightarrow> False"
    by code_simp
  then obtain st' where n: "failover_round (pool_acquire ''auth.json'' no_hints) no_hints (sample_round 429)
      (failover_start (newAccountPool 0 one_disk)) = Next st'"
    by (auto split: round_result.splits)
  with no_account_tried_twice [OF n] show ?thesis by auto
qed

theorem failover_terminates_witness:
  "sample_run 429 \<noteq> None"
proof -
  have ids: "fst ` set (po_accounts (newAccountPool 0 one_disk)) = {''default''}" "set (present_ids one_disk) = {''default''}"
    by code_simp+
  have w: "round_within {''default''} (sample_round 429)"
    using ids(2) by (simp add: acquires_within_def sample_round_def list_all_iff)
  show ?thesis
    unfolding sample_run_def
    by (rule failover_terminates [of "{''default''}"]) (use ids w pool_wf_new in \<open>simp_all add: list_all_iff\<close>)
qed

end
