(* ===== verification/Server.thy ===== *)
theory Server
  imports Store Failover
begin

text \<open>
  The frame of the HTTP server (\<open>server.go\<close>): routing and the key check, the request slots, the
  backend the handlers call, paging, the model list, and the proxy's paths and headers.

  A handler gets what the code reads from the request and the backend as arguments and yields the
  response it writes and the stores it leaves.
\<close>

section \<open>Routing\<close>

datatype route =
    Health | MethodNotAllowed | Console | NotFound | BadKey | RedirectV1
  | Models | WebSocket | CreateResponse | InputTokens | ResponseResource string
  | ChatCollection | ChatResource string | Audio | Images bool | Proxy string

definition isResponseResourceRoute :: "string \<Rightarrow> string \<Rightarrow> bool" where
  "isResponseResourceRoute verb resource = (case split_on (CHR ''/'') resource of
       [p] \<Rightarrow> p \<noteq> [] \<and> (verb = ''GET'' \<or> verb = ''DELETE'')
     | [p, q] \<Rightarrow> p \<noteq> [] \<and> ((q = ''cancel'' \<and> verb = ''POST'') \<or> (q = ''input_items'' \<and> verb = ''GET''))
     | _ \<Rightarrow> False)"

definition isChatResourceRoute :: "string \<Rightarrow> string \<Rightarrow> bool" where
  "isChatResourceRoute verb resource = (case split_on (CHR ''/'') resource of
       [p] \<Rightarrow> p \<noteq> [] \<and> (verb = ''GET'' \<or> verb = ''POST'' \<or> verb = ''DELETE'')
     | [p, q] \<Rightarrow> p \<noteq> [] \<and> q = ''messages'' \<and> verb = ''GET''
     | _ \<Rightarrow> False)"

definition cut_space :: "string \<Rightarrow> (string \<times> string) option" where
  "cut_space s = (let (a, r) = span (\<lambda>c. c \<noteq> CHR '' '') s in if r = [] then None else Some (a, tl r))"

definition validBearer :: "string \<Rightarrow> string \<Rightarrow> bool" where
  "validBearer header key = (case cut_space (trim_space header) of
       None \<Rightarrow> False
     | Some (scheme, tok) \<Rightarrow> equal_fold scheme ''bearer'' \<and> trim_space tok = key)"

definition v1_route :: "string \<Rightarrow> string \<Rightarrow> route" where
  "v1_route verb path =
     (if verb = ''GET'' \<and> path = ''models'' then Models
      else if verb = ''GET'' \<and> path = ''responses'' then WebSocket
      else if verb = ''POST'' \<and> path = ''responses'' then CreateResponse
      else if verb = ''POST'' \<and> path = ''responses/input_tokens'' then InputTokens
      else if has_prefix ''responses/'' path \<and> isResponseResourceRoute verb (trim_prefix ''responses/'' path)
        then ResponseResource (trim_prefix ''responses/'' path)
      else if (verb = ''GET'' \<or> verb = ''POST'') \<and> path = ''chat/completions'' then ChatCollection
      else if has_prefix ''chat/completions/'' path \<and> isChatResourceRoute verb (trim_prefix ''chat/completions/'' path)
        then ChatResource (trim_prefix ''chat/completions/'' path)
      else if verb = ''POST'' \<and> path = ''audio/transcriptions'' then Audio
      else if verb = ''POST'' \<and> path = ''images/generations'' then Images False
      else if verb = ''POST'' \<and> path = ''images/edits'' then Images True
      else Proxy path)"

definition serveHTTP :: "string \<Rightarrow> string \<Rightarrow> string \<Rightarrow> string \<Rightarrow> route" where
  "serveHTTP APIKey verb path authorization =
     (if path = ''/healthz'' then (if verb = ''GET'' then Health else MethodNotAllowed)
      else if path = ''/ui'' \<or> has_prefix ''/ui/'' path then Console
      else if path \<noteq> ''/v1'' \<and> \<not> has_prefix ''/v1/'' path then NotFound
      else if APIKey \<noteq> [] \<and> \<not> validBearer authorization APIKey then BadKey
      else if path = ''/v1'' then RedirectV1
      else v1_route verb (trim_prefix ''/v1/'' path))"

section \<open>Slots\<close>

text \<open>\<open>slots\<close> is nil without a limit; else its capacity and how many are taken.\<close>

type_synonym slots = "(nat \<times> nat) option"

definition saturated :: http_response where
  "saturated = (let r = error_response 503
       ''Backend concurrency limit reached. Close idle WebSocket connections or retry later.'' ''api_error'' JNull JNull
     in r\<lparr>resp_headers := (''Retry-After'', ''1'') # resp_headers r\<rparr>)"

text \<open>\<open>acquireRequest\<close>: the slots after it, or what refused the request: a cancelled request gets no
  answer.\<close>

datatype slot_refusal = Cancelled | Saturated

definition acquireRequest :: "bool \<Rightarrow> slots \<Rightarrow> slot_refusal + slots" where
  "acquireRequest cancelled sl = (case sl of
       None \<Rightarrow> Inr None
     | Some (cap, used) \<Rightarrow>
         if cancelled then Inl Cancelled
         else if used < cap then Inr (Some (cap, used + 1)) else Inl Saturated)"

definition release_slot :: "slots \<Rightarrow> slots" where
  "release_slot sl = map_option (\<lambda>(cap, used). (cap, used - 1)) sl"

text \<open>What a handler that needs a slot writes: nothing, a refusal, or its answer.\<close>

definition refused_slot :: "slot_refusal \<Rightarrow> http_response option" where
  "refused_slot r = (case r of Cancelled \<Rightarrow> None | Saturated \<Rightarrow> Some saturated)"

section \<open>Small helpers\<close>

definition positiveInt :: "string \<Rightarrow> int" where
  "positiveInt s = (let v = fst (atoi s) in if 0 < v then v else 0)"

definition chatChoiceCount :: "json \<Rightarrow> int" where
  "chatChoiceCount v = (let n = intValue v in if n < 1 then 1 else n)"

definition mapOrEmpty :: "json \<Rightarrow> obj" where
  "mapOrEmpty v = (case mapAny v of Some m \<Rightarrow> m | None \<Rightarrow> [])"

definition go_obj :: "gomap \<Rightarrow> json" where
  "go_obj m = (case m of None \<Rightarrow> JNull | Some o' \<Rightarrow> JObj o')"

definition bad_json :: http_response where
  "bad_json = error_response 400 ''Invalid JSON body.'' ''invalid_request_error'' JNull JNull"

definition not_found_page :: http_response where
  "not_found_page = \<lparr>resp_status = 404, resp_headers = [(''Content-Type'', ''text/plain; charset=utf-8'')],
     resp_body = JStr ''404 page not found''\<rparr>"

definition method_not_allowed :: http_response where
  "method_not_allowed = error_response 405 ''Method not allowed.'' ''invalid_request_error'' JNull JNull"

text \<open>\<open>url.Values\<close>: \<open>Get\<close> gives the first value or the empty string.\<close>

type_synonym query = "(string \<times> string list) list"

definition qget :: "query \<Rightarrow> string \<Rightarrow> string" where
  "qget q k = (case map_of q k of Some (v # vs) \<Rightarrow> v | _ \<Rightarrow> [])"

fun after_item :: "string \<Rightarrow> obj list \<Rightarrow> obj list option" where
  "after_item x [] = None"
| "after_item x (m # ms) = (if stringValue (oget m ''id'') = x then Some ms else after_item x ms)"

definition paginateMaps :: "obj list \<Rightarrow> query \<Rightarrow> obj list \<times> bool" where
  "paginateMaps items q = (let
     items = (if qget q ''order'' = ''desc'' then rev items else items);
     after = qget q ''after'';
     items = (if after = [] then items else case after_item after items of None \<Rightarrow> items | Some r \<Rightarrow> r)
     in take_limit (positiveInt (qget q ''limit'')) items)"

text \<open>The page of a list that may be nil: an empty non-nil list is \<open>[]\<close>, a nil one \<open>null\<close>.\<close>

definition cursorPage :: "bool \<Rightarrow> obj list \<Rightarrow> bool \<Rightarrow> obj" where
  "cursorPage is_nil items has_more =
     [(''object'', JStr ''list''),
      (''data'', if is_nil then JNilArr else JArr (map JObj items)),
      (''first_id'', if items = [] then JNull else oget (hd items) ''id''),
      (''last_id'', if items = [] then JNull else oget (last items) ''id''),
      (''has_more'', JBool has_more)]"

definition models_list :: "string list \<Rightarrow> http_response" where
  "models_list ids = json_response 200 (JObj [(''object'', JStr ''list''),
     (''data'', JArr (map (\<lambda>i. JObj [(''id'', JStr i), (''object'', JStr ''model''), (''created'', JInt 0),
        (''owned_by'', JStr ''codex'')]) ids))])"

text \<open>\<open>listModels\<close>: the models Codex lists, or the defaults when it answers none; \<open>doc\<close> is the decoded
  answer, \<open>None\<close> for any failure.\<close>

definition defaultModels :: "string list" where
  "defaultModels = [''gpt-5.1'', ''gpt-5.1-codex-max'', ''gpt-5.1-codex-mini'', ''gpt-5.2'', ''gpt-5.2-codex'',
     ''gpt-5.3-codex'', ''gpt-5.3-codex-spark'', ''gpt-5.4'', ''gpt-5.4-mini'', ''gpt-5.5'', ''gpt-5.6-sol'',
     ''gpt-5.6-terra'', ''gpt-5.6-luna'']"

definition listed_model :: "json \<Rightarrow> string list" where
  "listed_model raw = (let model = mapAny raw in
     if boolValue (mget model ''supported_in_api'') \<and> mget model ''visibility'' = JStr ''list''
        \<and> stringValue (mget model ''slug'') \<noteq> []
     then [stringValue (mget model ''slug'')] else [])"

definition listModels :: "gomap option \<Rightarrow> string list" where
  "listModels doc = (case doc of
       None \<Rightarrow> defaultModels
     | Some d \<Rightarrow> (let result = concat (map listed_model (sliceAny (mget d ''models''))) in
         if result = [] then defaultModels else result))"

section \<open>The backend\<close>

text \<open>
  The interface \<open>codexBackend\<close>: what a payload meets in each attempt to send it (in the production
  backend the outcome of \<open>doAuthenticatedWith\<close> and the body of the answer), with the readers of the
  library and the retry settings that \<open>stream\<close> and \<open>collect\<close> use.
\<close>

record codexBackend =
  be_http_date :: "string \<Rightarrow> int option"
  be_decode :: "string \<Rightarrow> gomap option"
  be_now :: int
  be_cfg :: retry_cfg
  be_attempts :: "obj \<Rightarrow> nat \<Rightarrow> attempt_env"

definition backend_stream :: "codexBackend \<Rightarrow> obj \<Rightarrow> 's consumer \<Rightarrow> 's \<Rightarrow> 's \<times> go_error option" where
  "backend_stream be payload fn s =
     (case streamWithRetries (be_http_date be) (be_decode be) (be_cfg be) (be_attempts be payload) False fn 0 s of
        (s', nts, err) \<Rightarrow> (s', err))"

definition backend_collect :: "codexBackend \<Rightarrow> obj \<Rightarrow> go_error + obj" where
  "backend_collect be payload =
     fst (collect_whole (be_http_date be) (be_decode be) (be_now be) (be_cfg be) (be_attempts be payload))"

text \<open>A final response without output gets the items the stream has finished.\<close>

definition with_outputs :: "json list \<Rightarrow> obj \<Rightarrow> obj" where
  "with_outputs outputs response =
     (if sliceAny (oget response ''output'') = [] \<and> outputs \<noteq> [] then oset ''output'' (JArr outputs) response else response)"

text \<open>What the client gets: a plain answer, or a list of events, with the closing \<open>[DONE]\<close> unless the
  handler panicked.\<close>

datatype answer = PlainAnswer http_response | EventAnswer "json list" bool

text \<open>A plain answer that is written when \<open>setSSE\<close> has set its headers and nothing has removed them.\<close>

definition after_setSSE :: "http_response \<Rightarrow> http_response" where
  "after_setSSE r = r\<lparr>resp_headers := resp_headers r
     @ [(''Cache-Control'', ''no-cache''), (''Connection'', ''keep-alive''), (''X-Accel-Buffering'', ''no'')]\<rparr>"

definition panic_answer :: http_response where
  "panic_answer = error_response 500 internal_error_message ''api_error'' JNull JNull"

section \<open>The proxy\<close>

definition cleanProxyPath :: "string \<Rightarrow> string option" where
  "cleanProxyPath path = (let segments = split_on (CHR ''/'') path in
     if CHR 0x5C \<in> set path \<or> list_ex is_control path \<or> ''..'' \<in> set segments then None
     else Some (join ''/'' (filter (\<lambda>p. p \<noteq> [] \<and> p \<noteq> ''.'') segments)))"

text \<open>What \<open>url.Parse\<close> makes of the base URL.\<close>

record parsed_url =
  url_Scheme :: string
  url_Host :: string
  url_Path :: string
  url_RawQuery :: string
  url_Fragment :: string

definition trim_slashes :: "string \<Rightarrow> string" where
  "trim_slashes s = rev (dropWhile (\<lambda>c. c = CHR ''/'') (rev s))"

definition resolveProxyURL :: "parsed_url option \<Rightarrow> string \<Rightarrow> string \<Rightarrow> parsed_url option" where
  "resolveProxyURL base path query = (case cleanProxyPath path of
       None \<Rightarrow> None
     | Some cleaned \<Rightarrow> (case base of
           None \<Rightarrow> None
         | Some t \<Rightarrow>
             if (url_Scheme t \<noteq> ''http'' \<and> url_Scheme t \<noteq> ''https'') \<or> url_Host t = [] \<or> url_RawQuery t \<noteq> [] \<or> url_Fragment t \<noteq> []
             then None
             else Some (t\<lparr>url_Path := trim_slashes (url_Path t) @ ''/'' @ cleaned, url_RawQuery := query, url_Fragment := []\<rparr>)))"

text \<open>The request headers passed on, over those of \<open>headers\<close>.\<close>

definition proxied_request_headers :: "string list" where
  "proxied_request_headers = [''Accept'', ''Content-Type'', ''Idempotency-Key'', ''Openai-Beta'', ''Openai-Organization'',
     ''Openai-Project'', ''Openai-Version'']"

definition proxy_headers :: "header_cfg \<Rightarrow> credentials \<Rightarrow> headers \<Rightarrow> (string \<times> string) list" where
  "proxy_headers cfg cred h = fold (\<lambda>name acc. if h name \<noteq> [] then AList.update name (h name) acc else acc)
     proxied_request_headers (headersWithTier cfg cred False [] [] False)"

text \<open>The response headers dropped.\<close>

definition dropped_response_headers :: "string list" where
  "dropped_response_headers = [''connection'', ''content-encoding'', ''content-length'', ''keep-alive'',
     ''proxy-authenticate'', ''proxy-authorization'', ''set-cookie'', ''set-cookie2'', ''te'', ''trailer'',
     ''transfer-encoding'', ''upgrade'']"

definition copy_response_headers :: "(string \<times> string list) list \<Rightarrow> (string \<times> string) list" where
  "copy_response_headers hs = concat (map (\<lambda>(name, vs). if to_lower name \<in> set dropped_response_headers then []
       else if name = ''X-Openai-Via-Codex-Proxy'' then [] else map (Pair name) vs) hs)
     @ [(''X-Openai-Via-Codex-Proxy'', ''codex-http'')]"

text \<open>\<open>proxy\<close> and \<open>proxyTo\<close> up to the request: a refusal or the URL.\<close>

definition proxy_target :: "parsed_url option \<Rightarrow> string \<Rightarrow> string \<Rightarrow> slot_refusal + slots \<Rightarrow> http_response option + parsed_url" where
  "proxy_target base path query slot =
     (if cleanProxyPath path = None then Inl (Some (error_response 400 ''Invalid proxy path.'' ''api_error'' JNull JNull))
      else case slot of
        Inl why \<Rightarrow> Inl (refused_slot why)
      | Inr sl \<Rightarrow> (case resolveProxyURL base path query of
            None \<Rightarrow> Inl (Some (writeBackendError (BackendError 400 ''Invalid proxy path.'')))
          | Some t \<Rightarrow> Inr t))"

section \<open>Laws\<close>



subsection \<open>The proxy\<close>

definition safe_segment :: "string \<Rightarrow> bool" where
  "safe_segment p = (p \<notin> {[], ''.'', ''..''} \<and> CHR ''/'' \<notin> set p \<and> CHR 0x5C \<notin> set p \<and> \<not> list_ex is_control p)"

lemma split_on_chars: "p \<in> set (split_on d s) \<Longrightarrow> set p \<subseteq> set s"
  by (induction s arbitrary: p) (fastforce split: if_splits list.splits)+

lemma cleanProxyPath_safe:
  assumes "cleanProxyPath path = Some cleaned"
  shows "\<exists>segs. cleaned = join ''/'' segs \<and> list_all safe_segment segs"
proof -
  let ?segs = "filter (\<lambda>p. p \<noteq> [] \<and> p \<noteq> ''.'') (split_on (CHR ''/'') path)"
  have c: "cleaned = join ''/'' ?segs" "CHR 0x5C \<notin> set path" "\<not> list_ex is_control path" "''..'' \<notin> set (split_on (CHR ''/'') path)"
    using assms by (auto simp: cleanProxyPath_def Let_def split: if_splits)
  have "safe_segment p" if "p \<in> set ?segs" for p
    using that c split_on_chars [of p "CHR ''/''" path] split_on_parts [of p "CHR ''/''" path]
    by (auto simp: safe_segment_def list_ex_iff)
  then show ?thesis
    using c(1) by (auto simp: list_all_iff)
qed

text \<open>C37: The proxy stays under its base: whatever path a client sends, the target keeps the scheme and
  the host of the configured backend, and its path is the base path followed by segments none of
  which is empty, \<open>.\<close> or \<open>..\<close>, or holds a slash, a backslash or a control character.\<close>

theorem proxy_stays_under_base:
  assumes "resolveProxyURL (Some base) path query = Some target"
  shows "url_Scheme target = url_Scheme base \<and> url_Host target = url_Host base \<and> url_Fragment target = []
    \<and> (\<exists>segs. url_Path target = trim_slashes (url_Path base) @ ''/'' @ join ''/'' segs \<and> list_all safe_segment segs)"
proof -
  obtain cleaned where "cleanProxyPath path = Some cleaned"
    and t: "target = base\<lparr>url_Path := trim_slashes (url_Path base) @ ''/'' @ cleaned, url_RawQuery := query, url_Fragment := []\<rparr>"
    using assms by (auto simp: resolveProxyURL_def split: option.splits if_splits)
  then show ?thesis
    using cleanProxyPath_safe by fastforce
qed

theorem proxy_stays_under_base_witness:
  "\<exists>target. resolveProxyURL (Some \<lparr>url_Scheme = ''https'', url_Host = ''h'', url_Path = ''/b/'', url_RawQuery = [], url_Fragment = []\<rparr>)
     ''a//./c'' ''q=1'' = Some target \<and> url_Host target = ''h'' \<and> url_Path target = ''/b/a/c''"
proof -
  let ?base = "\<lparr>url_Scheme = ''https'', url_Host = ''h'', url_Path = ''/b/'', url_RawQuery = [], url_Fragment = []\<rparr>"
  have r: "resolveProxyURL (Some ?base) ''a//./c'' ''q=1''
      = Some (?base\<lparr>url_Path := ''/b/a/c'', url_RawQuery := ''q=1''\<rparr>)"
    by code_simp
  from proxy_stays_under_base [OF r] r show ?thesis by simp
qed

subsection \<open>The backend\<close>

text \<open>What the events of a stream and its consumer have in common, whatever the attempts.\<close>

abbreviation backend_events :: "codexBackend \<Rightarrow> obj \<Rightarrow> nat \<Rightarrow> gomap list \<times> go_error option" where
  "backend_events be payload k \<equiv> attempt_events (be_http_date be) (be_decode be) (be_attempts be payload k)"

context stream_consumer
begin

lemma backend_inv:
  "\<exists>k evs. prefix evs (fst (backend_events be payload k)) \<and> inv (fst (backend_stream be payload fn start)) evs"
proof -
  obtain s' nts err where r: "streamWithRetries (be_http_date be) (be_decode be) (be_cfg be) (be_attempts be payload) False fn 0 start
      = (s', nts, err)"
    by (cases "streamWithRetries (be_http_date be) (be_decode be) (be_cfg be) (be_attempts be payload) False fn 0 start")
  show ?thesis
    using stream_inv [of "be_http_date be" "be_decode be" "be_attempts be payload" "be_cfg be" False 0]
    by (simp add: backend_stream_def r)
qed

lemma backend_complete_inv:
  assumes "backend_stream be payload fn start = (s', None)"
  shows "\<exists>k evs. backend_events be payload k = (evs, None) \<and> inv s' evs"
  using assms stream_complete_inv [of "be_http_date be" "be_decode be" "be_cfg be" "be_attempts be payload" False 0 s']
  by (auto simp: backend_stream_def split: prod.splits)

end

text \<open>A backend whose every stream is one completed response without content.\<close>

definition sample_backend :: codexBackend where
  "sample_backend = \<lparr>be_http_date = (\<lambda>_. None), be_decode = sample_decode, be_now = 0,
     be_cfg = \<lparr>cfg_MaxRetries = 0, cfg_retryBaseDelay = 1\<rparr>, be_attempts = (\<lambda>payload k. sample_env)\<rparr>"

lemma sample_stream:
  "fn s sample_event = (s', None) \<Longrightarrow> backend_stream sample_backend payload fn s = (s', None)"
  by (simp add: backend_stream_def sample_backend_def streamWithRetries.simps sample_once hold_start_def hold_event_def
      forward_def sample_event_def)

lemma sample_collect: "backend_collect sample_backend payload = Inr []"
  by (simp add: backend_collect_def sample_backend_def collect_whole_def streamWithRetries.simps sample_once hold_start_def
      hold_event_def forward_def collect_event_def collect_start_def collect_result_def event_type_def sample_event_def
      cloneMap_def clone_obj_def)

end
