(* ===== verification/Responses.thy ===== *)
theory Responses
  imports Server
begin

text \<open>
  The Responses API (\<open>server.go\<close>): creating a response, collected or streamed, the resource of a
  stored response, and the token estimate.

  \<open>body\<close> is the result of \<open>decodeObject\<close> (\<open>None\<close>: an error), \<open>fresh\<close> is \<open>newID\<close> and \<open>now\<close> the clock
  in seconds.
\<close>

section \<open>Preparing a response\<close>

definition background_unsupported :: http_response where
  "background_unsupported = error_response 400
     ''Codex does not support background responses. Use foreground HTTP streaming or WebSocket mode.''
     ''invalid_request_error'' (JStr ''background'') (JStr ''unsupported_parameter'')"

definition unknown_previous :: "string \<Rightarrow> http_response" where
  "unknown_previous previous = error_response 404 (''Unknown previous_response_id: '' @ previous)
     ''invalid_request_error'' (JStr ''previous_response_id'') JNull"

text \<open>The prepared request with the conversation before it.\<close>

definition with_previous :: "responseStore \<Rightarrow> obj \<Rightarrow> http_response + obj" where
  "with_previous rs prepared = (let previous = stringValue (oget prepared ''previous_response_id'') in
     if previous = [] then Inr prepared
     else (case response_get previous rs of
         None \<Rightarrow> Inl (unknown_previous previous)
       | Some stored \<Rightarrow> Inr (oset ''input''
           (JArr (Context stored @ sliceAny (oget prepared ''input''))) prepared)))"

text \<open>The first half of \<open>createResponse\<close>: a refusal, or the prepared request, what goes downstream,
  the previous id, and whether it streams.\<close>

definition create_prepare :: "string \<Rightarrow> responseStore \<Rightarrow> gomap \<Rightarrow> http_response + obj \<times> obj \<times> string \<times> bool" where
  "create_prepare model rs body = (case body of
       None \<Rightarrow> Inl bad_json
     | Some b \<Rightarrow>
         if boolValue (oget b ''background'') then Inl background_unsupported
         else (let b = odel ''background'' b in
           case with_previous rs (prepareResponse b model) of
             Inl r \<Rightarrow> Inl r
           | Inr prepared \<Rightarrow> Inr (prepared, odel ''previous_response_id'' (clone_obj prepared),
               stringValue (oget prepared ''previous_response_id''), boolValue (oget b ''stream''))))"

text \<open>A response as it is stored and sent.\<close>

definition finished_response :: "obj \<Rightarrow> obj \<Rightarrow> string \<Rightarrow> string \<Rightarrow> rat \<Rightarrow> obj" where
  "finished_response response prepared previous fresh now = (let response = ensureResponse response prepared fresh now in
     if previous \<noteq> [] then oset ''previous_response_id'' (JStr previous) response else response)"

definition remember_response :: "obj \<Rightarrow> obj \<Rightarrow> responseStore \<Rightarrow> responseStore" where
  "remember_response prepared response rs =
     response_remember (stringValue (oget response ''id'')) (sliceAny (oget prepared ''input''), response) rs"

section \<open>Streaming responses\<close>

text \<open>
  The variables of \<open>streamResponse\<close> and what it has written.  Writing the sequence number into an
  event that is a nil map panics; \<open>rs_panicked\<close> notes it, and the error that stops the stream stands
  for the unwinding.
\<close>

record response_stream =
  rs_outputs :: "json list"
  rs_stored :: bool
  rs_seq :: int
  rs_store :: responseStore
  rs_written :: "json list"
  rs_panicked :: bool

definition final_event :: "json \<Rightarrow> bool" where
  "final_event t = (stringValue t \<in> {''response.completed'', ''response.incomplete'', ''response.failed''})"

definition response_event_step ::
  "obj \<Rightarrow> string \<Rightarrow> string \<Rightarrow> rat \<Rightarrow> response_stream consumer" where
  "response_event_step prepared previous fresh now st event = (case event of
       None \<Rightarrow> (st\<lparr>rs_panicked := True\<rparr>, Some (OtherError ''assignment to entry in nil map''))
     | Some e \<Rightarrow> (let
         st = (case mapAny (oget e ''item'') of
             Some item \<Rightarrow> if stringValue (oget e ''type'') = ''response.output_item.done''
               then st\<lparr>rs_outputs := rs_outputs st @ [JObj item]\<rparr> else st
           | None \<Rightarrow> st);
         (e, st) = (case mapAny (oget e ''response'') of
             Some response \<Rightarrow> if final_event (oget e ''type'') then
                 (let response = finished_response (with_outputs (rs_outputs st) response) prepared previous fresh now in
                  (oset ''response'' (JObj response) e,
                   if rs_stored st then st
                   else st\<lparr>rs_stored := True, rs_store := remember_response prepared response (rs_store st)\<rparr>))
               else (e, st)
           | None \<Rightarrow> (e, st));
         e = (if oget e ''sequence_number'' = JNull then oset ''sequence_number'' (JInt (rs_seq st)) e else e)
         in (st\<lparr>rs_seq := rs_seq st + 1, rs_written := rs_written st @ [JObj e]\<rparr>, None)))"

definition error_event :: "go_error \<Rightarrow> int \<Rightarrow> json" where
  "error_event err seq = (let failure = publicErrorObject err in
     JObj [(''type'', JStr ''error''), (''sequence_number'', JInt seq), (''code'', oget failure ''code''),
           (''message'', oget failure ''message''), (''param'', oget failure ''param'')])"

definition stream_answer_of :: "response_stream \<Rightarrow> go_error option \<Rightarrow> answer" where
  "stream_answer_of st err =
     (if rs_panicked st then
        (if rs_seq st = 0 then PlainAnswer (after_setSSE panic_answer)
         else EventAnswer (rs_written st) False)
      else case err of
        None \<Rightarrow> EventAnswer (rs_written st) True
      | Some e \<Rightarrow>
          if rs_seq st = 0 then PlainAnswer (writeBackendError e)
          else EventAnswer (rs_written st @ [error_event e (rs_seq st)]) True)"

definition response_stream_start :: "responseStore \<Rightarrow> response_stream" where
  "response_stream_start rs = \<lparr>rs_outputs = [], rs_stored = False, rs_seq = 0, rs_store = rs, rs_written = [],
     rs_panicked = False\<rparr>"

definition streamResponse ::
  "codexBackend \<Rightarrow> slot_refusal + slots \<Rightarrow> obj \<Rightarrow> obj \<Rightarrow> string \<Rightarrow> string \<Rightarrow> rat \<Rightarrow> responseStore
    \<Rightarrow> answer option \<times> responseStore" where
  "streamResponse be slot prepared downstream previous fresh now rs = (case slot of
       Inl why \<Rightarrow> (map_option (\<lambda>r. PlainAnswer (after_setSSE r)) (refused_slot why), rs)
     | Inr sl \<Rightarrow>
         (case backend_stream be downstream (response_event_step prepared previous fresh now) (response_stream_start rs) of
            (st, err) \<Rightarrow> (Some (stream_answer_of st err), rs_store st)))"

section \<open>Creating responses\<close>

text \<open>The whole handler: refused, streamed, or collected.\<close>

definition createResponse ::
  "string \<Rightarrow> codexBackend \<Rightarrow> string \<Rightarrow> rat \<Rightarrow> slot_refusal + slots \<Rightarrow> gomap \<Rightarrow> responseStore
    \<Rightarrow> answer option \<times> responseStore" where
  "createResponse model be fresh now slot body rs = (case create_prepare model rs body of
       Inl r \<Rightarrow> (Some (PlainAnswer r), rs)
     | Inr (prepared, downstream, previous, streaming) \<Rightarrow>
         if streaming then streamResponse be slot prepared downstream previous fresh now rs
         else (case slot of
             Inl why \<Rightarrow> (map_option PlainAnswer (refused_slot why), rs)
           | Inr sl \<Rightarrow> (case backend_collect be downstream of
                 Inl err \<Rightarrow> (Some (PlainAnswer (writeBackendError err)), rs)
               | Inr response \<Rightarrow> (let response = finished_response response prepared previous fresh now in
                   (Some (PlainAnswer (json_response 200 (JObj response))), remember_response prepared response rs)))))"

section \<open>Stored responses\<close>

definition unknown_response :: "string \<Rightarrow> http_response" where
  "unknown_response i = error_response 404 (''Unknown response_id: '' @ i) ''invalid_request_error'' (JStr ''response_id'') JNull"

text \<open>The events that replay a stored response.\<close>

definition streamStoredResponse :: "obj \<Rightarrow> json list" where
  "streamStoredResponse response = (let
     created = oset ''output'' (JArr []) (oset ''status'' (JStr ''in_progress'') (clone_obj response));
     items = sliceAny (oget response ''output'')
     in [JObj [(''type'', JStr ''response.created''), (''sequence_number'', JInt 0), (''response'', JObj created)]]
      @ map (\<lambda>(i, item). JObj [(''type'', JStr ''response.output_item.done''), (''sequence_number'', JInt (int i + 1)),
            (''output_index'', JInt (int i)), (''item'', item)]) (enumerate 0 items)
      @ [JObj [(''type'', JStr ''response.completed''), (''sequence_number'', JInt (int (length items) + 1)),
            (''response'', JObj response)]])"

definition text_part :: "string \<Rightarrow> json" where
  "text_part text = JObj [(''type'', JStr ''input_text''), (''text'', JStr text)]"

definition responseInputContent :: "json \<Rightarrow> json list" where
  "responseInputContent v = (case v of
       JNull \<Rightarrow> [text_part []]
     | JStr s \<Rightarrow> [text_part s]
     | JArr parts \<Rightarrow> concat (map (\<lambda>raw. case mapAny raw of
           Some part \<Rightarrow> [JObj (clone_obj part)] | None \<Rightarrow> []) parts)
     | JNilArr \<Rightarrow> []
     | _ \<Rightarrow> [text_part (stringValue v)])"

definition inputItemID :: "obj \<Rightarrow> nat \<Rightarrow> string" where
  "inputItemID item index = (let i = stringValue (valueOr (oget item ''id'') (oget item ''call_id'')) in
     if i \<noteq> [] then i else ''input_'' @ itoa (int index))"

definition responseInputPageItem :: "json \<Rightarrow> nat \<Rightarrow> obj" where
  "responseInputPageItem raw index = (case mapAny raw of
       None \<Rightarrow> [(''id'', JStr (''input_'' @ itoa (int index))), (''type'', JStr ''message''), (''role'', JStr ''user''),
          (''status'', JStr ''completed''), (''content'', JArr [text_part (stringValue raw)])]
     | Some m \<Rightarrow> (let
         item = clone_obj m;
         itemType = stringValue (oget item ''type'');
         role = stringValue (oget item ''role'');
         i = inputItemID item index
         in if role \<in> {''user'', ''system'', ''developer''} then
              [(''id'', JStr i), (''type'', JStr ''message''), (''role'', JStr role),
               (''status'', valueOr (oget item ''status'') (JStr ''completed'')),
               (''content'', JArr (responseInputContent (oget item ''content'')))]
            else if role = ''assistant'' then
              (let page = [(''id'', JStr i), (''type'', JStr ''message''), (''role'', JStr role),
                 (''status'', valueOr (oget item ''status'') (JStr ''completed'')),
                 (''content'', JArr [JObj [(''type'', JStr ''output_text''),
                    (''text'', JStr (contentText (oget item ''content''))), (''annotations'', JArr [])]])] in
               if oget item ''phase'' \<noteq> JNull \<and> oget item ''phase'' \<noteq> JStr []
               then oset ''phase'' (oget item ''phase'') page else page)
            else if itemType = ''function_call'' \<or> itemType = ''function_call_output'' then
              setDefault (setDefault item ''id'' (JStr i)) ''status'' (JStr ''completed'')
            else item))"

definition responseInputItems :: "query \<Rightarrow> storedResponse \<Rightarrow> http_response" where
  "responseInputItems q stored =
     (case paginateMaps (map (\<lambda>(i, raw). responseInputPageItem raw i) (enumerate 0 (EffectiveInput stored))) q of
        (items, m) \<Rightarrow> json_response 200 (JObj (cursorPage False items m)))"

definition cannot_cancel :: http_response where
  "cannot_cancel = error_response 409 ''Only queued or in-progress background responses can be cancelled.''
     ''invalid_request_error'' (JStr ''response_id'') JNull"

definition responseResource :: "string \<Rightarrow> query \<Rightarrow> string \<Rightarrow> responseStore \<Rightarrow> answer \<times> responseStore" where
  "responseResource verb q resource rs = (let parts = split_on (CHR ''/'') resource; i = hd parts in
     case response_get i rs of
       None \<Rightarrow> (PlainAnswer (unknown_response i), rs)
     | Some stored \<Rightarrow>
         if length parts = 1 then
           (if verb = ''GET'' then
              (if qget q ''stream'' = ''true'' then (EventAnswer (streamStoredResponse (Response stored)) True, rs)
               else (PlainAnswer (json_response 200 (JObj (Response stored))), rs))
            else if verb = ''DELETE'' then
              (PlainAnswer \<lparr>resp_status = 204, resp_headers = [], resp_body = JNull\<rparr>, fst (response_delete i rs))
            else (PlainAnswer method_not_allowed, rs))
         else if length parts = 2 \<and> parts ! 1 = ''cancel'' \<and> verb = ''POST'' then
           (let status = stringValue (oget (Response stored) ''status'') in
            if status \<noteq> ''queued'' \<and> status \<noteq> ''in_progress'' then (PlainAnswer cannot_cancel, rs)
            else (case response_cancel i rs of (rs, r) \<Rightarrow> (PlainAnswer (json_response 200 (go_obj r)), rs)))
         else if length parts = 2 \<and> parts ! 1 = ''input_items'' \<and> verb = ''GET'' then
           (PlainAnswer (responseInputItems q stored), rs)
         else (PlainAnswer not_found_page, rs))"

section \<open>Input tokens\<close>

text \<open>\<open>strings.Fields\<close>: how many runs of bytes without white space.  \<open>strings.Count\<close> of a word that
  does not overlap itself counts its positions.\<close>

fun count_fields :: "nat \<Rightarrow> bool \<Rightarrow> string \<Rightarrow> nat" where
  "count_fields 0 inside s = 0"
| "count_fields (Suc n) inside [] = 0"
| "count_fields (Suc n) inside (c # cs) = (case List.find (\<lambda>w. has_prefix w (c # cs)) space_seqs of
       Some w \<Rightarrow> count_fields n False (drop (length w) (c # cs))
     | None \<Rightarrow> (if inside then 0 else 1) + count_fields n True cs)"

fun count_word :: "string \<Rightarrow> string \<Rightarrow> nat" where
  "count_word w [] = 0"
| "count_word w (c # cs) = (if has_prefix w (c # cs) then 1 else 0) + count_word w cs"

text \<open>\<open>marshal\<close> stands for \<open>json.Marshal\<close>.\<close>

definition estimateTokens :: "(json \<Rightarrow> string) \<Rightarrow> obj \<Rightarrow> int" where
  "estimateTokens marshal prepared = (let
     data = marshal (oget prepared ''input'');
     words = count_fields (length data) False data;
     images = count_word ''input_image'' data;
     tools = length (sliceAny (oget prepared ''tools''));
     n = max ((length data + 3) div 4) words + images * 85 + tools * 16
     in int (max n 1))"

definition inputTokens :: "(json \<Rightarrow> string) \<Rightarrow> string \<Rightarrow> gomap \<Rightarrow> responseStore \<Rightarrow> http_response" where
  "inputTokens marshal model body rs = (case body of
       None \<Rightarrow> bad_json
     | Some b \<Rightarrow> (case with_previous rs (prepareResponse b model) of
           Inl r \<Rightarrow> r
         | Inr prepared \<Rightarrow> json_response 200 (JObj [(''object'', JStr ''response.input_tokens''),
             (''input_tokens'', JInt (estimateTokens marshal prepared))])))"

section \<open>Laws\<close>

subsection \<open>Conversations\<close>

lemma response_remembered:
  assumes "store_ok rs" "0 < st_max rs"
  shows "st_values (response_remember k ir rs) k = Some (response_entry (fst ir) (snd ir))"
  using remember_with_kept [OF assms(1), of "response_order k rs" k k "response_stored k ir"] assms
    response_order_ok [of rs k] response_order_age(1) [of k rs]
  by (simp add: response_remember_eq response_stored_def)

lemma create_prepare_Inr:
  assumes "create_prepare model rs body = Inr (prepared, downstream, previous, streaming)"
  obtains b where "body = Some b" "with_previous rs (prepareResponse (odel ''background'' b) model) = Inr prepared"
    "downstream = odel ''previous_response_id'' (clone_obj prepared)"
    "previous = stringValue (oget prepared ''previous_response_id'')"
  using assms by (auto simp: create_prepare_def Let_def split: option.splits if_splits sum.splits)

text \<open>C14: A conversation continues: after a response was created and stored, a request that names it as
  \<open>previous_response_id\<close> is prepared with the whole conversation, in order: the input of the first
  request (itself with everything before it), what the response said, and the new input.\<close>

theorem conversation_continues:
  assumes "create_prepare model rs body = Inr (prepared, downstream, previous, False)"
    and "backend_collect be downstream = Inr response"
    and "createResponse model be fresh now (Inr sl) body rs = (r, rs')"
    and "store_ok rs" "0 < st_max rs"
    and "final = finished_response response prepared previous fresh now"
    and "k = stringValue (oget final ''id'')" "k \<noteq> []"
    and "oget b2 ''previous_response_id'' = JStr k" "\<not> boolValue (oget b2 ''background'')"
  shows "r = Some (PlainAnswer (json_response 200 (JObj final)))
    \<and> (\<exists>prepared2 downstream2 streaming2.
      create_prepare model rs' (Some b2) = Inr (prepared2, downstream2, k, streaming2)
      \<and> oget prepared2 ''input'' = JArr (cloneSlice (sliceAny (oget prepared ''input''))
          @ cloneSlice (responseContext (Some final))
          @ normalizeResponseInput (clone_json (oget b2 ''input''))))"
proof -
  have rs': "rs' = response_remember k (sliceAny (oget prepared ''input''), final) rs"
    and r: "r = Some (PlainAnswer (json_response 200 (JObj final)))"
    using assms(1-3,6,7) by (simp_all add: createResponse_def remember_response_def Let_def)
  define b where "b = odel ''background'' b2"
  have prev: "stringValue (oget (prepareResponse b model) ''previous_response_id'') = k"
    using assms(9) by (simp add: b_def prepareResponse_def Let_def)
  have inp: "oget (prepareResponse b model) ''input'' = JArr (normalizeResponseInput (clone_json (oget b2 ''input'')))"
    by (simp add: prepareResponse_input b_def)
  obtain stored where get: "response_get k rs' = Some stored"
    and ctx: "Context stored = cloneSlice (sliceAny (oget prepared ''input'')) @ cloneSlice (responseContext (Some final))"
    using response_remembered [OF assms(4,5), of k "(sliceAny (oget prepared ''input''), final)"]
    by (simp add: rs' response_get_def response_entry_def cloneSlice_def o_def)
  let ?p = "oset ''input'' (JArr (Context stored @ sliceAny (oget (prepareResponse b model) ''input''))) (prepareResponse b model)"
  have "with_previous rs' (prepareResponse b model) = Inr ?p"
    using prev assms(8) get by (simp add: with_previous_def)
  then have "create_prepare model rs' (Some b2)
      = Inr (?p, odel ''previous_response_id'' (clone_obj ?p), k, boolValue (oget b ''stream''))"
    using assms(10) prev by (simp add: create_prepare_def b_def [symmetric])
  then show ?thesis
    by (simp add: ctx inp r)
qed

definition sample_request :: obj where
  "sample_request = [(''model'', JStr ''m''), (''input'', JStr ''hi'')]"

lemma sample_create:
  "case create_prepare ''m'' (new_store 5) (Some sample_request) of
     Inr (p, d, prev, s) \<Rightarrow> \<not> s \<and> stringValue (oget (finished_response [] p prev ''f'' 0) ''id'') = ''f''
   | Inl r \<Rightarrow> False"
  by code_simp

theorem conversation_continues_witness:
  "\<exists>r rs' p2 d2 s2. createResponse ''m'' sample_backend ''f'' 0 (Inr None) (Some sample_request) (new_store 5) = (r, rs')
     \<and> create_prepare ''m'' rs' (Some [(''previous_response_id'', JStr ''f''), (''input'', JStr ''and?'')]) = Inr (p2, d2, ''f'', s2)"
proof -
  let ?b2 = "[(''previous_response_id'', JStr ''f''), (''input'', JStr ''and?'')]"
  obtain p d prev where c: "create_prepare ''m'' (new_store 5) (Some sample_request) = Inr (p, d, prev, False)"
    and k: "stringValue (oget (finished_response [] p prev ''f'' 0) ''id'') = ''f''"
    using sample_create by (cases "create_prepare ''m'' (new_store 5) (Some sample_request)") auto
  obtain r rs' where cr: "createResponse ''m'' sample_backend ''f'' 0 (Inr None) (Some sample_request) (new_store 5) = (r, rs')"
    by fastforce
  from conversation_continues [OF c sample_collect cr store_ok_new _ refl k [symmetric], of ?b2] cr show ?thesis
    by (fastforce simp: new_store_def)
qed

subsection \<open>Streams\<close>

text \<open>The event as written: the one received, up to its response and a missing sequence number.\<close>

definition forwarded :: "nat \<Rightarrow> obj \<Rightarrow> json \<Rightarrow> bool" where
  "forwarded i e w \<longleftrightarrow> (\<exists>m. w = JObj m
     \<and> oget m ''sequence_number'' = (if oget e ''sequence_number'' = JNull then JInt (int i) else oget e ''sequence_number'')
     \<and> (\<forall>key. key \<noteq> ''sequence_number'' \<and> key \<noteq> ''response'' \<longrightarrow> oget m key = oget e key))"

definition real_events :: "gomap list \<Rightarrow> obj list" where
  "real_events evs = concat (map (\<lambda>e. case e of None \<Rightarrow> [] | Some o' \<Rightarrow> [o']) evs)"

definition all_forwarded :: "obj list \<Rightarrow> json list \<Rightarrow> bool" where
  "all_forwarded es ws \<longleftrightarrow> length ws = length es \<and> (\<forall>i < length es. forwarded i (es ! i) (ws ! i))"

definition stored_as_sent :: "obj \<Rightarrow> responseStore \<Rightarrow> json list \<Rightarrow> responseStore \<Rightarrow> bool" where
  "stored_as_sent prepared rs ws rs' \<longleftrightarrow> rs' = rs
     \<or> (\<exists>m response. JObj m \<in> set ws \<and> oget m ''response'' = JObj response \<and> rs' = remember_response prepared response rs)"

definition response_stream_inv :: "obj \<Rightarrow> responseStore \<Rightarrow> response_stream \<Rightarrow> gomap list \<Rightarrow> bool" where
  "response_stream_inv prepared rs st evs \<longleftrightarrow>
     rs_seq st = int (length (real_events evs)) \<and> all_forwarded (real_events evs) (rs_written st)
     \<and> stored_as_sent prepared rs (rs_written st) (rs_store st) \<and> (\<not> rs_stored st \<longrightarrow> rs_store st = rs)"

lemma all_forwarded_snoc:
  "all_forwarded es ws \<Longrightarrow> forwarded (length es) e w \<Longrightarrow> all_forwarded (es @ [e]) (ws @ [w])"
  by (auto simp: all_forwarded_def nth_append less_Suc_eq)

lemma stored_as_sent_snoc: "stored_as_sent prepared rs ws rs' \<Longrightarrow> stored_as_sent prepared rs (ws @ [w]) rs'"
  by (auto simp: stored_as_sent_def)

lemma response_step_inv:
  assumes inv: "response_stream_inv prepared rs st evs"
  shows "response_stream_inv prepared rs (fst (response_event_step prepared previous fresh now st event)) (evs @ [event])"
proof (cases event)
  case None
  then show ?thesis
    using inv by (simp add: response_event_step_def response_stream_inv_def real_events_def)
next
  case (Some e)
  define st1 where "st1 = (case mapAny (oget e ''item'') of
      Some item \<Rightarrow> if stringValue (oget e ''type'') = ''response.output_item.done''
        then st\<lparr>rs_outputs := rs_outputs st @ [JObj item]\<rparr> else st
    | None \<Rightarrow> st)"
  have st1: "rs_seq st1 = rs_seq st" "rs_written st1 = rs_written st" "rs_store st1 = rs_store st" "rs_stored st1 = rs_stored st"
    by (simp_all add: st1_def split: option.split)
  define number where "number x = (if oget x ''sequence_number'' = JNull then oset ''sequence_number'' (JInt (rs_seq st)) x else x)"
    for x :: obj
  have number: "forwarded (length (real_events evs)) e (JObj (number x))"
    if "\<And>key. key \<noteq> ''response'' \<Longrightarrow> oget x key = oget e key" for x
    using that inv by (auto simp: forwarded_def number_def response_stream_inv_def)
  have real: "real_events (evs @ [event]) = real_events evs @ [e]"
    by (simp add: real_events_def Some)
  show ?thesis
  proof (cases "\<exists>response. mapAny (oget e ''response'') = Some response \<and> final_event (oget e ''type'')")
    case False
    then have "fst (response_event_step prepared previous fresh now st event)
        = st1\<lparr>rs_seq := rs_seq st + 1, rs_written := rs_written st @ [JObj (number e)]\<rparr>"
      by (auto simp: response_event_step_def Some Let_def st1_def [symmetric] number_def st1 split: option.split)
    then show ?thesis
      using inv number [of e] by (simp add: response_stream_inv_def real all_forwarded_snoc stored_as_sent_snoc st1)
  next
    case True
    then obtain response where r: "mapAny (oget e ''response'') = Some response" "final_event (oget e ''type'')"
      by blast
    let ?final = "finished_response (with_outputs (rs_outputs st1) response) prepared previous fresh now"
    let ?e = "oset ''response'' (JObj ?final) e"
    have step: "fst (response_event_step prepared previous fresh now st event)
        = (if rs_stored st1 then st1 else st1\<lparr>rs_stored := True, rs_store := remember_response prepared ?final (rs_store st1)\<rparr>)
          \<lparr>rs_seq := rs_seq st + 1, rs_written := rs_written st @ [JObj (number ?e)]\<rparr>"
      by (simp add: response_event_step_def Some Let_def st1_def [symmetric] number_def st1 r)
    have "oget (number ?e) ''response'' = JObj ?final"
      by (simp add: number_def)
    then have sent: "stored_as_sent prepared rs (rs_written st @ [JObj (number ?e)]) (remember_response prepared ?final rs)"
      unfolding stored_as_sent_def by force
    have fw: "forwarded (length (real_events evs)) e (JObj (number ?e))"
      by (rule number) simp
    show ?thesis
      using inv fw sent unfolding step
      by (auto simp: response_stream_inv_def real all_forwarded_snoc stored_as_sent_snoc st1)
  qed
qed

lemma response_start_inv: "response_stream_inv prepared rs (response_stream_start rs) []"
  by (simp add: response_stream_inv_def response_stream_start_def real_events_def all_forwarded_def stored_as_sent_def)

interpretation responding: stream_consumer "response_event_step prepared previous fresh now" "response_stream_start rs"
    "response_stream_inv prepared rs"
  by unfold_locales (rule response_start_inv, rule response_step_inv)



end
