(* ===== verification/Chats.thy ===== *)
theory Chats
  imports Server
begin

text \<open>
  The Chat Completions API (\<open>server.go\<close>): creating a completion, collected or streamed, and the
  listing and the resource of stored completions.
\<close>

section \<open>Chat Completions\<close>

text \<open>What both ways of creating a completion share: the request's metadata in it, and the store.\<close>

definition with_metadata :: "obj \<Rightarrow> obj \<Rightarrow> obj" where
  "with_metadata body completion = (case mapAny (oget body ''metadata'') of
       Some m \<Rightarrow> oset ''metadata'' (JObj (clone_obj m)) completion | None \<Rightarrow> completion)"

definition remember_chat :: "obj \<Rightarrow> obj \<Rightarrow> chatStore \<Rightarrow> chatStore" where
  "remember_chat body completion cs =
     (if boolValue (oget body ''store'')
      then chat_remember (stringValue (oget completion ''id'')) (completion, mapOrEmpty (oget body ''metadata'')) cs
      else cs)"

section \<open>Chunks\<close>

text \<open>
  \<open>chatStreamToolCall\<close> and \<open>chatStreamState\<close>, with the other variables of \<open>streamChat\<close> and what it
  has written.  \<open>ct_calls\<close> maps the output index of a function call to its entry.
\<close>

record chatStreamToolCall =
  cl_index :: nat
  cl_started :: bool
  cl_sent :: string

record chatStreamState =
  ct_ID :: string
  ct_Created :: int
  ct_Model :: string
  ct_ChoiceCount :: int
  ct_RoleSent :: bool
  ct_SawText :: bool
  ct_outputs :: "json list"
  ct_calls :: "(int \<times> chatStreamToolCall) list"
  ct_store :: chatStore
  ct_written :: "json list"

definition chat_update_state :: "obj \<Rightarrow> chatStreamState \<Rightarrow> chatStreamState" where
  "chat_update_state resp st = (let
     i = stringValue (oget resp ''id'');
     st = (if i \<noteq> [] then st\<lparr>ct_ID := chat_id i\<rparr> else st);
     created = intValue (oget resp ''created_at'');
     st = (if created \<noteq> 0 then st\<lparr>ct_Created := created\<rparr> else st);
     model = stringValue (oget resp ''model'')
     in if model \<noteq> [] then st\<lparr>ct_Model := model\<rparr> else st)"

text \<open>\<open>finish\<close> and \<open>usage\<close> may be nil; \<open>choices\<close> given replace one choice per requested copy.\<close>

definition chatChunk :: "chatStreamState \<Rightarrow> obj \<Rightarrow> string option \<Rightarrow> json list option \<Rightarrow> gomap \<Rightarrow> json" where
  "chatChunk st delta finish choices usage = (let
     c = (case choices of
         Some cs \<Rightarrow> JArr cs
       | None \<Rightarrow> (if ct_ChoiceCount st \<le> 0 then JNilArr else
           JArr (map (\<lambda>i. JObj [(''index'', JInt (int i)), (''delta'', JObj (clone_obj delta)),
             (''finish_reason'', case finish of None \<Rightarrow> JNull | Some f \<Rightarrow> JStr f), (''logprobs'', JNull)])
             [0..<nat (ct_ChoiceCount st)])));
     result = [(''id'', JStr (ct_ID st)), (''object'', JStr ''chat.completion.chunk''), (''created'', JInt (ct_Created st)),
       (''model'', JStr (ct_Model st)), (''choices'', c)]
     in JObj (case usage of None \<Rightarrow> result | Some u \<Rightarrow> oset ''usage'' (JObj u) result))"

definition argumentsDelta :: "nat \<Rightarrow> string \<Rightarrow> bool \<Rightarrow> obj" where
  "argumentsDelta index args legacy =
     (if legacy then [(''function_call'', JObj [(''arguments'', JStr args)])]
      else [(''tool_calls'', JArr [JObj [(''index'', JInt (int index)),
              (''function'', JObj [(''arguments'', JStr args)])]])])"

definition toolDelta :: "obj \<Rightarrow> nat \<Rightarrow> string \<Rightarrow> bool \<Rightarrow> obj" where
  "toolDelta item index args legacy = (let
     fn = [(''name'', JStr (stringValue (oget item ''name''))), (''arguments'', JStr args)]
     in if legacy then [(''function_call'', JObj fn)]
        else [(''tool_calls'', JArr [JObj [(''index'', JInt (int index)),
          (''id'', JStr (stringValue (valueOr (oget item ''call_id'')
             (valueOr (oget item ''id'') (JStr (''call_'' @ itoa (int index))))))),
          (''type'', JStr ''function''), (''function'', JObj fn)]])])"

section \<open>Streaming completions\<close>

definition emit :: "json \<Rightarrow> chatStreamState \<Rightarrow> chatStreamState" where
  "emit v st = st\<lparr>ct_written := ct_written st @ [v]\<rparr>"

definition emit_delta :: "obj \<Rightarrow> chatStreamState \<Rightarrow> chatStreamState" where
  "emit_delta delta st = emit (chatChunk st delta None None None) st"

definition send_role :: "chatStreamState \<Rightarrow> chatStreamState" where
  "send_role st = (if ct_RoleSent st then st
     else emit_delta [(''role'', JStr ''assistant'')] (st\<lparr>ct_RoleSent := True\<rparr>))"

definition put_call :: "int \<Rightarrow> chatStreamToolCall \<Rightarrow> chatStreamState \<Rightarrow> chatStreamState" where
  "put_call o' c st = st\<lparr>ct_calls := AList.update o' c (ct_calls st)\<rparr>"

text \<open>The entry of the event's call, made when there is none; the client must not see a second call
  of a legacy function.\<close>

definition tool_call :: "bool \<Rightarrow> int \<Rightarrow> chatStreamState \<Rightarrow> chatStreamToolCall option \<times> chatStreamState" where
  "tool_call legacy o' st = (let
     (call, st) = (case map_of (ct_calls st) o' of
         Some c \<Rightarrow> (c, st)
       | None \<Rightarrow> (let c = \<lparr>cl_index = length (ct_calls st), cl_started = False, cl_sent = []\<rparr> in (c, put_call o' c st)))
     in (if legacy \<and> 0 < cl_index call then None else Some call, st))"

text \<open>The three events of a function call.\<close>

definition call_added :: "bool \<Rightarrow> int \<Rightarrow> obj \<Rightarrow> chatStreamState \<Rightarrow> chatStreamState" where
  "call_added legacy o' item st = (case tool_call legacy o' st of
       (None, st) \<Rightarrow> st
     | (Some c, st) \<Rightarrow> emit_delta (toolDelta item (cl_index c) [] legacy)
         (put_call o' (c\<lparr>cl_started := True, cl_sent := []\<rparr>) (send_role st)))"

definition call_delta :: "bool \<Rightarrow> int \<Rightarrow> string \<Rightarrow> chatStreamState \<Rightarrow> chatStreamState" where
  "call_delta legacy o' delta st = (case tool_call legacy o' st of
       (None, st) \<Rightarrow> st
     | (Some c, st) \<Rightarrow> emit_delta (argumentsDelta (cl_index c) delta legacy)
         (put_call o' (c\<lparr>cl_started := True, cl_sent := cl_sent c @ delta\<rparr>) (send_role st)))"

definition call_finished :: "bool \<Rightarrow> int \<Rightarrow> obj \<Rightarrow> chatStreamState \<Rightarrow> chatStreamState" where
  "call_finished legacy o' item st = (case tool_call legacy o' st of
       (None, st) \<Rightarrow> st
     | (Some c, st) \<Rightarrow> (let args = stringValue (oget item ''arguments'') in
         if \<not> cl_started c then
           emit_delta (toolDelta item (cl_index c) args legacy)
             (put_call o' (c\<lparr>cl_started := True, cl_sent := args\<rparr>) (send_role st))
         else if has_prefix (cl_sent c) args \<and> trim_prefix (cl_sent c) args \<noteq> [] then
           emit_delta (argumentsDelta (cl_index c) (trim_prefix (cl_sent c) args) legacy)
             (put_call o' (c\<lparr>cl_sent := args\<rparr>) st)
         else st))"

text \<open>A finished message is sent as text when no text was.\<close>

definition message_finished :: "obj \<Rightarrow> chatStreamState \<Rightarrow> chatStreamState" where
  "message_finished item st = (let text = messageText (Some item) in
     if ct_SawText st \<or> text = [] then st
     else (let st = (send_role st)\<lparr>ct_SawText := True\<rparr> in emit_delta [(''content'', JStr text)] st))"

definition text_delta :: "string \<Rightarrow> chatStreamState \<Rightarrow> chatStreamState" where
  "text_delta delta st = (let st = send_role st in
     if delta = [] then st
     else (let st = st\<lparr>ct_SawText := True\<rparr> in emit_delta [(''content'', JStr delta)] st))"

definition item_finished :: "bool \<Rightarrow> int \<Rightarrow> obj \<Rightarrow> chatStreamState \<Rightarrow> chatStreamState" where
  "item_finished legacy o' item st = (let st = st\<lparr>ct_outputs := ct_outputs st @ [JObj item]\<rparr> in
     if oget item ''type'' = JStr ''function_call'' then call_finished legacy o' item st
     else if oget item ''type'' = JStr ''message'' then message_finished item st
     else st)"

text \<open>What a request for a completion brings: its body, the payload made of it, the readers and the
  clocks.\<close>

record chat_request =
  cq_http_date :: "string \<Rightarrow> int option"
  cq_body :: obj
  cq_payload :: obj
  cq_fresh :: string
  cq_now :: rat
  cq_unix :: int

abbreviation cq_legacy :: "chat_request \<Rightarrow> bool" where
  "cq_legacy cq \<equiv> usesLegacyFunctions (cq_body cq)"

definition finish_text :: "obj \<Rightarrow> string" where
  "finish_text completion = stringValue (mget (mapAny (hd (sliceAny (oget completion ''choices'')))) ''finish_reason'')"

definition chat_complete :: "chat_request \<Rightarrow> obj \<Rightarrow> chatStreamState \<Rightarrow> chatStreamState" where
  "chat_complete cq resp st = (let
     resp = ensureResponse (with_outputs (ct_outputs st) resp) (cq_payload cq) (cq_fresh cq) (cq_now cq);
     st = send_role (chat_update_state resp st);
     completion = with_metadata (cq_body cq)
       (responseToChat resp (ct_Model st) (cq_legacy cq) (ct_ChoiceCount st) (cq_unix cq));
     st = st\<lparr>ct_store := remember_chat (cq_body cq) completion (ct_store st)\<rparr>;
     st = emit (chatChunk st [] (Some (finish_text completion)) None None) st
     in if boolValue (mget (mapAny (oget (cq_body cq) ''stream_options'')) ''include_usage'')
        then emit (chatChunk st [] None (Some []) (mapAny (oget completion ''usage''))) st else st)"

text \<open>The callback of \<open>streamChat\<close>.\<close>

definition before_output :: "string \<Rightarrow> bool" where
  "before_output typ = (isLifecycleEvent typ \<or> typ = ''error'' \<or> typ = ''response.failed'')"

definition event_item :: "gomap \<Rightarrow> gomap" where
  "event_item event = mapAny (mget event ''item'')"

definition call_item :: "gomap \<Rightarrow> gomap" where
  "call_item event = (case event_item event of
       Some item \<Rightarrow> if oget item ''type'' = JStr ''function_call'' then Some item else None
     | None \<Rightarrow> None)"

definition chat_event :: "chat_request \<Rightarrow> chatStreamState consumer" where
  "chat_event cq st event = (let
     typ = stringValue (mget event ''type'');
     o' = intValue (mget event ''output_index'');
     resp = mapAny (mget event ''response'');
     st = (if before_output typ then st else send_role st)
     in if typ = ''response.created'' then
          ((case resp of Some r \<Rightarrow> chat_update_state r st | None \<Rightarrow> st), None)
        else if typ = ''response.output_text.delta'' then
          (text_delta (stringValue (mget event ''delta'')) st, None)
        else if typ = ''response.output_item.added'' then
          ((case call_item event of Some item \<Rightarrow> call_added (cq_legacy cq) o' item st | None \<Rightarrow> st), None)
        else if typ = ''response.function_call_arguments.delta'' then
          (call_delta (cq_legacy cq) o' (stringValue (mget event ''delta'')) st, None)
        else if typ = ''response.output_item.done'' then
          ((case event_item event of Some item \<Rightarrow> item_finished (cq_legacy cq) o' item st | None \<Rightarrow> st), None)
        else if typ = ''error'' then
          (st, Some (responseFailure (cq_http_date cq) (cq_unix cq) (Some (errorEventDetail (event_obj event)))))
        else if typ = ''response.failed'' then
          (st, Some (responseFailure (cq_http_date cq) (cq_unix cq) (failureDetail (mget resp ''error''))))
        else if typ = ''response.completed'' \<or> typ = ''response.incomplete'' then
          (case failedResponseError (cq_http_date cq) (cq_unix cq) resp of
             Some err \<Rightarrow> (st, Some err)
           | None \<Rightarrow> ((case resp of Some r \<Rightarrow> chat_complete cq r st | None \<Rightarrow> st), None))
        else (st, None))"

definition chat_stream_start :: "chat_request \<Rightarrow> string \<Rightarrow> chatStore \<Rightarrow> chatStreamState" where
  "chat_stream_start cq chat_id0 cs = \<lparr>ct_ID = chat_id0, ct_Created = cq_unix cq,
     ct_Model = stringValue (oget (cq_payload cq) ''model''), ct_ChoiceCount = chatChoiceCount (oget (cq_body cq) ''n''),
     ct_RoleSent = False, ct_SawText = False, ct_outputs = [], ct_calls = [], ct_store = cs, ct_written = []\<rparr>"

definition chat_answer :: "chatStreamState \<Rightarrow> go_error option \<Rightarrow> answer" where
  "chat_answer st err = (case err of
       None \<Rightarrow> EventAnswer (ct_written st) True
     | Some e \<Rightarrow>
         if \<not> ct_RoleSent st then PlainAnswer (writeBackendError e)
         else EventAnswer (ct_written st @ [JObj [(''error'', JObj (publicErrorObject e))]]) True)"

definition streamChat ::
  "codexBackend \<Rightarrow> slot_refusal + slots \<Rightarrow> chat_request \<Rightarrow> string \<Rightarrow> chatStore \<Rightarrow> answer option \<times> chatStore" where
  "streamChat be slot cq chat_id0 cs = (case slot of
       Inl why \<Rightarrow> (map_option (\<lambda>r. PlainAnswer (after_setSSE r)) (refused_slot why), cs)
     | Inr sl \<Rightarrow> (case backend_stream be (cq_payload cq) (chat_event cq) (chat_stream_start cq chat_id0 cs) of
           (st, err) \<Rightarrow> (Some (chat_answer st err), ct_store st)))"

section \<open>The collection\<close>

definition collected_completion :: "chat_request \<Rightarrow> obj \<Rightarrow> obj" where
  "collected_completion cq response =
     with_metadata (cq_body cq) (responseToChat (ensureResponse response (cq_payload cq) (cq_fresh cq) (cq_now cq))
       (stringValue (oget (cq_payload cq) ''model'')) (cq_legacy cq) (chatChoiceCount (oget (cq_body cq) ''n'')) (cq_unix cq))"

text \<open>\<open>chatCollection\<close> for a \<open>POST\<close>.\<close>

definition createChat ::
  "string \<Rightarrow> codexBackend \<Rightarrow> string \<Rightarrow> string \<Rightarrow> rat \<Rightarrow> int \<Rightarrow> slot_refusal + slots \<Rightarrow> gomap \<Rightarrow> chatStore
    \<Rightarrow> answer option \<times> chatStore" where
  "createChat model be chat_id0 fresh now unix slot body cs = (case body of
       None \<Rightarrow> (Some (PlainAnswer bad_json), cs)
     | Some b \<Rightarrow> (let
         cq = \<lparr>cq_http_date = be_http_date be, cq_body = b, cq_payload = chatToResponse b model, cq_fresh = fresh,
           cq_now = now, cq_unix = unix\<rparr>
         in if boolValue (oget b ''stream'') then streamChat be slot cq chat_id0 cs
            else (case slot of
                Inl why \<Rightarrow> (map_option PlainAnswer (refused_slot why), cs)
              | Inr sl \<Rightarrow> (case backend_collect be (cq_payload cq) of
                  Inl err \<Rightarrow> (Some (PlainAnswer (writeBackendError err)), cs)
                | Inr response \<Rightarrow> (case failedResponseError (be_http_date be) unix (Some response) of
                    Some err \<Rightarrow> (Some (PlainAnswer (writeBackendError err)), cs)
                  | None \<Rightarrow> (let completion = collected_completion cq response in
                      (Some (PlainAnswer (json_response 200 (JObj completion))), remember_chat b completion cs)))))))"

text \<open>The filter of a listing: the parameters \<open>metadata[key]\<close>.\<close>

definition metadata_param :: "string \<times> string list \<Rightarrow> (string \<times> json) list" where
  "metadata_param kv = (case kv of
       (k, v # vs) \<Rightarrow> if has_prefix ''metadata['' k \<and> has_suffix '']'' k
         then [(trim_suffix '']'' (trim_prefix ''metadata['' k), JStr v)] else []
     | _ \<Rightarrow> [])"

definition listChats :: "query \<Rightarrow> chatStore \<Rightarrow> http_response option" where
  "listChats q cs = map_option (\<lambda>(items, m). json_response 200 (JObj (cursorPage (items = []) items m)))
     (chat_list cs (qget q ''model'') (concat (map metadata_param q)) (qget q ''order'' = ''desc'') (qget q ''after'')
        (positiveInt (qget q ''limit'')))"

definition unknown_completion :: "string \<Rightarrow> http_response" where
  "unknown_completion i = error_response 404 (''Unknown completion_id: '' @ i) ''invalid_request_error'' (JStr ''completion_id'') JNull"

definition bad_metadata :: http_response where
  "bad_metadata = error_response 400 ''metadata must be an object or null.'' ''invalid_request_error'' (JStr ''metadata'') JNull"

definition chat_messages_page :: "query \<Rightarrow> storedChat \<Rightarrow> http_response" where
  "chat_messages_page q stored = (case paginateMaps (Messages stored) q of
     (items, m) \<Rightarrow> json_response 200 (JObj (cursorPage (Messages stored = []) items m)))"

definition chatResource :: "string \<Rightarrow> query \<Rightarrow> gomap \<Rightarrow> string \<Rightarrow> chatStore \<Rightarrow> http_response \<times> chatStore" where
  "chatResource verb q body resource cs = (let parts = split_on (CHR ''/'') resource; i = hd parts in
     case chat_get i cs of
       None \<Rightarrow> (unknown_completion i, cs)
     | Some stored \<Rightarrow>
         if length parts = 2 \<and> parts ! 1 = ''messages'' \<and> verb = ''GET'' then (chat_messages_page q stored, cs)
         else if length parts > 1 then (not_found_page, cs)
         else if verb = ''GET'' then (json_response 200 (JObj (Completion stored)), cs)
         else if verb = ''POST'' then (case body of
             None \<Rightarrow> (bad_json, cs)
           | Some b \<Rightarrow>
               if oget b ''metadata'' \<noteq> JNull \<and> mapAny (oget b ''metadata'') = None then (bad_metadata, cs)
               else (case chat_update i (mapOrEmpty (oget b ''metadata'')) cs of
                   (cs, r) \<Rightarrow> (json_response 200 (go_obj r), cs)))
         else if verb = ''DELETE'' then
           (json_response 200 (JObj [(''id'', JStr i), (''object'', JStr ''chat.completion.deleted''), (''deleted'', JBool True)]),
            fst (chat_delete i cs))
         else (method_not_allowed, cs))"

section \<open>Laws\<close>

subsection \<open>What a client assembles\<close>

text \<open>A client reads the delta of the first choice: its text, and the arguments of the tool calls by
  index (a legacy function call has none and is the call 0).\<close>

definition chunk_delta :: "json \<Rightarrow> obj" where
  "chunk_delta w = (case sliceAny (mget (mapAny w) ''choices'') of
       [] \<Rightarrow> [] | c # cs \<Rightarrow> (case mapAny (mget (mapAny c) ''delta'') of None \<Rightarrow> [] | Some d \<Rightarrow> d))"

definition delta_arguments :: "bool \<Rightarrow> nat \<Rightarrow> obj \<Rightarrow> string" where
  "delta_arguments legacy i d =
     (if legacy then (if i = 0 then stringValue (mget (mapAny (oget d ''function_call'')) ''arguments'') else [])
      else (case sliceAny (oget d ''tool_calls'') of
          [] \<Rightarrow> []
        | t # ts \<Rightarrow> if intValue (mget (mapAny t) ''index'') = int i
            then stringValue (mget (mapAny (mget (mapAny t) ''function'')) ''arguments'') else []))"

definition client_arguments :: "bool \<Rightarrow> nat \<Rightarrow> json list \<Rightarrow> string" where
  "client_arguments legacy i ws = concat (map (\<lambda>w. delta_arguments legacy i (chunk_delta w)) ws)"

definition client_text :: "json list \<Rightarrow> string" where
  "client_text ws = concat (map (\<lambda>w. stringValue (oget (chunk_delta w) ''content'')) ws)"

text \<open>The first chunk is the only one with the role.\<close>

definition role_first :: "json list \<Rightarrow> bool" where
  "role_first ws \<longleftrightarrow> (\<forall>i < length ws. has_key (chunk_delta (ws ! i)) ''role'' \<longleftrightarrow> i = 0)"

text \<open>
  The references: what one attempt's events say about one function call (its arguments so far, and
  whether the item was announced again after that had begun), and about the text.
\<close>

definition call_step :: "int \<Rightarrow> gomap \<Rightarrow> (string \<times> bool) option \<Rightarrow> (string \<times> bool) option" where
  "call_step o' event v = (let typ = stringValue (mget event ''type'') in
     if intValue (mget event ''output_index'') \<noteq> o' then v
     else if typ = ''response.output_item.added'' \<and> call_item event \<noteq> None then Some ([], v \<noteq> None)
     else if typ = ''response.function_call_arguments.delta'' then
       (let d = stringValue (mget event ''delta'') in
        Some (case v of None \<Rightarrow> (d, False) | Some (s, again) \<Rightarrow> (s @ d, again)))
     else if typ = ''response.output_item.done'' then
       (case call_item event of
          None \<Rightarrow> v
        | Some item \<Rightarrow> (let args = stringValue (oget item ''arguments'') in
            Some (case v of None \<Rightarrow> (args, False) | Some (s, again) \<Rightarrow> (if has_prefix s args then args else s, again))))
     else v)"

definition call_view :: "int \<Rightarrow> gomap list \<Rightarrow> (string \<times> bool) option" where
  "call_view o' evs = fold (call_step o') evs None"

definition text_step :: "gomap \<Rightarrow> string \<times> bool \<Rightarrow> string \<times> bool" where
  "text_step event v = (let
     typ = stringValue (mget event ''type'');
     piece = (if typ = ''response.output_text.delta'' then stringValue (mget event ''delta'')
       else if typ = ''response.output_item.done'' \<and> mget (event_item event) ''type'' = JStr ''message'' \<and> \<not> snd v
         then messageText (event_item event)
       else [])
     in (fst v @ piece, snd v \<or> piece \<noteq> []))"

definition text_view :: "gomap list \<Rightarrow> string \<times> bool" where
  "text_view evs = fold text_step evs ([], False)"

lemma call_view_snoc: "call_view o' (evs @ [e]) = call_step o' e (call_view o' evs)"
  by (simp add: call_view_def)

lemma text_view_snoc: "text_view (evs @ [e]) = text_step e (text_view evs)"
  by (simp add: text_view_def)

lemma client_snoc [simp]:
  "client_arguments legacy i (ws @ [w]) = client_arguments legacy i ws @ delta_arguments legacy i (chunk_delta w)"
  "client_text (ws @ [w]) = client_text ws @ stringValue (oget (chunk_delta w) ''content'')"
  by (simp_all add: client_arguments_def client_text_def)

lemma client_Nil [simp]:
  "client_arguments legacy i [] = []" "client_text [] = []"
  "client_arguments legacy i [w] = delta_arguments legacy i (chunk_delta w)"
  by (simp_all add: client_arguments_def client_text_def)

lemma role_first_snoc [simp]:
  "role_first (ws @ [w]) \<longleftrightarrow> role_first ws \<and> (has_key (chunk_delta w) ''role'' \<longleftrightarrow> ws = [])"
  by (auto simp: role_first_def nth_append less_Suc_eq)

lemma chunk_delta_chatChunk:
  "0 < ct_ChoiceCount st \<Longrightarrow> chunk_delta (chatChunk st d f None u) = clone_obj d"
  "chunk_delta (chatChunk st d f (Some []) u) = []"
  by (auto simp: chunk_delta_def chatChunk_def Let_def upt_conv_Cons split: option.split)

lemma delta_arguments_call:
  assumes "int i < 2 ^ 53" "int j < 2 ^ 53" "legacy \<Longrightarrow> j = 0"
  shows "delta_arguments legacy i (clone_obj (argumentsDelta j args legacy)) = (if i = j then args else [])"
    and "delta_arguments legacy i (clone_obj (toolDelta item j args legacy)) = (if i = j then args else [])"
  using assms float_to_int_exact [of "int j"]
  by (auto simp: delta_arguments_def argumentsDelta_def toolDelta_def Let_def intValue_def)

lemma plain_deltas [simp]:
  "delta_arguments legacy i (clone_obj [(''role'', v)]) = []" "delta_arguments legacy i (clone_obj [(''content'', v)]) = []"
  "delta_arguments legacy i [] = []" "delta_arguments legacy i (clone_obj []) = []"
  by (simp_all add: delta_arguments_def clone_obj_def)

lemma call_deltas [simp]:
  "oget (argumentsDelta j args legacy) ''content'' = JNull" "oget (toolDelta item j args legacy) ''content'' = JNull"
  "\<not> has_key (argumentsDelta j args legacy) ''role''" "\<not> has_key (toolDelta item j args legacy) ''role''"
  by (simp_all add: argumentsDelta_def toolDelta_def Let_def has_key_def)

subsection \<open>The calls\<close>

abbreviation visible :: "bool \<Rightarrow> chatStreamToolCall \<Rightarrow> bool" where
  "visible legacy c \<equiv> \<not> (legacy \<and> 0 < cl_index c)"

text \<open>How the table of calls, the chunks written and the views of \<open>n\<close> events agree; a client reads
  indexes as numbers, so they have to be exact.\<close>

definition call_agrees :: "bool \<Rightarrow> json list \<Rightarrow> chatStreamToolCall \<Rightarrow> (string \<times> bool) option \<Rightarrow> bool" where
  "call_agrees legacy ws c v \<longleftrightarrow> cl_started c \<and> (\<exists>again. v = Some (cl_sent c, again)
     \<and> suffix (cl_sent c) (client_arguments legacy (cl_index c) ws)
     \<and> (\<not> again \<longrightarrow> client_arguments legacy (cl_index c) ws = cl_sent c))"

definition calls_ok ::
  "bool \<Rightarrow> (int \<times> chatStreamToolCall) list \<Rightarrow> json list \<Rightarrow> (int \<Rightarrow> (string \<times> bool) option) \<Rightarrow> nat \<Rightarrow> bool" where
  "calls_ok legacy calls ws cv n \<longleftrightarrow> distinct (map fst calls) \<and> map (cl_index \<circ> snd) calls = [0..<length calls]
     \<and> length calls \<le> n \<and> (\<forall>o'. cv o' = None \<longleftrightarrow> map_of calls o' = None)
     \<and> (\<forall>o' c. map_of calls o' = Some c \<longrightarrow> visible legacy c \<longrightarrow> cl_started c \<and> map_option fst (cv o') = Some (cl_sent c))
     \<and> (int n < 2 ^ 53 \<longrightarrow>
          (\<forall>i. length calls \<le> i \<longrightarrow> int i < 2 ^ 53 \<longrightarrow> client_arguments legacy i ws = [])
        \<and> (\<forall>o' c. map_of calls o' = Some c \<longrightarrow> visible legacy c \<longrightarrow> call_agrees legacy ws c (cv o')))"

definition entry :: "(int \<times> chatStreamToolCall) list \<Rightarrow> int \<Rightarrow> chatStreamToolCall" where
  "entry calls o' = (case map_of calls o' of Some c \<Rightarrow> c
     | None \<Rightarrow> \<lparr>cl_index = length calls, cl_started = False, cl_sent = []\<rparr>)"

lemma index_of_entry:
  assumes "calls_ok legacy calls ws cv n" "map_of calls o' = Some c"
  shows "cl_index c < length calls"
proof -
  have "map (cl_index \<circ> snd) calls = [0..<length calls]"
    using assms(1) by (simp add: calls_ok_def)
  moreover have "cl_index c \<in> set (map (cl_index \<circ> snd) calls)"
    using assms(2) by (force dest: map_of_SomeD)
  ultimately show ?thesis
    by simp
qed

lemma index_inj:
  assumes "calls_ok legacy calls ws cv n" "map_of calls x = Some c" "map_of calls y = Some d" "cl_index c = cl_index d"
  shows "x = y"
proof -
  have "distinct (map (cl_index \<circ> snd) calls)"
    using assms(1) by (simp add: calls_ok_def)
  then have "inj_on (cl_index \<circ> snd) (set calls)"
    by (simp add: distinct_map)
  then have "(x, c) = (y, d)"
    by (rule inj_onD) (use assms in \<open>auto dest: map_of_SomeD\<close>)
  then show ?thesis by simp
qed

lemma index_entry_le: "calls_ok legacy calls ws cv n \<Longrightarrow> cl_index (entry calls o') \<le> length calls"
  using index_of_entry [of legacy calls ws cv n o'] by (auto simp: entry_def split: option.split)

lemma calls_ok_quiet:
  "(\<And>i. delta_arguments legacy i (chunk_delta w) = []) \<Longrightarrow>
     calls_ok legacy calls (ws @ [w]) cv n = calls_ok legacy calls ws cv n"
  by (simp add: calls_ok_def call_agrees_def)

lemma calls_known: "calls_ok legacy calls ws cv n \<Longrightarrow> cv o' = None \<longleftrightarrow> map_of calls o' = None"
  unfolding calls_ok_def by blast

lemma calls_ok_Suc: "calls_ok legacy calls ws cv n \<Longrightarrow> calls_ok legacy calls ws cv (Suc n)"
  by (auto simp: calls_ok_def)

lemma update_new: "map_of xs k = None \<Longrightarrow> AList.update k v xs = xs @ [(k, v)]"
  by (induction xs) (auto split: if_splits)

lemma update_same:
  "map_of xs k = Some c \<Longrightarrow> f v = f c \<Longrightarrow> map (f \<circ> snd) (AList.update k v xs) = map (f \<circ> snd) xs
     \<and> length (AList.update k v xs) = length xs"
  by (induction xs) (auto split: if_splits)

lemma entry_table:
  assumes "calls_ok legacy calls ws cv n" "cl_index c = cl_index (entry calls o')"
  shows "map (cl_index \<circ> snd) (AList.update o' c calls) = [0..<length (AList.update o' c calls)]
    \<and> length (AList.update o' c calls) \<le> Suc n \<and> length calls \<le> length (AList.update o' c calls)
    \<and> cl_index c < length (AList.update o' c calls)"
proof (cases "map_of calls o'")
  case None
  then show ?thesis
    using assms by (simp add: update_new calls_ok_def entry_def)
next
  case (Some d)
  then have "cl_index c = cl_index d"
    using assms(2) by (simp add: entry_def)
  then show ?thesis
    using update_same [OF Some, of cl_index c] index_of_entry [OF assms(1) Some] assms(1)
    by (simp add: calls_ok_def)
qed

lemmas entry_tables = entry_table [THEN conjunct1] entry_table [THEN conjunct2, THEN conjunct1]
  entry_table [THEN conjunct2, THEN conjunct2, THEN conjunct1] entry_table [THEN conjunct2, THEN conjunct2, THEN conjunct2]

text \<open>A hidden call is entered and its events change nothing the client sees.\<close>

lemma calls_ok_hidden:
  assumes ok: "calls_ok legacy calls ws cv n" and hidden: "\<not> visible legacy (entry calls o')"
  shows "calls_ok legacy (AList.update o' (entry calls o') calls) ws (cv(o' := Some v)) (Suc n)"
  using entry_table [OF ok refl, of o'] ok hidden
  by (auto simp: calls_ok_def distinct_update)

text \<open>A visible call gets the arguments \<open>args\<close> in a chunk.\<close>

lemma calls_ok_put:
  assumes ok: "calls_ok legacy calls ws cv n" and vis: "visible legacy (entry calls o')"
    and c: "cl_index c = cl_index (entry calls o')" "cl_started c"
    and chunk: "\<And>i. int i < 2 ^ 53 \<Longrightarrow> int (cl_index c) < 2 ^ 53 \<Longrightarrow>
      delta_arguments legacy i (chunk_delta w) = (if i = cl_index c then args else [])"
    and agree: "int (Suc n) < 2 ^ 53 \<Longrightarrow> suffix (cl_sent c) (client_arguments legacy (cl_index c) ws @ args)
      \<and> (\<not> again \<longrightarrow> client_arguments legacy (cl_index c) ws @ args = cl_sent c)"
  shows "calls_ok legacy (AList.update o' c calls) (ws @ [w]) (cv(o' := Some (cl_sent c, again))) (Suc n)"
proof -
  note table = entry_tables [OF ok c(1)]
  have "length (AList.update o' c calls) \<le> i \<Longrightarrow> client_arguments legacy i (ws @ [w]) = []"
    if "int (Suc n) < 2 ^ 53" "int i < 2 ^ 53" for i
    using ok that table chunk [of i] by (auto simp: calls_ok_def)
  moreover have "call_agrees legacy (ws @ [w]) d ((cv(o' := Some (cl_sent c, again))) x)"
    if n: "int (Suc n) < 2 ^ 53" and d: "map_of (AList.update o' c calls) x = Some d" "visible legacy d" for x d
  proof (cases "x = o'")
    case True
    have "int (cl_index c) < 2 ^ 53"
      using table(2,4) n by linarith
    then show ?thesis
      using True d agree [OF n] chunk [of "cl_index c"] c(2) by (auto simp: call_agrees_def update_conv')
  next
    case False
    then have x: "map_of calls x = Some d"
      using d(1) by (simp add: update_conv')
    have "cl_index d \<noteq> cl_index c"
    proof
      assume eq: "cl_index d = cl_index c"
      show False
      proof (cases "map_of calls o'")
        case None
        then show False
          using eq c(1) index_of_entry [OF ok x] by (simp add: entry_def)
      next
        case (Some e)
        then show False
          using eq c(1) index_inj [OF ok x Some] False by (simp add: entry_def)
      qed
    qed
    moreover have "int (cl_index d) < 2 ^ 53" "int (cl_index c) < 2 ^ 53"
      using index_of_entry [OF ok x] table n ok by (auto simp: calls_ok_def)
    ultimately have "delta_arguments legacy (cl_index d) (chunk_delta w) = []"
      using chunk by simp
    moreover have "call_agrees legacy ws d (cv x)"
      using ok n x d(2) by (auto simp: calls_ok_def)
    ultimately show ?thesis
      using False by (simp add: call_agrees_def)
  qed
  moreover have "cl_started d \<and> map_option fst ((cv(o' := Some (cl_sent c, again))) x) = Some (cl_sent d)"
    if "map_of (AList.update o' c calls) x = Some d" "visible legacy d" for x d
    using ok c(2) that by (cases "x = o'") (simp_all add: calls_ok_def update_conv')
  moreover have "distinct (map fst (AList.update o' c calls))"
      "\<forall>x. (cv(o' := Some (cl_sent c, again))) x = None \<longleftrightarrow> map_of (AList.update o' c calls) x = None"
    using ok by (simp_all add: calls_ok_def distinct_update update_conv')
  ultimately show ?thesis
    using table(1,2) by (simp add: calls_ok_def del: map_of_eq_None_iff)
qed

text \<open>What is known of the entry of an event's call.\<close>

lemma entry_cases:
  assumes "calls_ok legacy calls ws cv n" "visible legacy (entry calls o')"
  obtains (new) "map_of calls o' = None" "cv o' = None" "\<not> cl_started (entry calls o')" "cl_sent (entry calls o') = []"
      "int n < 2 ^ 53 \<Longrightarrow> client_arguments legacy (cl_index (entry calls o')) ws = []"
  | (old) again where "cv o' = Some (cl_sent (entry calls o'), again)" "cl_started (entry calls o')"
      "int n < 2 ^ 53 \<Longrightarrow> suffix (cl_sent (entry calls o')) (client_arguments legacy (cl_index (entry calls o')) ws)
        \<and> (\<not> again \<longrightarrow> client_arguments legacy (cl_index (entry calls o')) ws = cl_sent (entry calls o'))"
proof (cases "map_of calls o'")
  case None
  then show ?thesis
    using assms new by (auto simp: calls_ok_def entry_def)
next
  case (Some c)
  then have c: "entry calls o' = c"
    by (simp add: entry_def)
  then have "cl_started c" "map_option fst (cv o') = Some (cl_sent c)"
    "int n < 2 ^ 53 \<Longrightarrow> call_agrees legacy ws c (cv o')"
    using assms Some unfolding calls_ok_def by auto
  then show ?thesis
    using old c by (auto simp: call_agrees_def)
qed

subsection \<open>The whole state\<close>

definition chat_ok ::
  "bool \<Rightarrow> chatStreamState \<Rightarrow> (int \<Rightarrow> (string \<times> bool) option) \<Rightarrow> string \<times> bool \<Rightarrow> nat \<Rightarrow> bool" where
  "chat_ok legacy st cv tv n \<longleftrightarrow> 0 < ct_ChoiceCount st \<and> (ct_RoleSent st \<longleftrightarrow> ct_written st \<noteq> [])
     \<and> role_first (ct_written st) \<and> tv = (client_text (ct_written st), ct_SawText st)
     \<and> calls_ok legacy (ct_calls st) (ct_written st) cv n"

lemma chat_ok_Suc: "chat_ok legacy st cv tv n \<Longrightarrow> chat_ok legacy st cv tv (Suc n)"
  by (simp add: chat_ok_def calls_ok_Suc)

lemma chat_ok_update_state [simp]: "chat_ok legacy (chat_update_state r st) = chat_ok legacy st"
  by (intro ext) (simp add: chat_ok_def chat_update_state_def Let_def)

lemma chat_ok_outputs [simp]:
  "chat_ok legacy (st\<lparr>ct_outputs := x\<rparr>) = chat_ok legacy st" "chat_ok legacy (st\<lparr>ct_store := y\<rparr>) = chat_ok legacy st"
  by (intro ext, simp add: chat_ok_def)+

text \<open>A chunk that holds neither the role nor arguments.\<close>

lemma emit_ok:
  assumes "chat_ok legacy st cv tv n" "ct_RoleSent st" "\<not> has_key (chunk_delta w) ''role''"
    and "\<And>i. delta_arguments legacy i (chunk_delta w) = []"
  shows "chat_ok legacy (emit w st) cv (fst tv @ stringValue (oget (chunk_delta w) ''content''), snd tv) n"
  using assms by (auto simp: chat_ok_def emit_def calls_ok_quiet)

lemma emit_role [simp]: "ct_RoleSent (emit w st) = ct_RoleSent st"
  by (simp add: emit_def)

lemma send_role_ok:
  assumes "chat_ok legacy st cv tv n"
  shows "chat_ok legacy (send_role st) cv tv n"
proof (cases "ct_RoleSent st")
  case False
  let ?w = "chatChunk (st\<lparr>ct_RoleSent := True\<rparr>) [(''role'', JStr ''assistant'')] None None None"
  have w: "chunk_delta ?w = clone_obj [(''role'', JStr ''assistant'')]"
    using assms by (simp add: chat_ok_def chunk_delta_chatChunk)
  have "ct_written st = []"
    using assms False by (simp add: chat_ok_def)
  moreover have "role_first ([] @ [?w])" "client_text ([] @ [?w]) = client_text []"
    unfolding role_first_snoc client_snoc w by (simp_all add: role_first_def has_key_def clone_obj_def)
  moreover have "calls_ok legacy (ct_calls st) ([] @ [?w]) cv n = calls_ok legacy (ct_calls st) [] cv n"
    by (rule calls_ok_quiet) (simp only: w plain_deltas)
  ultimately show ?thesis
    using assms False by (simp add: chat_ok_def send_role_def emit_delta_def emit_def)
qed (use assms in \<open>simp add: send_role_def\<close>)

lemma send_role_simps [simp]:
  "ct_RoleSent (send_role st)" "ct_SawText (send_role st) = ct_SawText st" "ct_calls (send_role st) = ct_calls st"
  "ct_ChoiceCount (send_role st) = ct_ChoiceCount st" "ct_outputs (send_role st) = ct_outputs st"
  "ct_store (send_role st) = ct_store st"
  by (simp_all add: send_role_def emit_delta_def emit_def)

lemma send_role_again [simp]: "send_role (send_role st) = send_role st"
  by (simp add: send_role_def [of "send_role st"])

lemma text_ok:
  assumes "chat_ok legacy st cv tv n"
  shows "chat_ok legacy (emit_delta [(''content'', JStr text)] (send_role st\<lparr>ct_SawText := True\<rparr>)) cv (fst tv @ text, True) n"
proof -
  have "chat_ok legacy (send_role st\<lparr>ct_SawText := True\<rparr>) cv (fst tv, True) n"
    using send_role_ok [OF assms] by (auto simp: chat_ok_def)
  from emit_ok [OF this, of "chatChunk (send_role st\<lparr>ct_SawText := True\<rparr>) [(''content'', JStr text)] None None None"] assms
  show ?thesis
    by (simp add: emit_delta_def chunk_delta_chatChunk chat_ok_def [of legacy st]) (simp add: clone_obj_def has_key_def)
qed

lemma tool_call_entry:
  "tool_call legacy o' st = (let c = entry (ct_calls st) o' in (if visible legacy c then Some c else None, put_call o' c st))"
  by (auto simp: tool_call_def entry_def put_call_def Let_def update_triv split: option.split)

lemma put_call_simps [simp]:
  "ct_calls (put_call o' c st) = AList.update o' c (ct_calls st)" "ct_RoleSent (put_call o' c st) = ct_RoleSent st"
  "ct_written (put_call o' c st) = ct_written st" "ct_SawText (put_call o' c st) = ct_SawText st"
  "ct_ChoiceCount (put_call o' c st) = ct_ChoiceCount st"
  by (simp_all add: put_call_def)

lemma put_call_role: "send_role (put_call o' c st) = put_call o' c (send_role st)"
  by (simp add: send_role_def put_call_def emit_delta_def emit_def chatChunk_def Let_def)

lemma put_call_twice: "put_call o' d (put_call o' c st) = put_call o' d st"
proof -
  have "AList.update o' d (AList.update o' c xs) = AList.update o' d xs" for xs :: "(int \<times> chatStreamToolCall) list"
    by (induction xs) auto
  then show ?thesis by (simp add: put_call_def)
qed

lemma put_entry: "map_of (ct_calls st) o' \<noteq> None \<Longrightarrow> put_call o' (entry (ct_calls st) o') st = st"
  by (auto simp: put_call_def entry_def update_triv)

lemma hidden_ok:
  "chat_ok legacy st cv tv n \<Longrightarrow> \<not> visible legacy (entry (ct_calls st) o') \<Longrightarrow>
     chat_ok legacy (put_call o' (entry (ct_calls st) o') st) (cv(o' := Some v)) tv (Suc n)"
  by (simp add: chat_ok_def calls_ok_hidden)

lemma client_send_role [simp]:
  assumes "chat_ok legacy st cv tv n"
  shows "client_arguments legacy i (ct_written (send_role st)) = client_arguments legacy i (ct_written st)"
  using assms by (simp add: send_role_def emit_delta_def emit_def chat_ok_def chunk_delta_chatChunk)

text \<open>A visible call is sent the arguments \<open>args\<close> in the delta \<open>d\<close>.\<close>

lemma call_ok:
  assumes ok: "chat_ok legacy st cv tv n" and vis: "visible legacy (entry (ct_calls st) o')"
    and c: "cl_index c = cl_index (entry (ct_calls st) o')" "cl_started c"
    and d: "d = argumentsDelta (cl_index c) args legacy \<or> d = toolDelta item (cl_index c) args legacy"
    and agree: "int (Suc n) < 2 ^ 53 \<Longrightarrow> suffix (cl_sent c) (client_arguments legacy (cl_index c) (ct_written st) @ args)
      \<and> (\<not> again \<longrightarrow> client_arguments legacy (cl_index c) (ct_written st) @ args = cl_sent c)"
  shows "chat_ok legacy (emit_delta d (put_call o' c (send_role st))) (cv(o' := Some (cl_sent c, again))) tv (Suc n)"
proof -
  let ?st = "put_call o' c (send_role st)" and ?w = "chatChunk (put_call o' c (send_role st)) d None None None"
  have role: "chat_ok legacy (send_role st) cv tv n"
    by (rule send_role_ok [OF ok])
  then have w: "chunk_delta ?w = clone_obj d"
    by (simp add: chat_ok_def chunk_delta_chatChunk)
  have "calls_ok legacy (AList.update o' c (ct_calls st)) (ct_written (send_role st) @ [?w]) (cv(o' := Some (cl_sent c, again))) (Suc n)"
  proof (rule calls_ok_put)
    show "calls_ok legacy (ct_calls st) (ct_written (send_role st)) cv n"
      using role by (simp add: chat_ok_def)
    show "delta_arguments legacy i (chunk_delta ?w) = (if i = cl_index c then args else [])"
      if "int i < 2 ^ 53" "int (cl_index c) < 2 ^ 53" for i
      using d vis c(1) delta_arguments_call [OF that, of legacy] by (auto simp: w)
  qed (use vis c agree ok in simp_all)
  moreover have "oget (clone_obj d) ''content'' = JNull" "\<not> has_key (clone_obj d) ''role''"
    using d by auto
  moreover have "ct_written (send_role st) \<noteq> []"
    using role by (simp add: chat_ok_def)
  ultimately show ?thesis
    using role by (simp add: chat_ok_def emit_delta_def emit_def w)
qed

lemma call_added_ok:
  assumes ok: "chat_ok legacy st cv tv n"
  shows "chat_ok legacy (call_added legacy o' item st) (cv(o' := Some ([], cv o' \<noteq> None))) tv (Suc n)"
proof (cases "visible legacy (entry (ct_calls st) o')")
  case True
  let ?c = "(entry (ct_calls st) o')\<lparr>cl_started := True, cl_sent := []\<rparr>"
  have calls: "calls_ok legacy (ct_calls st) (ct_written st) cv n"
    using ok by (simp add: chat_ok_def)
  have "\<not> cv o' \<noteq> None \<longrightarrow> client_arguments legacy (cl_index ?c) (ct_written st) = []" if "int (Suc n) < 2 ^ 53"
    using that by (cases rule: entry_cases [OF calls True]) auto
  then have "chat_ok legacy (emit_delta (toolDelta item (cl_index ?c) [] legacy) (put_call o' ?c (send_role st)))
      (cv(o' := Some (cl_sent ?c, cv o' \<noteq> None))) tv (Suc n)"
    by (intro call_ok [OF ok True, where args = "[]"]) auto
  then show ?thesis
    using True by (simp add: call_added_def tool_call_entry Let_def put_call_role put_call_twice)
next
  case False
  then show ?thesis
    using hidden_ok [OF ok] by (simp add: call_added_def tool_call_entry Let_def)
qed

lemma call_delta_ok:
  assumes ok: "chat_ok legacy st cv tv n"
  shows "chat_ok legacy (call_delta legacy o' d st)
    (cv(o' := Some (case cv o' of None \<Rightarrow> (d, False) | Some (s, again) \<Rightarrow> (s @ d, again)))) tv (Suc n)"
proof (cases "visible legacy (entry (ct_calls st) o')")
  case True
  let ?e = "entry (ct_calls st) o'"
  let ?c = "?e\<lparr>cl_started := True, cl_sent := cl_sent ?e @ d\<rparr>"
  have calls: "calls_ok legacy (ct_calls st) (ct_written st) cv n"
    using ok by (simp add: chat_ok_def)
  obtain again where v: "(case cv o' of None \<Rightarrow> (d, False) | Some (s, again) \<Rightarrow> (s @ d, again)) = (cl_sent ?c, again)"
    and agree: "int (Suc n) < 2 ^ 53 \<Longrightarrow> suffix (cl_sent ?c) (client_arguments legacy (cl_index ?c) (ct_written st) @ d)
      \<and> (\<not> again \<longrightarrow> client_arguments legacy (cl_index ?c) (ct_written st) @ d = cl_sent ?c)"
    by (cases rule: entry_cases [OF calls True]) auto
  have "chat_ok legacy (emit_delta (argumentsDelta (cl_index ?c) d legacy) (put_call o' ?c (send_role st)))
      (cv(o' := Some (cl_sent ?c, again))) tv (Suc n)"
    by (rule call_ok [OF ok True, where args = d]) (use agree in auto)
  then show ?thesis
    using True unfolding v by (simp add: call_delta_def tool_call_entry Let_def put_call_role put_call_twice)
next
  case False
  then show ?thesis
    using hidden_ok [OF ok] by (simp add: call_delta_def tool_call_entry Let_def)
qed

lemma call_finished_ok:
  assumes ok: "chat_ok legacy st cv tv n" and role: "ct_RoleSent st"
    and args: "args = stringValue (oget item ''arguments'')"
  shows "chat_ok legacy (call_finished legacy o' item st) (cv(o' := Some (case cv o' of None \<Rightarrow> (args, False)
    | Some (s, again) \<Rightarrow> (if has_prefix s args then args else s, again)))) tv (Suc n)"
proof (cases "visible legacy (entry (ct_calls st) o')")
  case True
  let ?e = "entry (ct_calls st) o'"
  have calls: "calls_ok legacy (ct_calls st) (ct_written st) cv n"
    using ok by (simp add: chat_ok_def)
  have sent: "send_role st = st"
    using role by (simp add: send_role_def)
  show ?thesis
  proof (cases rule: entry_cases [OF calls True, case_names new old])
    case new
    let ?c = "?e\<lparr>cl_started := True, cl_sent := args\<rparr>"
    have "chat_ok legacy (emit_delta (toolDelta item (cl_index ?c) args legacy) (put_call o' ?c (send_role st)))
        (cv(o' := Some (cl_sent ?c, False))) tv (Suc n)"
      by (rule call_ok [OF ok True, where args = args]) (use new in auto)
    then show ?thesis
      using new True by (simp add: call_finished_def tool_call_entry Let_def put_call_role put_call_twice flip: args)
  next
    case (old again)
    let ?rest = "trim_prefix (cl_sent ?e) args" and ?c = "?e\<lparr>cl_sent := args\<rparr>"
    have known: "map_of (ct_calls st) o' \<noteq> None"
      using old(1) calls_known [OF calls, of o'] by simp
    show ?thesis
    proof (cases "has_prefix (cl_sent ?e) args \<and> ?rest \<noteq> []")
      case True
      then have split: "cl_sent ?e @ ?rest = args"
        by (auto simp: trim_prefix_def dest: has_prefix_decomp [symmetric])
      have "chat_ok legacy (emit_delta (argumentsDelta (cl_index ?c) ?rest legacy) (put_call o' ?c (send_role st)))
          (cv(o' := Some (cl_sent ?c, again))) tv (Suc n)"
        by (rule call_ok [OF ok \<open>visible legacy ?e\<close>, where args = ?rest]) (use old(2,3) split in \<open>auto simp: suffix_def\<close>)
      then show ?thesis
        using True old(1,2) \<open>visible legacy ?e\<close> sent
        by (simp add: call_finished_def tool_call_entry Let_def put_call_twice flip: args)
    next
      case False
      then have "(if has_prefix (cl_sent ?e) args then args else cl_sent ?e) = cl_sent ?e"
        using has_prefix_decomp [of "cl_sent ?e" args] by (auto simp: trim_prefix_def)
      then show ?thesis
        using False old(1,2) \<open>visible legacy ?e\<close> chat_ok_Suc [OF ok] known
        by (auto simp: call_finished_def tool_call_entry Let_def put_entry fun_upd_idem simp flip: args)
    qed
  qed
next
  case False
  then show ?thesis
    using hidden_ok [OF ok] by (simp add: call_finished_def tool_call_entry Let_def)
qed

subsection \<open>Every event\<close>

lemma item_finished_ok:
  assumes ok: "chat_ok legacy st cv tv n" and role: "ct_RoleSent st"
  shows "chat_ok legacy (item_finished legacy o' item st)
    (if oget item ''type'' = JStr ''function_call'' then cv(o' := Some (case cv o' of
         None \<Rightarrow> (stringValue (oget item ''arguments''), False)
       | Some (s, again) \<Rightarrow> (if has_prefix s (stringValue (oget item ''arguments''))
           then stringValue (oget item ''arguments'') else s, again))) else cv)
    (if oget item ''type'' = JStr ''message'' \<and> \<not> snd tv
     then (fst tv @ messageText (Some item), messageText (Some item) \<noteq> []) else tv) (Suc n)"
proof -
  let ?st = "st\<lparr>ct_outputs := ct_outputs st @ [JObj item]\<rparr>"
  have ok': "chat_ok legacy ?st cv tv n"
    using ok by simp
  have saw: "ct_SawText st = snd tv"
    using ok by (simp add: chat_ok_def)
  consider (call) "oget item ''type'' = JStr ''function_call''" | (message) "oget item ''type'' = JStr ''message''"
    | (other) "oget item ''type'' \<notin> {JStr ''function_call'', JStr ''message''}"
    by blast
  then show ?thesis
  proof cases
    case call
    then show ?thesis
      using call_finished_ok [OF ok' _ refl, of o' item] role by (simp add: item_finished_def)
  next
    case message
    then show ?thesis
      using chat_ok_Suc [OF text_ok [OF ok', of "messageText (Some item)"]] chat_ok_Suc [OF ok'] saw
      by (cases tv) (auto simp: item_finished_def message_finished_def Let_def)
  next
    case other
    then show ?thesis
      using chat_ok_Suc [OF ok'] by (simp add: item_finished_def)
  qed
qed

lemma text_delta_ok:
  "chat_ok legacy st cv tv n \<Longrightarrow> chat_ok legacy (text_delta d st) cv (fst tv @ d, snd tv \<or> d \<noteq> []) n"
  using text_ok [of legacy st cv tv n d] send_role_ok [of legacy st cv tv n] by (simp add: text_delta_def Let_def)

lemma chat_complete_ok:
  assumes ok: "chat_ok (cq_legacy cq) st cv tv n"
  shows "chat_ok (cq_legacy cq) (chat_complete cq resp st) cv tv n"
proof -
  have quiet: "chat_ok (cq_legacy cq) (emit (chatChunk st1 [] f cs u) st1) cv tv n"
    if "chat_ok (cq_legacy cq) st1 cv tv n" "ct_RoleSent st1" "cs = None \<or> cs = Some []" for st1 f cs u
  proof -
    have "chunk_delta (chatChunk st1 [] f cs u) = []"
      using that(1,3) by (auto simp: chat_ok_def chunk_delta_chatChunk clone_obj_def)
    then show ?thesis
      using emit_ok [OF that(1,2), of "chatChunk st1 [] f cs u"] by (simp add: has_key_def)
  qed
  show ?thesis
    unfolding chat_complete_def Let_def
    by (auto intro!: quiet send_role_ok ok)
qed

definition chat_inv :: "chat_request \<Rightarrow> chatStreamState \<Rightarrow> gomap list \<Rightarrow> bool" where
  "chat_inv cq st evs = chat_ok (cq_legacy cq) st (\<lambda>o'. call_view o' evs) (text_view evs) (length evs)"

lemma chat_event_inv:
  assumes "chat_inv cq st evs"
  shows "chat_inv cq (fst (chat_event cq st e)) (evs @ [e])"
proof -
  let ?cv = "\<lambda>o'. call_view o' evs" and ?tv = "text_view evs" and ?n = "length evs"
  define ty where "ty = stringValue (mget e ''type'')"
  define o' where "o' = intValue (mget e ''output_index'')"
  define st1 where "st1 = (if before_output ty then st else send_role st)"
  note step = chat_event_def Let_def ty_def [symmetric] o'_def [symmetric] st1_def [symmetric]
  have ok: "chat_ok (cq_legacy cq) st1 ?cv ?tv ?n"
    using assms send_role_ok unfolding chat_inv_def st1_def by simp
  have goal: "chat_inv cq (fst (chat_event cq st e)) (evs @ [e])"
    if "chat_ok (cq_legacy cq) (fst (chat_event cq st e)) cv' tv' (Suc ?n)"
      "(\<lambda>x. call_step x e (?cv x)) = cv'" "text_step e ?tv = tv'" for cv' tv'
    using that by (simp add: chat_inv_def call_view_snoc text_view_snoc)
  have no_call: "(\<lambda>x. call_step x e (?cv x)) = ?cv"
    if "ty \<notin> {''response.output_item.added'', ''response.function_call_arguments.delta'', ''response.output_item.done''}
      \<or> ty \<noteq> ''response.function_call_arguments.delta'' \<and> call_item e = None"
    unfolding call_step_def Let_def ty_def [symmetric] using that by auto
  have no_text: "text_step e ?tv = ?tv"
    if "ty \<notin> {''response.output_text.delta'', ''response.output_item.done''}"
    unfolding text_step_def Let_def ty_def [symmetric] using that by (cases ?tv) simp
  consider (delta) "ty = ''response.output_text.delta''" | (added) "ty = ''response.output_item.added''"
    | (args) "ty = ''response.function_call_arguments.delta''" | (finished) "ty = ''response.output_item.done''"
    | (other) "ty \<notin> {''response.output_text.delta'', ''response.output_item.added'', ''response.function_call_arguments.delta'',
        ''response.output_item.done''}"
    by (unfold insert_iff empty_iff) satx
  then show ?thesis
  proof cases
    case delta
    then show ?thesis
      by (intro goal [OF _ no_call], unfold step)
        (use chat_ok_Suc [OF text_delta_ok [OF ok, of "stringValue (mget e ''delta'')"]] in
          \<open>auto simp: text_step_def Let_def simp flip: ty_def\<close>)
  next
    case added
    then show ?thesis
    proof (cases "call_item e")
      case None
      then show ?thesis
        by (intro goal [OF _ no_call no_text], unfold step) (use chat_ok_Suc [OF ok] added None in auto)
    next
      case (Some item)
      show ?thesis
        by (rule goal [OF _ _ no_text], unfold step)
          (use Some added call_added_ok [OF ok, of o' item] in \<open>auto simp: call_step_def fun_eq_iff simp flip: ty_def o'_def\<close>)
    qed
  next
    case args
    show ?thesis
      by (rule goal [OF _ _ no_text], unfold step)
        (use args call_delta_ok [OF ok, of o' "stringValue (mget e ''delta'')"] in
          \<open>auto simp: call_step_def fun_eq_iff Let_def simp flip: ty_def o'_def\<close>)
  next
    case finished
    have role: "ct_RoleSent st1"
      using finished by (simp add: st1_def before_output_def isLifecycleEvent_def)
    show ?thesis
    proof (cases "event_item e")
      case None
      then have "call_item e = None"
        by (simp add: call_item_def)
      moreover have "text_step e ?tv = ?tv"
        unfolding text_step_def Let_def ty_def [symmetric] using finished None by (cases ?tv) simp
      ultimately have "call_item e = None" "text_step e ?tv = ?tv" .
      then show ?thesis
        by (intro goal [OF _ no_call], unfold step) (use chat_ok_Suc [OF ok] finished None in auto)
    next
      case (Some item)
      show ?thesis
      proof (rule goal)
        show "chat_ok (cq_legacy cq) (fst (chat_event cq st e)) (if oget item ''type'' = JStr ''function_call'' then ?cv(o' :=
            Some (case ?cv o' of None \<Rightarrow> (stringValue (oget item ''arguments''), False)
            | Some (s, again) \<Rightarrow> (if has_prefix s (stringValue (oget item ''arguments''))
                then stringValue (oget item ''arguments'') else s, again))) else ?cv)
            (if oget item ''type'' = JStr ''message'' \<and> \<not> snd ?tv
             then (fst ?tv @ messageText (Some item), messageText (Some item) \<noteq> []) else ?tv) (Suc ?n)"
          unfolding step using finished Some item_finished_ok [OF ok role, of o' item] by simp
      qed (use finished Some in \<open>unfold call_step_def text_step_def call_item_def Let_def ty_def [symmetric] o'_def [symmetric],
          auto simp: fun_eq_iff prod_eq_iff\<close>)
    qed
  next
    case other
    have "chat_ok (cq_legacy cq) (fst (chat_event cq st e)) ?cv ?tv (Suc ?n)"
      unfolding step using other chat_ok_Suc [OF ok] chat_ok_Suc [OF chat_complete_ok [OF ok]]
      by (auto split: option.split)
    then show ?thesis
      by (rule goal [OF _ no_call no_text]) (use other in auto)
  qed
qed

lemma chat_start_inv: "chat_inv cq (chat_stream_start cq i cs) []"
  by (simp add: chat_inv_def chat_ok_def chat_stream_start_def chatChoiceCount_def Let_def role_first_def text_view_def
      calls_ok_def call_view_def)

interpretation chatting: stream_consumer "chat_event cq" "chat_stream_start cq i cs" "chat_inv cq"
  by unfold_locales (rule chat_start_inv, rule chat_event_inv)

subsection \<open>What a client gets\<close>

text \<open>The outputs of the function calls, in the order of their first events, number the calls.\<close>

definition numbered_calls :: "bool \<Rightarrow> int list \<Rightarrow> gomap list \<Rightarrow> json list \<Rightarrow> bool" where
  "numbered_calls legacy outs evs ws \<longleftrightarrow> distinct outs \<and> (\<forall>o'. o' \<in> set outs \<longleftrightarrow> call_view o' evs \<noteq> None)
     \<and> (\<forall>i < length outs. (legacy \<longrightarrow> i = 0) \<longrightarrow> (\<exists>args again. call_view (outs ! i) evs = Some (args, again)
          \<and> suffix args (client_arguments legacy i ws) \<and> (\<not> again \<longrightarrow> client_arguments legacy i ws = args)))"

lemma calls_ok_numbered:
  assumes ok: "calls_ok legacy calls ws (\<lambda>o'. call_view o' evs) (length evs)" and n: "int (length evs) < 2 ^ 53"
  shows "numbered_calls legacy (map fst calls) evs ws"
proof -
  have parts: "distinct (map fst calls)" "map (cl_index \<circ> snd) calls = [0..<length calls]"
    "\<And>o' c. map_of calls o' = Some c \<Longrightarrow> visible legacy c \<Longrightarrow> call_agrees legacy ws c (call_view o' evs)"
    using ok n unfolding calls_ok_def by auto
  have known: "o' \<in> set (map fst calls) \<longleftrightarrow> call_view o' evs \<noteq> None" for o'
    using calls_known [OF ok, of o'] by (simp add: map_of_eq_None_iff)
  have "\<exists>args again. call_view (map fst calls ! i) evs = Some (args, again)
      \<and> suffix args (client_arguments legacy i ws) \<and> (\<not> again \<longrightarrow> client_arguments legacy i ws = args)"
    if i: "i < length calls" "legacy \<longrightarrow> i = 0" for i
  proof -
    let ?c = "snd (calls ! i)"
    have "cl_index ?c = i"
      using parts(2) i(1) by (metis add_0 comp_apply nth_map nth_upt)
    moreover have "map_of calls (fst (calls ! i)) = Some ?c"
      using parts(1) i(1) by simp
    ultimately show ?thesis
      using parts(3) [of "fst (calls ! i)" ?c] i by (auto simp: call_agrees_def)
  qed
  then show ?thesis
    unfolding numbered_calls_def length_map using parts(1) known by blast
qed

text \<open>C1: A streamed chat completion is well formed and says what the upstream said: its first chunk and
  no other carries the role; the text the client assembles is the text of the events of one attempt;
  and the function calls are numbered 0, 1, 2 in the order they appear, each with arguments that end
  in what the attempt's events say they are, exactly that unless the call was announced twice (a
  legacy client gets the first call only).  At most an error follows.\<close>

theorem streamed_chat_is_well_formed:
  assumes "streamChat be slot cq i cs = (Some (EventAnswer ws closed'), cs')"
    and "\<And>k. int (length (fst (backend_events be (cq_payload cq) k))) < 2 ^ 53"
  shows "\<exists>k evs ws1 rest outs. prefix evs (fst (backend_events be (cq_payload cq) k)) \<and> ws = ws1 @ rest \<and> length rest \<le> 1
    \<and> role_first ws1 \<and> client_text ws1 = fst (text_view evs) \<and> numbered_calls (cq_legacy cq) outs evs ws1"
proof -
  let ?run = "backend_stream be (cq_payload cq) (chat_event cq) (chat_stream_start cq i cs)"
  obtain st err where run: "?run = (st, err)"
    by (cases ?run)
  have "\<exists>k evs. prefix evs (fst (backend_events be (cq_payload cq) k)) \<and> chat_inv cq (fst ?run) evs"
    by (rule chatting.backend_inv)
  then obtain k evs where k: "prefix evs (fst (backend_events be (cq_payload cq) k))" and inv: "chat_inv cq st evs"
    by (auto simp: run)
  have "chat_answer st err = EventAnswer ws closed'"
    using assms(1) by (auto simp: streamChat_def run split: sum.splits)
  then have ws: "\<exists>rest. ws = ct_written st @ rest \<and> length rest \<le> 1"
    by (auto simp: chat_answer_def split: if_splits option.splits)
  have "int (length evs) < 2 ^ 53"
    using assms(2) [of k] prefix_length_le [OF k] by linarith
  then have "numbered_calls (cq_legacy cq) (map fst (ct_calls st)) evs (ct_written st)"
    using inv calls_ok_numbered unfolding chat_inv_def chat_ok_def by blast
  moreover have "role_first (ct_written st)" "client_text (ct_written st) = fst (text_view evs)"
    using inv by (simp_all add: chat_inv_def chat_ok_def)
  ultimately show ?thesis
    using k ws by blast
qed

definition sample_chat :: chat_request where
  "sample_chat = \<lparr>cq_http_date = (\<lambda>_. None), cq_body = [], cq_payload = [(''model'', JStr ''m'')], cq_fresh = ''f'', cq_now = 0, cq_unix = 1\<rparr>"

theorem streamed_chat_is_well_formed_witness:
  "\<exists>ws closed' cs'. streamChat sample_backend (Inr None) sample_chat ''c'' (new_store 1) = (Some (EventAnswer ws closed'), cs')
     \<and> (\<exists>ws1 rest. ws = ws1 @ rest \<and> length rest \<le> 1 \<and> role_first ws1)"
proof -
  let ?run = "streamChat sample_backend (Inr None) sample_chat ''c'' (new_store 1)"
  let ?step = "chat_event sample_chat (chat_stream_start sample_chat ''c'' (new_store 1)) sample_event"
  have "snd ?step = None"
    by (simp add: chat_event_def sample_event_def Let_def failedResponseError_def)
  then obtain st where "?step = (st, None)"
    by (metis prod.collapse)
  then obtain ws closed' cs' where r: "?run = (Some (EventAnswer ws closed'), cs')"
    by (simp add: streamChat_def sample_stream chat_answer_def)
  have "int (length (fst (backend_events sample_backend (cq_payload sample_chat) k))) < 2 ^ 53" for k
    by (simp add: attempt_events_def sample_backend_def sample_once recorder_def)
  from streamed_chat_is_well_formed [OF r this] r show ?thesis by blast
qed

end
