(* ===== verification/Base64.thy ===== *)
theory Base64
  imports Strconv
begin

text \<open>
  The base64 codings the code uses (\<open>encoding/base64\<close>): \<open>StdEncoding.EncodeToString\<close> of an uploaded
  image, and \<open>RawURLEncoding.DecodeString\<close> of the payload of a token.
\<close>

section \<open>Bytes and digits\<close>

definition byte :: "char \<Rightarrow> nat" where
  "byte c = of_char c"

definition upper_digits :: string where
  "upper_digits = ''ABCDEFGHIJKLMNOPQRSTUVWXYZabcdefghijklmnopqrstuvwxyz0123456789''"

definition std_alphabet :: string where
  "std_alphabet = upper_digits @ ''+/''"

definition url_alphabet :: string where
  "url_alphabet = upper_digits @ ''-_''"

text \<open>The digits of a group of bytes.\<close>

fun sextets :: "nat list \<Rightarrow> nat list" where
  "sextets [] = []"
| "sextets [a] = [a div 4, a mod 4 * 16]"
| "sextets [a, b] = [a div 4, a mod 4 * 16 + b div 16, b mod 16 * 4]"
| "sextets (a # b # c # rest) =
     [a div 4, a mod 4 * 16 + b div 16, b mod 16 * 4 + c div 64, c mod 64] @ sextets rest"

text \<open>The bytes of digits; the bits left over are not looked at, and a single digit left over is an
  error.\<close>

fun octets :: "nat list \<Rightarrow> nat list option" where
  "octets [] = Some []"
| "octets [p] = None"
| "octets [p, q] = Some [p * 4 + q div 16]"
| "octets [p, q, r] = Some [p * 4 + q div 16, q mod 16 * 16 + r div 4]"
| "octets (p # q # r # s # rest) =
     map_option (\<lambda>bs. [p * 4 + q div 16, q mod 16 * 16 + r div 4, r mod 4 * 64 + s] @ bs) (octets rest)"

section \<open>The codings\<close>

definition encode_raw :: "string \<Rightarrow> string \<Rightarrow> string" where
  "encode_raw alphabet s = map (\<lambda>d. alphabet ! d) (sextets (map byte s))"

definition base64_encode :: "string \<Rightarrow> string" where
  "base64_encode s = encode_raw std_alphabet s @ replicate ((3 - length s mod 3) mod 3) (CHR ''='')"

text \<open>The decoder passes over line ends.\<close>

fun index_of :: "char \<Rightarrow> string \<Rightarrow> nat option" where
  "index_of c [] = None"
| "index_of c (a # as) = (if c = a then Some 0 else map_option Suc (index_of c as))"

fun digit_values :: "string \<Rightarrow> string \<Rightarrow> nat list option" where
  "digit_values alphabet [] = Some []"
| "digit_values alphabet (c # cs) =
     (if c = CHR 0x0A \<or> c = CHR 0x0D then digit_values alphabet cs
      else case index_of c alphabet of
        None \<Rightarrow> None | Some d \<Rightarrow> map_option ((#) d) (digit_values alphabet cs))"

definition base64url_decode :: "string \<Rightarrow> string option" where
  "base64url_decode s = (case digit_values url_alphabet s of
       None \<Rightarrow> None
     | Some ds \<Rightarrow> map_option (map (char_of :: nat \<Rightarrow> char)) (octets ds))"

section \<open>Round trip\<close>

lemma byte_less: "byte c < 256"
  using of_char_mod_256 [of c] by (simp add: byte_def)

lemma octets_sextets: "\<forall>b \<in> set bs. b < 256 \<Longrightarrow> octets (sextets bs) = Some bs"
  by (induction bs rule: sextets.induct) (auto simp: algebra_simps)

lemma sextets_less: "\<forall>b \<in> set bs. b < 256 \<Longrightarrow> \<forall>d \<in> set (sextets bs). d < 64"
  by (induction bs rule: sextets.induct) auto

lemma index_of_nth: "distinct as \<Longrightarrow> i < length as \<Longrightarrow> index_of (as ! i) as = Some i"
proof (induction as arbitrary: i)
  case (Cons a as)
  then show ?case
    by (cases i) (auto simp: in_set_conv_nth)
qed simp

lemma url_alphabet_facts: "distinct url_alphabet" "length url_alphabet = 64"
  "CHR 0x0A \<notin> set url_alphabet" "CHR 0x0D \<notin> set url_alphabet"
  by code_simp+

lemma digit_values_map:
  "\<forall>d \<in> set ds. d < 64 \<Longrightarrow> digit_values url_alphabet (map ((!) url_alphabet) ds) = Some ds"
proof (induction ds)
  case (Cons d ds)
  then have d: "d < length url_alphabet"
    by (simp add: url_alphabet_facts)
  then have "url_alphabet ! d \<in> set url_alphabet"
    by (rule nth_mem)
  then have "url_alphabet ! d \<noteq> CHR 0x0A" "url_alphabet ! d \<noteq> CHR 0x0D"
    using url_alphabet_facts(3,4) by auto
  then show ?case
    using Cons index_of_nth [OF url_alphabet_facts(1) d] by simp
qed simp

lemma decode_encode: "base64url_decode (encode_raw url_alphabet s) = Some s"
proof -
  have b: "\<forall>x \<in> set (map byte s). x < 256"
    by (simp add: byte_less)
  have "digit_values url_alphabet (encode_raw url_alphabet s) = Some (sextets (map byte s))"
    unfolding encode_raw_def by (rule digit_values_map [OF sextets_less [OF b]])
  then show ?thesis
    by (simp add: base64url_decode_def octets_sextets [OF b] o_def byte_def)
qed

end
