(* ===== verification/Images.thy ===== *)
theory Images
  imports Server Base64
begin

text \<open>
  The Images API (\<open>server.go\<close>): the request in its two shapes, its validation, the payload for the
  hosted image tool, the collected images and the image stream.

  The parsed multipart form and the media types \<open>mime.ParseMediaType\<close> reads are arguments.
\<close>

section \<open>Requests\<close>

text \<open>An uploaded part: whether it opens, its bytes (\<open>None\<close>: reading fails), the media type its header
  declares and the one that is sniffed, each as \<open>mime.ParseMediaType\<close> yields it.\<close>

record upload =
  ul_opens :: bool
  ul_bytes :: "string option"
  ul_declared :: "string option"
  ul_sniffed :: "string option"

definition maxImageUploadBytes :: nat where
  "maxImageUploadBytes = 33554432"

definition maxImageEditInputs :: nat where
  "maxImageEditInputs = 16"

definition maxImagePartials :: int where
  "maxImagePartials = 3"

definition uploadMediaType :: "upload \<Rightarrow> string" where
  "uploadMediaType u = (case ul_declared u of
       Some t \<Rightarrow> if has_prefix ''image/'' t then t else
         (case ul_sniffed u of Some t \<Rightarrow> if has_prefix ''image/'' t then t else ''image/png'' | None \<Rightarrow> ''image/png'')
     | None \<Rightarrow> (case ul_sniffed u of Some t \<Rightarrow> if has_prefix ''image/'' t then t else ''image/png'' | None \<Rightarrow> ''image/png''))"

definition dataURLFromUpload :: "upload \<Rightarrow> string option" where
  "dataURLFromUpload u =
     (if \<not> ul_opens u then None
      else case ul_bytes u of
        None \<Rightarrow> None
      | Some data \<Rightarrow> (let data = take (maxImageUploadBytes + 1) data in
          if data = [] \<or> maxImageUploadBytes < length data then None
          else Some (''data:'' @ uploadMediaType u @ '';base64,'' @ base64_encode data)))"

text \<open>A request body: decoded JSON, or a form whose fields and files come in the order the maps are
  walked; \<open>None\<close> is an error of the parser.\<close>

datatype image_request =
    JsonImage gomap
  | FormImage "((string \<times> string list) list \<times> (string \<times> upload list) list) option"

definition form_key :: "string \<Rightarrow> string" where
  "form_key name = trim_suffix ''[]'' name"

definition form_value :: "string \<times> string list \<Rightarrow> obj \<Rightarrow> obj" where
  "form_value kv body = (if snd kv = [] then body else oset (form_key (fst kv)) (JStr (last (snd kv))) body)"

fun form_files :: "(string \<times> upload list) list \<Rightarrow> obj \<Rightarrow> gomap" where
  "form_files [] body = Some body"
| "form_files ((name, files) # rest) body = (case those (map dataURLFromUpload files) of
       None \<Rightarrow> None
     | Some urls \<Rightarrow> form_files rest (if urls = [] then body else oset (form_key name) (JArr (map JStr urls)) body))"

definition decodeImageRequest :: "image_request \<Rightarrow> gomap" where
  "decodeImageRequest r = (case r of
       JsonImage body \<Rightarrow> body
     | FormImage None \<Rightarrow> None
     | FormImage (Some (values, files)) \<Rightarrow> form_files files (fold form_value values []))"

definition dataURLList :: "json \<Rightarrow> string list" where
  "dataURLList v = (case v of
       JStr s \<Rightarrow> if s = [] then [] else [s]
     | JArr items \<Rightarrow> filter (\<lambda>u. u \<noteq> []) (map stringValue items)
     | _ \<Rightarrow> [])"

definition imageStreamRequested :: "obj \<Rightarrow> bool" where
  "imageStreamRequested body = (case oget body ''stream'' of
       JBool b \<Rightarrow> b | JStr s \<Rightarrow> s = ''true'' \<or> s = ''1'' | _ \<Rightarrow> False)"

section \<open>Validation\<close>

text \<open>A check gives the message and the parameter it refuses; the first refusal counts.\<close>

type_synonym refusal = "(string \<times> string) option"

fun first_refusal :: "refusal list \<Rightarrow> refusal" where
  "first_refusal [] = None"
| "first_refusal (None # rs) = first_refusal rs"
| "first_refusal (Some e # rs) = Some e"

definition refuse_if :: "bool \<Rightarrow> string \<Rightarrow> string \<Rightarrow> refusal" where
  "refuse_if b message param = (if b then Some (message, param) else None)"

definition check_prompt :: "obj \<Rightarrow> refusal" where
  "check_prompt body = (case oget body ''prompt'' of
       JStr p \<Rightarrow> refuse_if (trim_space p = []) ''prompt is required.'' ''prompt''
     | _ \<Rightarrow> Some (''prompt is required.'', ''prompt''))"

definition image_source :: "string \<Rightarrow> bool" where
  "image_source u = (has_prefix ''data:'' u \<or> has_prefix ''https://'' u)"

definition check_images :: "obj \<Rightarrow> bool \<Rightarrow> refusal" where
  "check_images body edit = (let images = dataURLList (oget body ''image'') in
     first_refusal
      [refuse_if (edit \<and> images = []) ''image is required.'' ''image'',
       refuse_if (\<not> edit \<and> images \<noteq> []) ''image is only supported for image edits.'' ''image'',
       refuse_if (maxImageEditInputs < length images) ''image accepts at most 16 files.'' ''image'',
       refuse_if (\<not> list_all image_source images) ''image must be an uploaded file, a data URL, or an https URL.'' ''image''])"

definition check_mask :: "obj \<Rightarrow> bool \<Rightarrow> refusal" where
  "check_mask body edit = (let masks = dataURLList (oget body ''mask'') in
     if 1 < length masks then Some (''mask accepts at most one file.'', ''mask'')
     else refuse_if (length masks = 1 \<and> \<not> edit) ''mask is only supported for image edits.'' ''mask'')"

text \<open>An optional integer within bounds.\<close>

definition check_range :: "obj \<Rightarrow> string \<Rightarrow> int \<Rightarrow> int \<Rightarrow> string \<Rightarrow> string \<Rightarrow> refusal" where
  "check_range body key low high not_int out_of_range =
     (if oget body key = JNull then None
      else case exactInt (oget body key) of
        None \<Rightarrow> Some (not_int, key)
      | Some v \<Rightarrow> refuse_if (v < low \<or> high < v) out_of_range key)"

definition check_count :: "obj \<Rightarrow> refusal" where
  "check_count body = (case (if oget body ''n'' = JNull then Some 1 else exactInt (oget body ''n'')) of
       None \<Rightarrow> Some (''n must be an integer between 1 and 10.'', ''n'')
     | Some n \<Rightarrow> first_refusal
        [refuse_if (n < 1 \<or> 10 < n) ''n must be between 1 and 10.'' ''n'',
         refuse_if (1 < n \<and> imageStreamRequested body) ''n must be 1 when stream is true.'' ''n''])"

definition bad_size :: refusal where
  "bad_size = Some (''size must be '' @ [CHR 0x27] @ ''auto'' @ [CHR 0x27] @ '' or a WIDTHxHEIGHT pixel string.'', ''size'')"

definition check_size :: "obj \<Rightarrow> refusal" where
  "check_size body = (let size = stringValue (oget body ''size'') in
     if size = [] \<or> size = ''auto'' then None
     else case split_on (CHR ''x'') size of
       [w, h] \<Rightarrow> (let (wv, w_ok) = atoi w; (hv, h_ok) = atoi h in
         if \<not> w_ok \<or> \<not> h_ok \<or> wv < 1 \<or> hv < 1 then bad_size else None)
     | _ \<Rightarrow> bad_size)"

definition check_allowed :: "obj \<Rightarrow> string \<Rightarrow> string \<Rightarrow> string list \<Rightarrow> refusal" where
  "check_allowed body key message vals =
     refuse_if (oget body key \<noteq> JNull \<and> stringValue (oget body key) \<notin> set vals) message key"

text \<open>The values of the settings.\<close>

definition image_formats :: "string list" where
  "image_formats = [''png'', ''jpeg'', ''webp'']"

definition image_qualities :: "string list" where
  "image_qualities = [''low'', ''medium'', ''high'', ''auto'']"

definition image_backgrounds :: "string list" where
  "image_backgrounds = [''transparent'', ''opaque'', ''auto'']"

definition image_moderations :: "string list" where
  "image_moderations = [''low'', ''auto'']"

definition image_fidelities :: "string list" where
  "image_fidelities = [''high'', ''low'']"

definition validateImage :: "obj \<Rightarrow> bool \<Rightarrow> refusal" where
  "validateImage body edit = first_refusal
     [check_prompt body,
      check_images body edit,
      check_mask body edit,
      check_range body ''partial_images'' 0 maxImagePartials ''partial_images must be an integer between 0 and 3.''
        ''partial_images must be between 0 and 3.'',
      refuse_if (oget body ''response_format'' \<noteq> JNull)
        ''response_format is not supported for GPT image generations; images are always returned as b64_json.'' ''response_format'',
      check_count body,
      refuse_if (stringValue (valueOr (oget body ''output_format'') (JStr ''png'')) \<notin> set image_formats)
        ''output_format must be one of png, jpeg, or webp.'' ''output_format'',
      check_size body,
      check_allowed body ''quality'' ''quality must be one of low, medium, high, or auto.'' image_qualities,
      check_allowed body ''background'' ''background must be one of transparent, opaque, or auto.''
        image_backgrounds,
      check_allowed body ''moderation'' ''moderation must be one of low or auto.'' image_moderations,
      check_range body ''output_compression'' 0 100 ''output_compression must be an integer between 0 and 100.''
        ''output_compression must be between 0 and 100.'',
      refuse_if (oget body ''style'' \<noteq> JNull) ''style is not supported for GPT image generations.'' ''style'',
      check_allowed body ''input_fidelity'' ''input_fidelity must be one of high or low.'' image_fidelities]"

section \<open>The payload\<close>

definition isImageModelName :: "string \<Rightarrow> bool" where
  "isImageModelName model = (let lower = to_lower model in has_prefix ''gpt-image'' lower \<or> has_prefix ''dall-e'' lower)"

definition imageDriverModel :: "obj \<Rightarrow> string \<Rightarrow> string" where
  "imageDriverModel body fallback = (let model = trim_space (stringValue (oget body ''model'')) in
     if model = [] \<or> isImageModelName model then fallback else model)"

definition put_when :: "bool \<Rightarrow> string \<Rightarrow> json \<Rightarrow> obj \<Rightarrow> obj" where
  "put_when b k v m = (if b then oset k v m else m)"

definition copied :: "obj \<Rightarrow> string \<Rightarrow> obj \<Rightarrow> obj" where
  "copied body k m = put_when (oget body k \<noteq> JNull) k (oget body k) m"

definition exact_or_zero :: "json \<Rightarrow> int" where
  "exact_or_zero v = (case exactInt v of Some n \<Rightarrow> n | None \<Rightarrow> 0)"

definition image_tool :: "obj \<Rightarrow> obj" where
  "image_tool body = (let
     format = (let f = stringValue (oget body ''output_format'') in if f = [] then ''png'' else f);
     action = (if dataURLList (oget body ''image'') \<noteq> [] then ''edit'' else ''generate'');
     masks = dataURLList (oget body ''mask'')
     in put_when (masks \<noteq> []) ''input_image_mask'' (JObj [(''image_url'', JStr (hd masks))])
       (put_when (oget body ''partial_images'' \<noteq> JNull \<and> imageStreamRequested body) ''partial_images''
           (JInt (exact_or_zero (oget body ''partial_images'')))
         (put_when (oget body ''output_compression'' \<noteq> JNull) ''output_compression''
             (JInt (exact_or_zero (oget body ''output_compression'')))
           (fold (copied body) [''size'', ''quality'', ''background'', ''moderation'', ''input_fidelity'']
             [(''type'', JStr ''image_generation''), (''action'', JStr action), (''output_format'', JStr format)]))))"

definition image_content :: "obj \<Rightarrow> json list" where
  "image_content body = JObj [(''type'', JStr ''input_text''), (''text'', JStr (trim_space (stringValue (oget body ''prompt''))))]
     # map (\<lambda>u. JObj [(''type'', JStr ''input_image''), (''image_url'', JStr u)]) (dataURLList (oget body ''image''))"

definition imageResponsePayload :: "obj \<Rightarrow> string \<Rightarrow> obj" where
  "imageResponsePayload body model =
     [(''model'', JStr model),
      (''instructions'', JStr (if dataURLList (oget body ''image'') \<noteq> []
         then ''Use the image_generation tool to edit the provided image as requested.''
         else ''Use the image_generation tool to generate the requested image.'')),
      (''input'', JArr [JObj [(''role'', JStr ''user''), (''content'', JArr (image_content body))]]),
      (''store'', JBool False), (''tools'', JArr [JObj (image_tool body)]), (''tool_choice'', JStr ''auto''),
      (''parallel_tool_calls'', JBool True)]"

section \<open>Images of a response\<close>

definition imageFromItem :: "gomap \<Rightarrow> gomap" where
  "imageFromItem item = (case item of
       None \<Rightarrow> None
     | Some it \<Rightarrow>
         if oget it ''type'' \<noteq> JStr ''image_generation_call'' \<or> stringValue (oget it ''result'') = [] then None
         else (let r = [(''b64_json'', oget it ''result'')] in
           Some (if oget it ''revised_prompt'' \<noteq> JNull then oset ''revised_prompt'' (oget it ''revised_prompt'') r else r)))"

fun first_image :: "json list \<Rightarrow> gomap" where
  "first_image [] = None"
| "first_image (raw # rest) = (case imageFromItem (mapAny raw) of Some i \<Rightarrow> Some i | None \<Rightarrow> first_image rest)"

definition imageFromResponse :: "obj \<Rightarrow> gomap" where
  "imageFromResponse response = first_image (sliceAny (oget response ''output''))"

definition reported :: "obj \<Rightarrow> string \<times> string list \<Rightarrow> obj \<Rightarrow> obj" where
  "reported body kv m = (case kv of (k, vals) \<Rightarrow>
     let v = stringValue (oget body k) in if v \<in> set vals then oset k (JStr v) m else m)"

definition imageResultMetadata :: "obj \<Rightarrow> obj" where
  "imageResultMetadata body = fold (reported body)
     [(''background'', [''transparent'', ''opaque'']), (''quality'', [''low'', ''medium'', ''high'']),
      (''size'', [''1024x1024'', ''1024x1536'', ''1536x1024''])]
     [(''output_format'', valueOr (oget body ''output_format'') (JStr ''png''))]"

section \<open>Collected images\<close>

text \<open>The loop over the requested images; \<open>be i\<close> is the backend as the \<open>i\<close>th request meets it.\<close>

definition no_image_message :: string where
  "no_image_message = ''Codex backend did not return an image_generation_call.''"

definition collect_image :: "codexBackend \<Rightarrow> int \<Rightarrow> obj \<Rightarrow> http_response + obj \<times> obj" where
  "collect_image be unix payload = (case backend_collect be payload of
       Inl err \<Rightarrow> Inl (writeBackendError err)
     | Inr resp \<Rightarrow> (case failedResponseError (be_http_date be) unix (Some resp) of
           Some err \<Rightarrow> Inl (writeBackendError err)
         | None \<Rightarrow> (case imageFromResponse resp of
               None \<Rightarrow> Inl (error_response 502 no_image_message ''api_error'' JNull JNull)
             | Some img \<Rightarrow> Inr (resp, img))))"

fun collect_images ::
  "(nat \<Rightarrow> codexBackend) \<Rightarrow> int \<Rightarrow> obj \<Rightarrow> nat \<Rightarrow> nat \<Rightarrow> int \<Rightarrow> http_response + int \<times> json list" where
  "collect_images be unix payload 0 i created = Inr (created, [])"
| "collect_images be unix payload (Suc left) i created = (case collect_image (be i) unix payload of
       Inl r \<Rightarrow> Inl r
     | Inr (resp, img) \<Rightarrow> (let v = intValue (oget resp ''created_at'');
           created = (if v \<noteq> 0 then v else created) in
         case collect_images be unix payload left (Suc i) created of
           Inl r \<Rightarrow> Inl r
         | Inr (created, rest) \<Rightarrow> Inr (created, JObj img # rest)))"

definition image_count :: "obj \<Rightarrow> nat" where
  "image_count body = (let n = intValue (oget body ''n'') in nat (if n = 0 then 1 else n))"

definition images_result :: "obj \<Rightarrow> int \<Rightarrow> json list \<Rightarrow> obj" where
  "images_result body created data =
     fold (\<lambda>(k, v). oset k v) (imageResultMetadata body) [(''created'', JInt created), (''data'', JArr data)]"

section \<open>The image stream\<close>

text \<open>A frame: the defaults, over them the requested settings, over them what the event reports.\<close>

definition event_setting :: "gomap \<Rightarrow> string \<Rightarrow> obj \<Rightarrow> obj" where
  "event_setting event k frame = (let v = stringValue (mget event k) in if v \<noteq> [] then oset k (JStr v) frame else frame)"

definition imageStreamEvent :: "string \<Rightarrow> obj \<Rightarrow> int \<Rightarrow> string \<Rightarrow> gomap \<Rightarrow> obj" where
  "imageStreamEvent eventType metadata created b64 event =
     fold (event_setting event) [''size'', ''quality'', ''background'', ''output_format'']
      (fold (\<lambda>(k, v). oset k v) metadata
        [(''type'', JStr eventType), (''b64_json'', JStr b64), (''created_at'', JInt created),
         (''background'', JStr ''auto''), (''quality'', JStr ''auto''), (''size'', JStr ''auto''), (''output_format'', JStr ''png'')])"

record image_stream =
  im_created :: int
  im_final :: gomap
  im_usage :: gomap
  im_written :: "json list"

definition image_prefix :: "bool \<Rightarrow> string" where
  "image_prefix edit = (if edit then ''image_edit'' else ''image_generation'')"

definition completed_frame :: "bool \<Rightarrow> obj \<Rightarrow> image_stream \<Rightarrow> gomap \<Rightarrow> gomap \<Rightarrow> image_stream" where
  "completed_frame edit metadata st img event = (case img of
       None \<Rightarrow> st
     | Some i \<Rightarrow> st\<lparr>im_final := Some (imageStreamEvent (image_prefix edit @ ''.completed'') metadata (im_created st)
         (stringValue (oget i ''b64_json'')) event)\<rparr>)"

definition partial_frame :: "bool \<Rightarrow> obj \<Rightarrow> int \<Rightarrow> gomap \<Rightarrow> json" where
  "partial_frame edit metadata created event =
     JObj (oset ''partial_image_index'' (JInt (intValue (mget event ''partial_image_index'')))
       (imageStreamEvent (image_prefix edit @ ''.partial_image'') metadata created
         (stringValue (mget event ''partial_image_b64'')) event))"

text \<open>The terminal event's response: its usage, its time, and its image if no item had one.\<close>

definition image_finish :: "bool \<Rightarrow> obj \<Rightarrow> obj \<Rightarrow> gomap \<Rightarrow> image_stream \<Rightarrow> image_stream" where
  "image_finish edit metadata r event st = (let
     v = intValue (oget r ''created_at'');
     st = st\<lparr>im_created := (if v \<noteq> 0 then v else im_created st),
       im_usage := (case mapAny (oget r ''usage'') of Some u \<Rightarrow> Some u | None \<Rightarrow> im_usage st)\<rparr>
     in if im_final st = None then completed_frame edit metadata st (imageFromResponse r) event else st)"

definition image_event :: "(string \<Rightarrow> int option) \<Rightarrow> int \<Rightarrow> bool \<Rightarrow> obj \<Rightarrow> image_stream consumer" where
  "image_event http_date now edit metadata st event = (let typ = stringValue (mget event ''type'') in
     if typ = ''response.image_generation_call.partial_image'' then
       (st\<lparr>im_written := im_written st @ [partial_frame edit metadata (im_created st) event]\<rparr>, None)
     else if typ = ''response.output_item.done'' then
       (completed_frame edit metadata st (imageFromItem (mapAny (mget event ''item''))) event, None)
     else if typ = ''error'' then
       (st, Some (responseFailure http_date now (Some (errorEventDetail (event_obj event)))))
     else if typ = ''response.failed'' then
       (st, Some (responseFailure http_date now (failureDetail (mget (mapAny (mget event ''response'')) ''error''))))
     else if typ = ''response.completed'' \<or> typ = ''response.incomplete'' then
       (case mapAny (mget event ''response'') of
          None \<Rightarrow> (st, None)
        | Some r \<Rightarrow> (image_finish edit metadata r event st, None))
     else (st, None))"

text \<open>The last event: a failure, the missing image, or the completed frame.\<close>

definition image_last :: "image_stream \<Rightarrow> go_error option \<Rightarrow> json" where
  "image_last st err = (case err of
       Some e \<Rightarrow> JObj (oset ''type'' (JStr ''error'') (publicErrorObject e))
     | None \<Rightarrow> (case im_final st of
           None \<Rightarrow> JObj [(''type'', JStr ''error''), (''code'', JNull), (''param'', JNull), (''message'', JStr no_image_message)]
         | Some final \<Rightarrow> (let final = oset ''created_at'' (JInt (im_created st)) final in
             JObj (case im_usage st of Some u \<Rightarrow> oset ''usage'' (JObj u) final | None \<Rightarrow> final))))"

definition image_start :: "int \<Rightarrow> image_stream" where
  "image_start created = \<lparr>im_created = created, im_final = None, im_usage = None, im_written = []\<rparr>"

definition streamImages ::
  "string \<Rightarrow> codexBackend \<Rightarrow> slot_refusal + slots \<Rightarrow> int \<Rightarrow> obj \<Rightarrow> bool \<Rightarrow> answer option" where
  "streamImages model be slot unix body edit = (case slot of
       Inl why \<Rightarrow> map_option PlainAnswer (refused_slot why)
     | Inr sl \<Rightarrow> (case backend_stream be (imageResponsePayload body (imageDriverModel body model))
           (image_event (be_http_date be) unix edit (imageResultMetadata body)) (image_start unix) of
           (st, err) \<Rightarrow> Some (EventAnswer (im_written st @ [image_last st err]) True)))"

text \<open>The handler of both routes.\<close>

definition images ::
  "string \<Rightarrow> (nat \<Rightarrow> codexBackend) \<Rightarrow> slot_refusal + slots \<Rightarrow> int \<Rightarrow> image_request \<Rightarrow> bool \<Rightarrow> answer option" where
  "images model be slot unix request edit = (case decodeImageRequest request of
       None \<Rightarrow> Some (PlainAnswer (error_response 400 ''Invalid image request body.'' ''invalid_request_error'' JNull JNull))
     | Some body \<Rightarrow> (case validateImage body edit of
           Some (message, param) \<Rightarrow>
             Some (PlainAnswer (error_response 400 message ''invalid_request_error'' (JStr param) JNull))
         | None \<Rightarrow>
             if imageStreamRequested body then streamImages model (be 0) slot unix body edit
             else (case slot of
                 Inl why \<Rightarrow> map_option PlainAnswer (refused_slot why)
               | Inr sl \<Rightarrow> Some (PlainAnswer (case collect_images be unix
                     (imageResponsePayload body (imageDriverModel body model)) (image_count body) 0 unix of
                   Inl r \<Rightarrow> r
                 | Inr (created, data) \<Rightarrow> json_response 200 (JObj (images_result body created data)))))))"

section \<open>Laws\<close>

subsection \<open>Validated requests\<close>

lemma first_refusal_None [simp]:
  "first_refusal [] = None" "first_refusal (r # rs) = None \<longleftrightarrow> r = None \<and> first_refusal rs = None"
  by (cases r; simp)+

lemma refuse_if_None [simp]: "refuse_if b m p = None \<longleftrightarrow> \<not> b"
  by (simp add: refuse_if_def)

lemma check_range_None: "check_range body key low high a b = None \<longleftrightarrow>
    oget body key = JNull \<or> (\<exists>v. exactInt (oget body key) = Some v \<and> low \<le> v \<and> v \<le> high)"
  by (auto simp: check_range_def split: option.split)

lemma check_allowed_None: "check_allowed body key m vals = None \<longleftrightarrow>
    oget body key = JNull \<or> stringValue (oget body key) \<in> set vals"
  by (auto simp: check_allowed_def)

lemma exactInt_intValue: "exactInt v = Some n \<Longrightarrow> intValue v = n"
  by (cases v) (auto simp: exactInt_def intValue_def Let_def split: prod.splits if_splits)

lemma oget_put_when [simp]: "oget (put_when b k v m) j = (if b \<and> j = k then v else oget m j)"
  by (simp add: put_when_def)

text \<open>What the hosted tool accepts: every setting is absent or one of its values.\<close>

definition setting_ok :: "obj \<Rightarrow> string \<Rightarrow> string list \<Rightarrow> bool" where
  "setting_ok tool key vals \<longleftrightarrow> oget tool key = JNull \<or> stringValue (oget tool key) \<in> set vals"

definition int_setting_ok :: "obj \<Rightarrow> string \<Rightarrow> int \<Rightarrow> int \<Rightarrow> bool" where
  "int_setting_ok tool key low high \<longleftrightarrow> oget tool key = JNull \<or> (\<exists>n. oget tool key = JInt n \<and> low \<le> n \<and> n \<le> high)"

definition image_tool_ok :: "bool \<Rightarrow> obj \<Rightarrow> bool" where
  "image_tool_ok edit tool \<longleftrightarrow>
     oget tool ''type'' = JStr ''image_generation'' \<and> oget tool ''action'' = JStr (if edit then ''edit'' else ''generate'')
     \<and> oget tool ''output_format'' \<in> JStr ` set image_formats
     \<and> setting_ok tool ''quality'' image_qualities
     \<and> setting_ok tool ''background'' image_backgrounds
     \<and> setting_ok tool ''moderation'' image_moderations \<and> setting_ok tool ''input_fidelity'' image_fidelities
     \<and> int_setting_ok tool ''output_compression'' 0 100 \<and> int_setting_ok tool ''partial_images'' 0 3
     \<and> (oget tool ''input_image_mask'' \<noteq> JNull \<longrightarrow> edit)"

definition content_image :: "json \<Rightarrow> string" where
  "content_image part = stringValue (mget (mapAny part) ''image_url'')"

definition image_content_ok :: "bool \<Rightarrow> json list \<Rightarrow> bool" where
  "image_content_ok edit content \<longleftrightarrow> (\<exists>prompt parts. content = JObj [(''type'', JStr ''input_text''), (''text'', JStr prompt)] # parts
     \<and> prompt \<noteq> [] \<and> length parts \<le> 16 \<and> (parts \<noteq> [] \<longleftrightarrow> edit)
     \<and> (\<forall>part \<in> set parts. image_source (content_image part)))"

lemma oget_image_tool:
  "oget (image_tool body) ''type'' = JStr ''image_generation''"
  "oget (image_tool body) ''action'' = JStr (if dataURLList (oget body ''image'') \<noteq> [] then ''edit'' else ''generate'')"
  "oget (image_tool body) ''output_format'' = JStr (let f = stringValue (oget body ''output_format'') in if f = [] then ''png'' else f)"
  "oget (image_tool body) ''quality'' = oget body ''quality''"
  "oget (image_tool body) ''background'' = oget body ''background''"
  "oget (image_tool body) ''moderation'' = oget body ''moderation''"
  "oget (image_tool body) ''input_fidelity'' = oget body ''input_fidelity''"
  "oget (image_tool body) ''output_compression'' = (if oget body ''output_compression'' \<noteq> JNull
     then JInt (exact_or_zero (oget body ''output_compression'')) else JNull)"
  "oget (image_tool body) ''partial_images'' = (if oget body ''partial_images'' \<noteq> JNull \<and> imageStreamRequested body
     then JInt (exact_or_zero (oget body ''partial_images'')) else JNull)"
  "oget (image_tool body) ''input_image_mask'' = (if dataURLList (oget body ''mask'') \<noteq> []
     then JObj [(''image_url'', JStr (hd (dataURLList (oget body ''mask''))))] else JNull)"
  by (simp_all add: image_tool_def copied_def Let_def)

lemma validated_settings:
  assumes "validateImage body edit = None"
  shows "check_images body edit = None" "check_mask body edit = None" "check_prompt body = None" "check_count body = None"
    "oget body ''partial_images'' = JNull \<or> (\<exists>v. exactInt (oget body ''partial_images'') = Some v \<and> 0 \<le> v \<and> v \<le> 3)"
    "oget body ''output_compression'' = JNull \<or> (\<exists>v. exactInt (oget body ''output_compression'') = Some v \<and> 0 \<le> v \<and> v \<le> 100)"
    "stringValue (valueOr (oget body ''output_format'') (JStr ''png'')) \<in> set image_formats"
    "oget body ''quality'' = JNull \<or> stringValue (oget body ''quality'') \<in> set image_qualities"
    "oget body ''background'' = JNull \<or> stringValue (oget body ''background'') \<in> set image_backgrounds"
    "oget body ''moderation'' = JNull \<or> stringValue (oget body ''moderation'') \<in> set image_moderations"
    "oget body ''input_fidelity'' = JNull \<or> stringValue (oget body ''input_fidelity'') \<in> set image_fidelities"
  using assms by (simp_all add: validateImage_def check_range_None check_allowed_None maxImagePartials_def)

lemma validated_sources:
  assumes "validateImage body edit = None"
  shows "dataURLList (oget body ''image'') \<noteq> [] \<longleftrightarrow> edit" "dataURLList (oget body ''mask'') \<noteq> [] \<longrightarrow> edit"
    "length (dataURLList (oget body ''image'')) \<le> 16" "list_all image_source (dataURLList (oget body ''image''))"
proof -
  show "dataURLList (oget body ''image'') \<noteq> [] \<longleftrightarrow> edit" "length (dataURLList (oget body ''image'')) \<le> 16"
    "list_all image_source (dataURLList (oget body ''image''))"
    using validated_settings(1) [OF assms] by (auto simp: check_images_def Let_def maxImageEditInputs_def)
  show "dataURLList (oget body ''mask'') \<noteq> [] \<longrightarrow> edit"
    using validated_settings(2) [OF assms]
    by (cases "dataURLList (oget body ''mask'')") (auto simp: check_mask_def Let_def split: if_splits)
qed

lemma validated_tool:
  assumes "validateImage body edit = None"
  shows "image_tool_ok edit (image_tool body)"
proof -
  note v = validated_settings [OF assms] and src = validated_sources [OF assms]
  have "oget (image_tool body) ''output_format'' \<in> JStr ` set image_formats"
    using v(7) by (cases "oget body ''output_format'' = JNull \<or> oget body ''output_format'' = JStr []")
      (auto simp: oget_image_tool valueOr_def Let_def image_formats_def)
  moreover have "int_setting_ok (image_tool body) ''output_compression'' 0 100"
    using v(6) by (auto simp: int_setting_ok_def oget_image_tool exact_or_zero_def)
  moreover have "int_setting_ok (image_tool body) ''partial_images'' 0 3"
    using v(5) by (auto simp: int_setting_ok_def oget_image_tool exact_or_zero_def)
  moreover have "oget (image_tool body) ''input_image_mask'' \<noteq> JNull \<longrightarrow> edit"
    using src(2) by (simp add: oget_image_tool)
  moreover have "oget (image_tool body) ''action'' = JStr (if edit then ''edit'' else ''generate'')"
    using src(1) by (simp add: oget_image_tool)
  moreover have "oget (image_tool body) ''type'' = JStr ''image_generation''"
    by (simp add: oget_image_tool)
  moreover have "setting_ok (image_tool body) ''quality'' image_qualities"
    "setting_ok (image_tool body) ''background'' image_backgrounds"
    "setting_ok (image_tool body) ''moderation'' image_moderations"
    "setting_ok (image_tool body) ''input_fidelity'' image_fidelities"
    using v(8-11) by (simp_all add: setting_ok_def oget_image_tool)
  ultimately show ?thesis
    unfolding image_tool_ok_def by blast
qed

lemma validated_content:
  assumes "validateImage body edit = None"
  shows "image_content_ok edit (image_content body)"
proof -
  note src = validated_sources [OF assms]
  have prompt: "trim_space (stringValue (oget body ''prompt'')) \<noteq> []"
    using validated_settings(3) [OF assms] by (cases "oget body ''prompt''") (simp_all add: check_prompt_def)
  have "image_content body = JObj [(''type'', JStr ''input_text''), (''text'', JStr (trim_space (stringValue (oget body ''prompt''))))]
      # map (\<lambda>u. JObj [(''type'', JStr ''input_image''), (''image_url'', JStr u)]) (dataURLList (oget body ''image''))"
    by (simp add: image_content_def)
  then show ?thesis
    unfolding image_content_ok_def using prompt src
    by (intro exI conjI) (auto simp: list_all_iff content_image_def)
qed

lemma validated_count:
  assumes "validateImage body edit = None"
  shows "1 \<le> image_count body \<and> image_count body \<le> 10 \<and> (imageStreamRequested body \<longrightarrow> image_count body = 1)"
proof (cases "oget body ''n'' = JNull")
  case True
  then show ?thesis
    by (simp add: image_count_def intValue_def)
next
  case False
  then obtain n where n: "exactInt (oget body ''n'') = Some n" "1 \<le> n" "n \<le> 10" "1 < n \<longrightarrow> \<not> imageStreamRequested body"
    using validated_settings(4) [OF assms] by (auto simp: check_count_def split: option.splits)
  then have "image_count body = nat n"
    using exactInt_intValue [OF n(1)] by (simp add: image_count_def Let_def)
  then show ?thesis
    using n by auto
qed



subsection \<open>All images or none\<close>

definition made_image :: "codexBackend \<Rightarrow> int \<Rightarrow> obj \<Rightarrow> json \<Rightarrow> bool" where
  "made_image be unix payload v \<longleftrightarrow> (\<exists>resp img. backend_collect be payload = Inr resp \<and> imageFromResponse resp = Some img
     \<and> failedResponseError (be_http_date be) unix (Some resp) = None \<and> v = JObj img)"

lemma collect_image_Inr: "collect_image be unix payload = Inr (resp, img) \<Longrightarrow> made_image be unix payload (JObj img)"
  by (auto simp: collect_image_def made_image_def split: sum.splits option.splits)

lemma collect_images_all_or_none:
  "case collect_images be unix payload n i created of
     Inr (c, data) \<Rightarrow> length data = n \<and> (\<forall>j < n. made_image (be (i + j)) unix payload (data ! j))
   | Inl r \<Rightarrow> \<exists>j < n. collect_image (be (i + j)) unix payload = Inl r"
proof (induction n arbitrary: i created)
  case (Suc n)
  show ?case
  proof (cases "collect_image (be i) unix payload")
    case (Inl r)
    then show ?thesis
      by (auto intro: exI [of _ 0])
  next
    case (Inr ri)
    obtain resp img where ri: "ri = (resp, img)"
      by (cases ri)
    define c where "c = (let v = intValue (oget resp ''created_at'') in if v \<noteq> 0 then v else created)"
    have first: "made_image (be i) unix payload (JObj img)"
      using Inr ri by (auto dest: collect_image_Inr)
    have unfold: "collect_images be unix payload (Suc n) i created = (case collect_images be unix payload n (Suc i) c of
        Inl r \<Rightarrow> Inl r | Inr (created, rest) \<Rightarrow> Inr (created, JObj img # rest))"
      by (simp add: Inr ri c_def Let_def)
    show ?thesis
    proof (cases "collect_images be unix payload n (Suc i) c")
      case (Inl r)
      then obtain j where "j < n" "collect_image (be (Suc i + j)) unix payload = Inl r"
        using Suc.IH [of "Suc i" c] by auto
      then show ?thesis
        unfolding unfold Inl by (auto intro!: exI [of _ "Suc j"])
    next
      case (Inr cd)
      obtain c' data where "cd = (c', data)"
        by (cases cd)
      then show ?thesis
        using Suc.IH [of "Suc i" c] first unfolding unfold by (auto simp: Inr less_Suc_eq_0_disj)
    qed
  qed
qed simp

text \<open>A request for \<open>n\<close> images is answered with \<open>n\<close> images, each one from a response of its own that
  has not failed, or with the error of one of these requests, and never with fewer images.\<close>

theorem images_are_all_or_none:
  assumes "decodeImageRequest request = Some body" "validateImage body edit = None" "\<not> imageStreamRequested body"
  shows "\<exists>r. images model be (Inr sl) unix request edit = Some (PlainAnswer r)
    \<and> ((\<exists>j < image_count body. collect_image (be j) unix (imageResponsePayload body (imageDriverModel body model)) = Inl r)
      \<or> (\<exists>created data. r = json_response 200 (JObj (images_result body created data)) \<and> length data = image_count body
          \<and> (\<forall>j < image_count body. made_image (be j) unix (imageResponsePayload body (imageDriverModel body model)) (data ! j))))"
proof -
  let ?run = "collect_images be unix (imageResponsePayload body (imageDriverModel body model)) (image_count body) 0 unix"
  have answer: "images model be (Inr sl) unix request edit = Some (PlainAnswer (case ?run of
      Inl r \<Rightarrow> r | Inr (created, data) \<Rightarrow> json_response 200 (JObj (images_result body created data))))"
    using assms by (simp add: images_def)
  show ?thesis
    using collect_images_all_or_none [where be = be and unix = unix and n = "image_count body" and i = 0 and created = unix
      and payload = "imageResponsePayload body (imageDriverModel body model)"]
    unfolding answer by (cases ?run) (auto split: prod.splits)
qed

theorem images_are_all_or_none_witness:
  "\<exists>r. images ''m'' (\<lambda>i. sample_backend) (Inr None) 0 (JsonImage (Some [(''prompt'', JStr ''a cat'')])) False = Some (PlainAnswer r)
     \<and> collect_image sample_backend 0 (imageResponsePayload [(''prompt'', JStr ''a cat'')] ''m'') = Inl r"
proof -
  let ?body = "[(''prompt'', JStr ''a cat'')]"
  have v: "validateImage ?body False = None" "\<not> imageStreamRequested ?body" "image_count ?body = 1" "imageDriverModel ?body ''m'' = ''m''"
    by code_simp+
  have "imageFromResponse [] = None"
    by (simp add: imageFromResponse_def)
  then have none: "\<not> made_image sample_backend 0 payload x" for payload x
    by (simp add: made_image_def sample_collect)
  have d: "decodeImageRequest (JsonImage (Some ?body)) = Some ?body"
    by (simp add: decodeImageRequest_def)
  from images_are_all_or_none [OF d v(1,2), of "''m''" "\<lambda>i. sample_backend" None 0] show ?thesis
    using none by (auto simp: v)
qed

subsection \<open>The image stream\<close>

text \<open>What a partial frame takes from its event, and what the last frame takes from some event.\<close>

definition is_partial :: "gomap \<Rightarrow> bool" where
  "is_partial e \<longleftrightarrow> stringValue (mget e ''type'') = ''response.image_generation_call.partial_image''"

definition partial_of :: "bool \<Rightarrow> gomap \<Rightarrow> json \<Rightarrow> bool" where
  "partial_of edit e w \<longleftrightarrow> (\<exists>m. w = JObj m \<and> oget m ''type'' = JStr (image_prefix edit @ ''.partial_image'')
     \<and> oget m ''b64_json'' = JStr (stringValue (mget e ''partial_image_b64''))
     \<and> oget m ''partial_image_index'' = JInt (intValue (mget e ''partial_image_index'')))"

definition event_image :: "gomap \<Rightarrow> gomap" where
  "event_image e = (let typ = stringValue (mget e ''type'') in
     if typ = ''response.output_item.done'' then imageFromItem (mapAny (mget e ''item''))
     else if typ = ''response.completed'' \<or> typ = ''response.incomplete''
       then (case mapAny (mget e ''response'') of Some r \<Rightarrow> imageFromResponse r | None \<Rightarrow> None)
     else None)"

definition completed_of :: "bool \<Rightarrow> gomap list \<Rightarrow> obj \<Rightarrow> bool" where
  "completed_of edit evs m \<longleftrightarrow> oget m ''type'' = JStr (image_prefix edit @ ''.completed'')
     \<and> (\<exists>e \<in> set evs. \<exists>img. event_image e = Some img \<and> oget m ''b64_json'' = JStr (stringValue (oget img ''b64_json'')))"

definition image_stream_inv :: "bool \<Rightarrow> image_stream \<Rightarrow> gomap list \<Rightarrow> bool" where
  "image_stream_inv edit st evs \<longleftrightarrow> list_all2 (partial_of edit) (filter is_partial evs) (im_written st)
     \<and> (case im_final st of None \<Rightarrow> \<forall>e \<in> set evs. event_image e = None | Some m \<Rightarrow> completed_of edit evs m)"

lemma oget_fold_oset: "k \<notin> fst ` set kvs \<Longrightarrow> oget (fold (\<lambda>(k, v). oset k v) kvs m) k = oget m k"
  by (induction kvs arbitrary: m) auto

lemma metadata_keys: "fst ` set (imageResultMetadata body) \<subseteq> {''output_format'', ''background'', ''quality'', ''size''}"
proof -
  have "fst ` set (oset k v m) = insert k (fst ` set m)" for k v and m :: obj
    by (simp add: dom_update)
  then show ?thesis
    by (auto simp: imageResultMetadata_def reported_def Let_def)
qed

lemma frame_gets:
  assumes "k = ''type'' \<or> k = ''b64_json''"
  shows "oget (imageStreamEvent t (imageResultMetadata body) c b64 e) k = JStr (if k = ''type'' then t else b64)"
proof -
  have "k \<notin> fst ` set (imageResultMetadata body)"
    using assms metadata_keys [of body] by auto
  then have base: "oget (fold (\<lambda>(k, v). oset k v) (imageResultMetadata body)
      [(''type'', JStr t), (''b64_json'', JStr b64), (''created_at'', JInt c), (''background'', JStr ''auto''),
       (''quality'', JStr ''auto''), (''size'', JStr ''auto''), (''output_format'', JStr ''png'')]) k
      = JStr (if k = ''type'' then t else b64)"
    using assms by (auto simp: oget_fold_oset)
  have "oget (event_setting e j m) k = oget m k" if "j \<in> {''size'', ''quality'', ''background'', ''output_format''}" for j m
    using that assms by (auto simp: event_setting_def Let_def)
  then show ?thesis
    using base by (simp add: imageStreamEvent_def)
qed

lemma partial_frame_of: "partial_of edit e (partial_frame edit (imageResultMetadata body) c e)"
  by (simp add: partial_of_def partial_frame_def frame_gets)

lemma image_event_inv:
  assumes inv: "image_stream_inv edit st evs"
  shows "image_stream_inv edit (fst (image_event hp unix edit (imageResultMetadata body) st e)) (evs @ [e])"
proof -
  define ty where "ty = stringValue (mget e ''type'')"
  have old: "completed_of edit (evs @ [e]) m" if "completed_of edit evs m" for m
    using that by (auto simp: completed_of_def)
  have new: "completed_of edit (evs @ [e]) (imageStreamEvent (image_prefix edit @ ''.completed'') (imageResultMetadata body) c
      (stringValue (oget img ''b64_json'')) e)" if "event_image e = Some img" for c img
    using that by (auto simp: completed_of_def frame_gets)
  have keep: "image_stream_inv edit (st\<lparr>im_created := c, im_usage := u\<rparr>) (evs @ [e])"
    if "\<not> is_partial e" "event_image e = None \<or> im_final st \<noteq> None" for c u
    using inv that old by (auto simp: image_stream_inv_def split: option.splits)
  consider (partial) "is_partial e" | (finished) "ty = ''response.output_item.done''"
    | (final) "ty = ''response.completed'' \<or> ty = ''response.incomplete''"
    | (other) "\<not> is_partial e \<and> ty \<noteq> ''response.output_item.done'' \<and> ty \<noteq> ''response.completed'' \<and> ty \<noteq> ''response.incomplete''"
    by satx
  then show ?thesis
  proof cases
    case partial
    then have "event_image e = None"
      by (simp add: is_partial_def event_image_def)
    then show ?thesis
      using inv partial partial_frame_of old
      by (auto simp: image_stream_inv_def image_event_def is_partial_def Let_def intro!: list_all2_appendI split: option.splits)
  next
    case finished
    then have e: "\<not> is_partial e" "event_image e = imageFromItem (mapAny (mget e ''item''))"
      by (simp_all add: is_partial_def event_image_def flip: ty_def)
    have "fst (image_event hp unix edit (imageResultMetadata body) st e)
        = completed_frame edit (imageResultMetadata body) st (event_image e) e"
      unfolding image_event_def Let_def ty_def [symmetric] e using finished by simp
    then show ?thesis
      using inv e(1) new old
      by (cases "event_image e") (auto simp: image_stream_inv_def completed_frame_def split: option.splits)
  next
    case final
    then have e: "\<not> is_partial e"
      "event_image e = (case mapAny (mget e ''response'') of Some r \<Rightarrow> imageFromResponse r | None \<Rightarrow> None)"
      by (auto simp: is_partial_def event_image_def simp flip: ty_def)
    show ?thesis
    proof (cases "mapAny (mget e ''response'')")
      case None
      then have "fst (image_event hp unix edit (imageResultMetadata body) st e) = st"
        unfolding image_event_def Let_def ty_def [symmetric] using final by auto
      then show ?thesis
        using keep [OF e(1), where c = "im_created st" and u = "im_usage st"] e(2) None by simp
    next
      case (Some r)
      then have "fst (image_event hp unix edit (imageResultMetadata body) st e) = image_finish edit (imageResultMetadata body) r e st"
        unfolding image_event_def Let_def ty_def [symmetric] using final by auto
      moreover have er: "imageFromResponse r = event_image e"
        using e(2) Some by simp
      moreover obtain u c where "image_finish edit (imageResultMetadata body) r e st
          = (let st = st\<lparr>im_created := c, im_usage := u\<rparr> in
             if im_final st = None then completed_frame edit (imageResultMetadata body) st (event_image e) e else st)"
        unfolding image_finish_def Let_def er by blast
      ultimately show ?thesis
        using keep [OF e(1), where c = c and u = u] inv e(1) new
        by (cases "event_image e"; cases "im_final st") (auto simp: Let_def completed_frame_def image_stream_inv_def)
    qed
  next
    case other
    then have "fst (image_event hp unix edit (imageResultMetadata body) st e) = st"
      unfolding image_event_def Let_def ty_def [symmetric] is_partial_def by auto
    moreover have "event_image e = None"
      unfolding event_image_def Let_def ty_def [symmetric] using other by simp
    ultimately show ?thesis
      using keep [where c = "im_created st" and u = "im_usage st"] other by simp
  qed
qed

interpretation imaging: stream_consumer "image_event hp unix edit (imageResultMetadata body)" "image_start unix" "image_stream_inv edit"
  by unfold_locales (simp add: image_stream_inv_def image_start_def, rule image_event_inv)



end
