(* ===== verification/Websocket.thy ===== *)
theory Websocket
  imports Server "HOL-Library.Sublist"
begin

text \<open>
  The WebSocket mode of \<open>GET /v1/responses\<close> (\<open>websocket.go\<close>): reaching an account, relaying the
  frames in both directions with the payload rules of Codex and the redaction of error events, and the
  life of a connection: slots, leases, tracking and shutdown.

  \<open>decode\<close> is \<open>decodeWebSocketEvent\<close> (\<open>None\<close>: not exactly one JSON object) and \<open>marshal\<close> is
  \<open>json.Marshal\<close>; what a handshake answers is a function of the lease.
\<close>

section \<open>Reaching an account\<close>

definition handshake_failed :: string where
  "handshake_failed = ''Codex WebSocket handshake failed.''"

definition unreachable :: go_error where
  "unreachable = BackendError 502 ''Codex WebSocket connection failed.''"

datatype dial_result = Connected | Unreachable | Rejected http_answer

text \<open>\<open>accountRefusal\<close> is a failure of the account; the rest are failures of the request.\<close>

datatype dial_failure = AccountRefusal int int string | DialFailure go_error

record dial_env =
  de_acquire :: "acquire_env list"
  de_first :: "accountLease \<Rightarrow> dial_result"
  de_reload :: "go_error + credentials"
  de_second :: "accountLease \<Rightarrow> dial_result"
  de_now :: int
  de_disk :: disk

text \<open>The headers of the handshake: those of a streamed request without its content headers, and what
  the client sent under these names.\<close>

definition passed_headers :: "string list" where
  "passed_headers = [''Openai-Beta'', ''Session_id'', ''X-Client-Request-Id'', ''X-Codex-Turn-State'', ''X-Codex-Turn-Metadata'',
     ''X-Fast-Mode'']"

definition handshake_headers :: "header_cfg \<Rightarrow> credentials \<Rightarrow> headers \<Rightarrow> (string \<times> string) list" where
  "handshake_headers cfg cred incoming = fold (\<lambda>key h. set_if (incoming key \<noteq> []) key (incoming key) h) passed_headers
     (AList.delete ''Content-Type'' (AList.delete ''Accept''
       (headersWithTier cfg cred True (incoming ''X-Client-Request-Id'') [] False)))"

definition judge_handshake :: "int \<Rightarrow> http_answer \<Rightarrow> dial_failure" where
  "judge_handshake now a = (case cooldownForStatus (an_status a) (an_headers a) (an_doc a) now of
       Some (delay, reason) \<Rightarrow> AccountRefusal (an_status a) delay reason
     | None \<Rightarrow> DialFailure (BackendError (if an_status a < 400 \<or> 599 < an_status a then 502 else an_status a) handshake_failed))"

definition noticed :: "dial_env \<Rightarrow> accountLease \<Rightarrow> http_answer \<Rightarrow> accountPool \<Rightarrow> accountPool" where
  "noticed env lease a p = observe (de_now env) (an_headers a) (an_status a) (le_acct lease) p"

text \<open>The two attempts: the second only after a 401 and a reload of the credentials.\<close>

definition second_attempt :: "dial_env \<Rightarrow> accountLease \<Rightarrow> accountPool \<Rightarrow> dial_failure option \<times> accountLease \<times> accountPool" where
  "second_attempt env lease p = (case de_second env lease of
       Connected \<Rightarrow> (None, lease, p)
     | Unreachable \<Rightarrow> (Some (DialFailure unreachable), lease, p)
     | Rejected a \<Rightarrow> (Some (judge_handshake (de_now env) a), lease, noticed env lease a p))"

definition dialOnAccount :: "dial_env \<Rightarrow> accountLease \<Rightarrow> accountPool \<Rightarrow> dial_failure option \<times> accountLease \<times> accountPool" where
  "dialOnAccount env lease p = (case de_first env lease of
       Connected \<Rightarrow> (None, lease, p)
     | Unreachable \<Rightarrow> (Some (DialFailure unreachable), lease, p)
     | Rejected a \<Rightarrow> (let p = noticed env lease a p in
         if an_status a = 401 then
           (case de_reload env of
              Inl e \<Rightarrow> (Some (AccountRefusal 401 unauthorizedCooldown ''unauthorized''), lease, p)
            | Inr cred \<Rightarrow> second_attempt env (lease\<lparr>le_cred := cred\<rparr>) p)
         else (Some (judge_handshake (de_now env) a), lease, p)))"

text \<open>What one account leads to: a connection that holds it, an error, or the next account.\<close>

datatype dial_progress = DialOpen accountLease | DialOver go_error | DialAgain "string set" go_error

definition dial_attempt :: "dial_env \<Rightarrow> accountLease \<Rightarrow> string set \<Rightarrow> accountPool \<Rightarrow> dial_progress \<times> accountPool" where
  "dial_attempt env lease exclude p = (case dialOnAccount env lease p of
       (None, lease, p) \<Rightarrow> (DialOpen lease, p)
     | (Some (DialFailure e), lease, p) \<Rightarrow> (DialOver e, release (le_acct lease) p)
     | (Some (AccountRefusal status delay reason), lease, p) \<Rightarrow>
         (DialAgain (insert (le_id lease) exclude) (BackendError status handshake_failed),
          coolDown (de_now env) (de_disk env) (le_acct lease) delay reason
            (status_detail status @ '' to the WebSocket handshake'') (release (le_acct lease) p)))"

definition dial_refused :: "go_error option \<Rightarrow> go_error \<Rightarrow> go_error" where
  "dial_refused refused err = (case refused of Some e \<Rightarrow> e | None \<Rightarrow> poolError err)"

fun dial_loop ::
  "acquirer \<Rightarrow> dial_env list \<Rightarrow> string set \<Rightarrow> go_error option \<Rightarrow> accountPool
    \<Rightarrow> ((go_error + accountLease) \<times> string set \<times> accountPool) option" where
  "dial_loop acq [] exclude refused p = None"
| "dial_loop acq (env # envs) exclude refused p = (case acq (de_acquire env) exclude p of
       None \<Rightarrow> None
     | Some (Inl err, exclude, p) \<Rightarrow> Some (Inl (dial_refused refused err), exclude, p)
     | Some (Inr lease, exclude, p) \<Rightarrow> (case dial_attempt env lease exclude p of
           (DialOpen lease, p) \<Rightarrow> Some (Inr lease, exclude, p)
         | (DialOver e, p) \<Rightarrow> Some (Inl e, exclude, p)
         | (DialAgain exclude e, p) \<Rightarrow> dial_loop acq envs exclude (Some e) p))"

definition socket_hints :: "string \<Rightarrow> routeHints" where
  "socket_hints session = \<lparr>rh_reasoningKeys = [], rh_stickyKey = (if session = [] then [] else ''ws:'' @ session)\<rparr>"

definition dialWebSocket ::
  "parsed_url option \<Rightarrow> string \<Rightarrow> string \<Rightarrow> string \<Rightarrow> dial_env list \<Rightarrow> accountPool
    \<Rightarrow> ((go_error + accountLease) \<times> string set \<times> accountPool) option" where
  "dialWebSocket base query session primaryPath envs p =
     (if resolveProxyURL base ''responses'' query = None then Some (Inl (BackendError 400 ''Invalid backend URL.''), {}, p)
      else dial_loop (pool_acquire primaryPath (socket_hints session)) envs {} None p)"

section \<open>Frames\<close>

datatype frame_kind = TextMessage | BinaryMessage

record frame =
  fr_kind :: frame_kind
  fr_data :: string

subsection \<open>Redaction of error events\<close>

text \<open>\<open>strings.ReplaceAll(v, secret, "[REDACTED]")\<close> is the scan of \<open>redactSensitive\<close> for one fixed text.\<close>

definition match_secret :: "string \<Rightarrow> matcher" where
  "match_secret secret prev s = (if has_prefix secret s then Some ([], drop (length secret) s) else None)"

definition hide_secret :: "string \<Rightarrow> string \<Rightarrow> string" where
  "hide_secret secret s = (if secret = [] then s else replace_secrets (match_secret secret) s)"

definition scrub_string :: "string list \<Rightarrow> string \<Rightarrow> string" where
  "scrub_string secrets s = redactSensitive (fold hide_secret secrets s)"

definition credential_keys :: "string set" where
  "credential_keys = {''access_token'', ''refresh_token'', ''id_token'', ''api_key'', ''authorization''}"

fun scrub :: "string list \<Rightarrow> json \<Rightarrow> json" where
  "scrub secrets (JStr s) = JStr (scrub_string secrets s)"
| "scrub secrets (JObj m) = JObj (map (\<lambda>(key, child). (key, if to_lower key \<in> credential_keys then JStr ''[REDACTED]''
     else scrub secrets child)) m)"
| "scrub secrets (JArr vs) = JArr (map (scrub secrets) vs)"
| "scrub secrets v = v"

definition scrub_obj :: "string list \<Rightarrow> obj \<Rightarrow> obj" where
  "scrub_obj secrets m = map (\<lambda>(key, child). (key, if to_lower key \<in> credential_keys then JStr ''[REDACTED]''
     else scrub secrets child)) m"

text \<open>The event with its errors scrubbed, and whether that was done: the whole event when it is an error
  or a failure, else the error of its response; and its own error in any case.\<close>

definition error_type :: "string \<Rightarrow> bool" where
  "error_type t = (t = ''error'' \<or> has_suffix ''.failed'' t)"

definition scrub_first :: "string list \<Rightarrow> obj \<Rightarrow> obj \<times> bool" where
  "scrub_first secrets event =
     (if error_type (stringValue (oget event ''type'')) then (scrub_obj secrets event, True)
      else case mapAny (oget event ''response'') of
        Some response \<Rightarrow> if oget response ''error'' \<noteq> JNull
          then (oset ''response'' (JObj (oset ''error'' (scrub secrets (oget response ''error'')) response)) event, True)
          else (event, False)
      | None \<Rightarrow> (event, False))"

definition scrub_event :: "string list \<Rightarrow> obj \<Rightarrow> obj \<times> bool" where
  "scrub_event secrets event = (case scrub_first secrets event of (event, changed) \<Rightarrow>
     if oget event ''error'' \<noteq> JNull then (oset ''error'' (scrub secrets (oget event ''error'')) event, True)
     else (event, changed))"

definition redactWebSocketError :: "(string \<Rightarrow> gomap) \<Rightarrow> (json \<Rightarrow> string) \<Rightarrow> string list \<Rightarrow> string \<Rightarrow> string" where
  "redactWebSocketError decode marshal secrets data = (case decode data of
       None \<Rightarrow> data
     | Some event \<Rightarrow> (case scrub_event secrets event of
         (event, changed) \<Rightarrow> if changed then marshal (JObj event) else data))"

subsection \<open>Relaying\<close>

definition fastModeBodyUnsupportedMessage :: string where
  "fastModeBodyUnsupportedMessage = ''Codex honours fast mode only as a header, and a WebSocket fixes its headers at the ''
     @ ''handshake. Send X-Fast-Mode: true on the upgrade request to enable it for the whole connection.''"

definition backgroundUnsupportedMessage :: string where
  "backgroundUnsupportedMessage =
     ''Codex does not support background responses. Use foreground HTTP streaming or WebSocket mode.''"

definition copy_key :: "obj \<Rightarrow> string \<Rightarrow> obj \<Rightarrow> obj" where
  "copy_key event key m = (if oget event key \<noteq> JNull then oset key (oget event key) m else m)"

definition socket_rejection :: "obj \<Rightarrow> string \<Rightarrow> string \<Rightarrow> obj" where
  "socket_rejection event param message = copy_key event ''stream_id'' (copy_key event ''event_id''
     [(''type'', JStr ''error''), (''status'', JInt 400),
      (''error'', JObj [(''type'', JStr ''invalid_request_error''), (''code'', JStr ''unsupported_parameter''),
         (''param'', JStr param), (''message'', JStr message)])])"

definition socket_create :: "string \<Rightarrow> string list \<Rightarrow> obj \<Rightarrow> obj" where
  "socket_create model dropParams event = (let
     event = (if stringValue (oget event ''model'') = [] then oset ''model'' (JStr model) event else event);
     event = setDefault event ''instructions'' (JStr ''You are a helpful assistant.'');
     event = (case oget event ''input'' of
         JStr s \<Rightarrow> oset ''input'' (JArr [JObj [(''role'', JStr ''user''), (''content'', JStr s)]]) event | _ \<Rightarrow> event)
     in odel ''background'' (odel ''stream'' (normalizeCodexPayload event dropParams)))"

record relay_cfg =
  rc_decode :: "string \<Rightarrow> gomap"
  rc_marshal :: "json \<Rightarrow> string"
  rc_model :: string
  rc_dropParams :: "string list"
  rc_secrets :: "string list"   \<comment> \<open>the API key and the token of the account\<close>

text \<open>A frame goes to the other side, or an answer goes back.\<close>

datatype relayed = Pass frame | Reply frame

definition socket_reply :: "relay_cfg \<Rightarrow> obj \<Rightarrow> relayed" where
  "socket_reply cfg rejected = Reply \<lparr>fr_kind = TextMessage,
     fr_data = redactWebSocketError (rc_decode cfg) (rc_marshal cfg) (rc_secrets cfg) (rc_marshal cfg (JObj rejected))\<rparr>"

definition relay_create :: "relay_cfg \<Rightarrow> frame \<Rightarrow> obj \<Rightarrow> relayed" where
  "relay_create cfg f event =
     (if boolValue (oget event ''fast_mode'')
      then socket_reply cfg (socket_rejection event ''fast_mode'' fastModeBodyUnsupportedMessage)
      else if boolValue (oget event ''background'')
      then socket_reply cfg (socket_rejection event ''background'' backgroundUnsupportedMessage)
      else Pass (f\<lparr>fr_data := rc_marshal cfg (JObj (socket_create (rc_model cfg) (rc_dropParams cfg) event))\<rparr>))"

definition relay_client :: "relay_cfg \<Rightarrow> frame \<Rightarrow> relayed" where
  "relay_client cfg f = (case (if fr_kind f = TextMessage then rc_decode cfg (fr_data f) else None) of
       Some event \<Rightarrow> if oget event ''type'' = JStr ''response.create'' then relay_create cfg f event else Pass f
     | None \<Rightarrow> Pass f)"

definition relay_upstream :: "relay_cfg \<Rightarrow> frame \<Rightarrow> relayed" where
  "relay_upstream cfg f = Pass (f\<lparr>fr_data := redactWebSocketError (rc_decode cfg) (rc_marshal cfg) (rc_secrets cfg) (fr_data f)\<rparr>)"

text \<open>The loop: the frames read, each with the close status of a failed write, and the one of the read
  that ends it; what was written, and the status it ends with.\<close>

fun relayWebSocket :: "(frame \<Rightarrow> relayed) \<Rightarrow> (frame \<times> int option) list \<Rightarrow> int \<Rightarrow> relayed list \<times> int" where
  "relayWebSocket act [] status = ([], status)"
| "relayWebSocket act ((f, failed) # fs) status = (case failed of
       Some s \<Rightarrow> ([], s)
     | None \<Rightarrow> apfst (Cons (act f)) (relayWebSocket act fs status))"

text \<open>The status the connections are closed with; \<open>-1\<close> is that of an error without one.\<close>

definition relayCloseStatus :: "int \<Rightarrow> int" where
  "relayCloseStatus code =
     (if code \<in> {1000, 1001, 1002, 1003, 1007, 1008, 1009, 1010, 1011, 1012, 1013, 1014} then code
      else if 3000 \<le> code \<and> code \<le> 4999 then code else 1011)"

section \<open>Connections\<close>

text \<open>The conditions in front of the handshake.\<close>

record socket_request =
  sr_Upgrade :: string
  sr_Origin :: string
  sr_Host :: string

definition websocket_gate :: "(string \<Rightarrow> string option) \<Rightarrow> bool \<Rightarrow> bool \<Rightarrow> socket_request \<Rightarrow> http_response option" where
  "websocket_gate url_host has_backend closing r =
     (if \<not> equal_fold (sr_Upgrade r) ''websocket''
      then Some (error_response 426 ''Use a WebSocket upgrade for GET /v1/responses.'' ''invalid_request_error'' JNull JNull)
      else if sr_Origin r \<noteq> [] \<and> (case url_host (sr_Origin r) of None \<Rightarrow> True | Some h \<Rightarrow> \<not> equal_fold h (sr_Host r))
      then Some (error_response 403 ''Cross-origin WebSocket connections are not allowed.'' ''invalid_request_error'' JNull JNull)
      else if \<not> has_backend then Some (error_response 501 ''WebSocket backend unavailable.'' ''api_error'' JNull JNull)
      else if closing then Some (error_response 503 ''Server is shutting down.'' ''api_error'' JNull JNull)
      else None)"

text \<open>Where a connection is in \<open>websocketResponse\<close>: past the gate; with a slot and looking for an account,
  after the accounts excluded; shaking hands on an account; opened; tracked and relaying; or untracked and
  about to give back what it holds.\<close>

datatype stage = Checked | Dialing "string set" "go_error option" | Trying accountLease "string set" "go_error option"
  | Opened accountLease | Relaying accountLease | Leaving accountLease

fun stage_leases :: "stage \<Rightarrow> addr multiset" where
  "stage_leases (Trying lease ex r) = {#le_acct lease#}"
| "stage_leases (Opened lease) = {#le_acct lease#}"
| "stage_leases (Relaying lease) = {#le_acct lease#}"
| "stage_leases (Leaving lease) = {#le_acct lease#}"
| "stage_leases s = {#}"

text \<open>The server: the pool with the leases of other requests, the slots with those of other requests,
  the connections, \<open>wsCancels\<close>, the connections told to stop, \<open>wsWG\<close>, \<open>wsClosing\<close>, and what
  \<open>closeWebSocketsContext\<close> has returned: whether all connections ended in time.\<close>

record socket_server =
  sv_pool :: accountPool
  sv_others :: "addr multiset"
  sv_slots :: slots
  sv_other_slots :: nat
  sv_conns :: "(nat \<times> stage) list"
  sv_tracked :: "nat list"
  sv_told :: "nat set"
  sv_wg :: nat
  sv_closing :: bool
  sv_shut :: "bool option"

definition trackWebSocket :: "nat \<Rightarrow> socket_server \<Rightarrow> bool \<times> socket_server" where
  "trackWebSocket i s = (if sv_closing s then (False, s)
     else (True, s\<lparr>sv_wg := sv_wg s + 1, sv_tracked := i # sv_tracked s\<rparr>))"

definition untrackWebSocket :: "nat \<Rightarrow> socket_server \<Rightarrow> socket_server" where
  "untrackWebSocket i s = s\<lparr>sv_tracked := filter (\<lambda>j. j \<noteq> i) (sv_tracked s), sv_wg := sv_wg s - 1\<rparr>"

definition stopWebSockets :: "socket_server \<Rightarrow> socket_server" where
  "stopWebSockets s = s\<lparr>sv_closing := True, sv_told := sv_told s \<union> set (sv_tracked s)\<rparr>"

definition abortWebSockets :: "socket_server \<Rightarrow> socket_server" where
  "abortWebSockets s = s\<lparr>sv_closing := True, sv_told := sv_told s \<union> set (sv_tracked s)\<rparr>"

text \<open>How \<open>closeWebSocketsContext\<close> ends: all connections did, or its context ran out.\<close>

definition shutdown_result :: "bool \<Rightarrow> socket_server \<Rightarrow> socket_server" where
  "shutdown_result ended s = (if ended then s else abortWebSockets s)\<lparr>sv_shut := Some ended\<rparr>"

text \<open>The end of a connection that holds an account.\<close>

definition leave_server :: "accountLease \<Rightarrow> socket_server \<Rightarrow> socket_server" where
  "leave_server lease s = s\<lparr>sv_pool := release (le_acct lease) (sv_pool s), sv_slots := release_slot (sv_slots s)\<rparr>"

inductive socket_step :: "(string \<Rightarrow> acquirer) \<Rightarrow> socket_server \<Rightarrow> socket_server \<Rightarrow> bool" for acq :: "string \<Rightarrow> acquirer" where
  check: "websocket_gate url_host has_backend (sv_closing s) r = None \<Longrightarrow> i \<notin> fst ` set (sv_conns s) \<Longrightarrow> i \<notin> sv_told s \<Longrightarrow>
    socket_step acq s (s\<lparr>sv_conns := sv_conns s @ [(i, Checked)]\<rparr>)"
| slot: "sv_conns s = xs @ (i, Checked) # ys \<Longrightarrow> acquireRequest cancelled (sv_slots s) = Inr sl \<Longrightarrow>
    socket_step acq s (s\<lparr>sv_slots := sl, sv_conns := xs @ (i, Dialing {} None) # ys\<rparr>)"
| no_slot: "sv_conns s = xs @ (i, Checked) # ys \<Longrightarrow> acquireRequest cancelled (sv_slots s) = Inl why \<Longrightarrow>
    socket_step acq s (s\<lparr>sv_conns := xs @ ys\<rparr>)"
| account: "sv_conns s = xs @ (i, Dialing ex refused) # ys \<Longrightarrow> acq key envs ex (sv_pool s) = Some (Inr lease, ex', p) \<Longrightarrow>
    socket_step acq s (s\<lparr>sv_pool := p, sv_conns := xs @ (i, Trying lease ex' refused) # ys\<rparr>)"
| no_account: "sv_conns s = xs @ (i, Dialing ex refused) # ys \<Longrightarrow> acq key envs ex (sv_pool s) = Some (Inl e, ex', p) \<Longrightarrow>
    socket_step acq s (s\<lparr>sv_pool := p, sv_slots := release_slot (sv_slots s), sv_conns := xs @ ys\<rparr>)"
| opened: "sv_conns s = xs @ (i, Trying lease ex refused) # ys \<Longrightarrow> dial_attempt env lease ex (sv_pool s) = (DialOpen lease', p) \<Longrightarrow>
    socket_step acq s (s\<lparr>sv_pool := p, sv_conns := xs @ (i, Opened lease') # ys\<rparr>)"
| refused: "sv_conns s = xs @ (i, Trying lease ex refused) # ys \<Longrightarrow> dial_attempt env lease ex (sv_pool s) = (DialOver e, p) \<Longrightarrow>
    socket_step acq s (s\<lparr>sv_pool := p, sv_slots := release_slot (sv_slots s), sv_conns := xs @ ys\<rparr>)"
| again: "sv_conns s = xs @ (i, Trying lease ex refused) # ys \<Longrightarrow> dial_attempt env lease ex (sv_pool s) = (DialAgain ex' e, p) \<Longrightarrow>
    socket_step acq s (s\<lparr>sv_pool := p, sv_conns := xs @ (i, Dialing ex' (Some e)) # ys\<rparr>)"
| track: "sv_conns s = xs @ (i, Opened lease) # ys \<Longrightarrow> trackWebSocket i s = (True, s') \<Longrightarrow>
    socket_step acq s (s'\<lparr>sv_conns := xs @ (i, Relaying lease) # ys\<rparr>)"
| turned_away: "sv_conns s = xs @ (i, Opened lease) # ys \<Longrightarrow>
    socket_step acq s (leave_server lease (s\<lparr>sv_conns := xs @ ys\<rparr>))"
| relay_end: "sv_conns s = xs @ (i, Relaying lease) # ys \<Longrightarrow>
    socket_step acq s (untrackWebSocket i (s\<lparr>sv_conns := xs @ (i, Leaving lease) # ys\<rparr>))"
| leave: "sv_conns s = xs @ (i, Leaving lease) # ys \<Longrightarrow>
    socket_step acq s (leave_server lease (s\<lparr>sv_conns := xs @ ys\<rparr>))"
| shutdown: "socket_step acq s (stopWebSockets s)"
| all_ended: "sv_closing s \<Longrightarrow> sv_wg s = 0 \<Longrightarrow> socket_step acq s (shutdown_result True s)"
| timed_out: "sv_closing s \<Longrightarrow> sv_shut s = None \<Longrightarrow> socket_step acq s (shutdown_result False s)"
| other_pool: "pool_step (sv_pool s, sv_others s) (p, L) \<Longrightarrow> socket_step acq s (s\<lparr>sv_pool := p, sv_others := L\<rparr>)"
| other_slot: "acquireRequest False (sv_slots s) = Inr sl \<Longrightarrow>
    socket_step acq s (s\<lparr>sv_slots := sl, sv_other_slots := sv_other_slots s + 1\<rparr>)"
| other_done: "0 < sv_other_slots s \<Longrightarrow>
    socket_step acq s (s\<lparr>sv_slots := release_slot (sv_slots s), sv_other_slots := sv_other_slots s - 1\<rparr>)"

section \<open>Laws\<close>

subsection \<open>Reaching an account\<close>

lemma noticed_inv: "load_inv p L \<Longrightarrow> load_inv (noticed env lease a p) L" "ids_within A p \<Longrightarrow> ids_within A (noticed env lease a p)"
proof -
  show "load_inv p L \<Longrightarrow> load_inv (noticed env lease a p) L"
    unfolding noticed_def observe_def by (rule load_inv_upd) (auto simp: Let_def split: option.split)
  show "ids_within A p \<Longrightarrow> ids_within A (noticed env lease a p)"
    unfolding noticed_def observe_def by (rule ids_within_upd) (auto simp: Let_def split: option.split)
qed

lemma second_attempt_frame:
  "second_attempt env lease p = (r, lease', p') \<Longrightarrow> lease' = lease \<and> (p' = p \<or> (\<exists>a. p' = noticed env lease a p))"
  by (auto simp: second_attempt_def split: dial_result.splits)

text \<open>Dialing leaves the pool as it was but for what it noticed, and the lease but for its credentials.\<close>

lemma dialOnAccount_frame:
  assumes "dialOnAccount env lease p = (r, lease', p')"
  shows "le_id lease' = le_id lease" "le_acct lease' = le_acct lease" "load_inv p L \<Longrightarrow> load_inv p' L"
    "ids_within A p \<Longrightarrow> ids_within A p'"
  using assms
  by (auto simp: dialOnAccount_def Let_def noticed_inv split: dial_result.splits if_splits sum.splits dest!: second_attempt_frame)

definition account_error :: "go_error \<Rightarrow> bool" where
  "account_error e = (case e of BackendError s m \<Rightarrow> s = 401 \<or> s = 429 | _ \<Rightarrow> False)"

lemma judge_not_account: "judge_handshake now a = DialFailure e \<Longrightarrow> \<not> account_error e"
  using cooldown_for_refusal [of a "an_headers a" "an_doc a" now]
  by (fastforce simp: judge_handshake_def account_error_def refusal_def split: option.splits if_splits)

lemma dialOnAccount_failure: "dialOnAccount env lease p = (Some (DialFailure e), lease', p') \<Longrightarrow> \<not> account_error e"
  by (auto simp: dialOnAccount_def second_attempt_def Let_def unreachable_def account_error_def split: dial_result.splits if_splits sum.splits
      dest: judge_not_account)

text \<open>What an attempt leaves of the books and of the excluded accounts.\<close>

definition attempt_ok :: "accountLease \<Rightarrow> string set \<Rightarrow> addr multiset \<Rightarrow> dial_progress \<times> accountPool \<Rightarrow> bool" where
  "attempt_ok lease ex L res = (case res of
       (DialOpen l, p) \<Rightarrow> le_acct l = le_acct lease \<and> load_inv p (add_mset (le_acct lease) L)
     | (DialOver e, p) \<Rightarrow> load_inv p L \<and> \<not> account_error e
     | (DialAgain ex' e, p) \<Rightarrow> load_inv p L \<and> ex' = insert (le_id lease) ex)"

lemma dial_attempt_ok:
  assumes "load_inv p (add_mset (le_acct lease) L)"
  shows "attempt_ok lease ex L (dial_attempt env lease ex p)"
proof -
  obtain r lease' p' where d: "dialOnAccount env lease p = (r, lease', p')"
    by (cases "dialOnAccount env lease p")
  note f = dialOnAccount_frame [OF d]
  have i: "load_inv p' (add_mset (le_acct lease) L)"
    by (rule f(3) [OF assms])
  show ?thesis
    using d f(1,2) i load_inv_release [OF i] dialOnAccount_failure
    by (auto simp: attempt_ok_def dial_attempt_def load_inv_coolDown split: option.splits dial_failure.splits)
qed

lemma dial_attempt_within:
  assumes "dial_attempt env lease ex p = (DialAgain ex' e, p')" "ids_within A p"
  shows "ids_within A p' \<and> ex' = insert (le_id lease) ex"
proof -
  obtain r lease' p1 where d: "dialOnAccount env lease p = (r, lease', p1)"
    by (cases "dialOnAccount env lease p")
  show ?thesis
    using assms dialOnAccount_frame(1) [OF d] dialOnAccount_frame(4) [OF d, of A]
    by (auto simp: dial_attempt_def d ids_within_coolDown ids_within_release split: option.splits dial_failure.splits)
qed

context account_source
begin

lemma dial_loop_ok:
  assumes "dial_loop acq envs ex refused p = Some (r, ex', p')" "load_inv p L"
  shows "load_inv p' (granted r L) \<and> (\<forall>e. r = Inl e \<and> account_error e \<longrightarrow> candidates ex' p' = [])"
  using assms
proof (induction envs arbitrary: ex refused p)
  case (Cons env envs)
  obtain r1 ex1 p1 where a: "acq (de_acquire env) ex p = Some (r1, ex1, p1)"
    using Cons.prems(1) by (cases "acq (de_acquire env) ex p") auto
  note b = books [OF a Cons.prems(2)]
  show ?case
  proof (cases r1)
    case (Inl e)
    then show ?thesis
      using Cons.prems(1) a b exhausted [of "de_acquire env" ex p e ex1 p1] by (auto simp: granted_def)
  next
    case (Inr lease)
    have "attempt_ok lease ex1 L (dial_attempt env lease ex1 p1)"
      using dial_attempt_ok b by (simp add: Inr granted_def)
    then show ?thesis
      using Cons.prems(1) Cons.IH
      by (auto simp: a Inr attempt_ok_def granted_def split: prod.splits dial_progress.splits)
  qed
qed simp

end

context total_account_source
begin

lemma dial_loop_terminates:
  assumes "finite A" "ex \<subseteq> A" "ids_within A p" "card (A - ex) < length envs"
    and "list_all (\<lambda>env. acquires_within A (de_acquire env)) envs"
  shows "dial_loop acq envs ex refused p \<noteq> None"
  using assms(2-)
proof (induction envs arbitrary: ex refused p)
  case (Cons env envs)
  obtain r ex1 p1 where a: "acq (de_acquire env) ex p = Some (r, ex1, p1)"
    and w: "ids_within A p1" "ex1 \<subseteq> A" "\<And>lease. r = Inr lease \<Longrightarrow> le_id lease \<in> A"
    using total [OF assms(1) Cons.prems(2) _ Cons.prems(1), of "de_acquire env"] Cons.prems(4) by auto
  show ?case
  proof (cases r)
    case (Inr lease)
    show ?thesis
    proof (cases "fst (dial_attempt env lease ex1 p1)")
      case (DialAgain ex2 e)
      then obtain p2 where d: "dial_attempt env lease ex1 p1 = (DialAgain ex2 e, p2)"
        by (metis prod.collapse)
      have f: "le_id lease \<notin> ex1" "ex \<subseteq> ex1" "le_id lease \<in> A"
        using fresh [of "de_acquire env" ex p lease ex1 p1] a Inr w(3) by auto
      have n: "ids_within A p2" "ex2 = insert (le_id lease) ex1"
        using dial_attempt_within [OF d w(1)] by simp_all
      have "A - ex2 \<subset> A - ex"
        using n(2) f by auto
      then have "card (A - ex2) < card (A - ex)"
        using assms(1) by (intro psubset_card_mono) auto
      then show ?thesis
        using Cons.IH [of ex2 p2 "Some e"] n f(3) w(2) Cons.prems(3,4) by (simp add: a Inr d)
    qed (auto simp: a Inr split: prod.splits)
  qed (simp add: a)
qed simp

end

text \<open>C22: A WebSocket handshake ends, and keeps the books: with accounts within a finite set \<open>A\<close> and one
  round more than it has members, it returns; the connection holds exactly one lease more than before,
  an error none; and a 401 or 429 is returned only when every account is disabled or was tried.\<close>

theorem websocket_handshake_keeps_the_books:
  assumes "finite A" "fst ` set (po_accounts p) \<subseteq> A" "card A < length envs"
    and "list_all (\<lambda>env. acquires_within A (de_acquire env)) envs" "load_inv p L"
  shows "\<exists>r ex p'. dialWebSocket base query session path envs p = Some (r, ex, p') \<and> load_inv p' (granted r L)
    \<and> (\<forall>e i x. r = Inl e \<and> account_error e \<and> account_at p' i = Some x \<longrightarrow> i \<in> ex \<or> i \<in> set (po_disabled p'))"
proof (cases "resolveProxyURL base ''responses'' query = None")
  case True
  then show ?thesis
    using assms(5) by (simp add: dialWebSocket_def granted_def account_error_def)
next
  case False
  let ?run = "dial_loop (pool_acquire path (socket_hints session)) envs {} None p"
  have "ids_within A p"
    using assms(2,5) by (simp add: ids_within_def load_inv_def)
  then have "?run \<noteq> None"
    using assms(1,3,4) by (intro pool_total.dial_loop_terminates [of A]) simp_all
  then obtain r ex p' where r: "?run = Some (r, ex, p')"
    by auto
  have ok: "load_inv p' (granted r L)" "\<And>e. r = Inl e \<Longrightarrow> account_error e \<Longrightarrow> candidates ex p' = []"
    using pool_source.dial_loop_ok [OF r assms(5)] by auto
  moreover have "pool_wf p'"
    using ok(1) by (simp add: load_inv_def)
  ultimately show ?thesis
    using False r all_tried [of ex p'] by (auto simp: dialWebSocket_def)
qed

definition sample_dial :: dial_env where
  "sample_dial = \<lparr>de_acquire = rn_acquire (sample_round 429), de_first = (\<lambda>_. Connected), de_reload = Inl SSELimit,
     de_second = (\<lambda>_. Unreachable), de_now = 0, de_disk = one_disk\<rparr>"

lemma one_account: "fst ` set (po_accounts (newAccountPool 0 one_disk)) = {''default''}" "set (present_ids one_disk) = {''default''}"
  by code_simp+

definition sample_base :: parsed_url where
  "sample_base = \<lparr>url_Scheme = ''https'', url_Host = ''h'', url_Path = ''/b'', url_RawQuery = [], url_Fragment = []\<rparr>"

theorem websocket_handshake_keeps_the_books_witness:
  "\<exists>r ex p'. dialWebSocket (Some sample_base) [] ''session'' ''auth.json'' [sample_dial, sample_dial] (newAccountPool 0 one_disk) = Some (r, ex, p')
     \<and> load_inv p' (granted r {#})"
proof -
  have "acquires_within {''default''} (de_acquire sample_dial)"
    using one_account(2) by (simp add: acquires_within_def sample_dial_def sample_round_def list_all_iff)
  then show ?thesis
    using websocket_handshake_keeps_the_books [of "{''default''}" "newAccountPool 0 one_disk" "[sample_dial, sample_dial]" "{#}"
        "Some sample_base" "[]" "''session''" "''auth.json''"] one_account(1) load_inv_new
    by auto
qed

subsection \<open>Redaction leaves no secret\<close>

text \<open>A secret of the kind API keys and tokens are: no brackets, no space, and not part of the marker.\<close>

definition plain_secret :: "string \<Rightarrow> bool" where
  "plain_secret w \<longleftrightarrow> CHR ''['' \<notin> set w \<and> CHR '']'' \<notin> set w \<and> CHR '' '' \<notin> set w \<and> \<not> sublist w ''REDACTED''"

text \<open>A matcher keeps a beginning of the text, and leaves an end of it.\<close>

definition matcher_ok :: "matcher \<Rightarrow> bool" where
  "matcher_ok m \<longleftrightarrow> (\<forall>prev s kept rest. m prev s = Some (kept, rest) \<longrightarrow> prefix kept s \<and> suffix rest s)"

lemma ci_prefix_split: "ci_prefix p s = Some (w, r) \<Longrightarrow> s = w @ r"
  by (auto simp: ci_prefix_def split: if_splits)

lemma match_assign_split: "match_assign s = Some (a, r) \<Longrightarrow> s = a @ r"
proof -
  assume m: "match_assign s = Some (a, r)"
  obtain c cs where c: "dropWhile re_space s = c # cs" "a = takeWhile re_space s @ [c] @ takeWhile re_space cs" "r = dropWhile re_space cs"
    using m by (auto simp: match_assign_def span_def split: list.splits if_splits)
  have "s = takeWhile re_space s @ c # cs"
    using takeWhile_dropWhile_id [of re_space s] by (simp add: c(1))
  also have "cs = takeWhile re_space cs @ dropWhile re_space cs"
    by simp
  finally show ?thesis
    by (simp add: c(2,3))
qed

lemma bearer_tail_split: "bearer_tail kept s = Some (k, r) \<Longrightarrow> \<exists>mid. kept @ s = k @ mid @ r"
proof -
  assume m: "bearer_tail kept s = Some (k, r)"
  let ?t = "dropWhile re_space s"
  have kr: "k = kept @ takeWhile re_space s" "r = dropWhile secret_char ?t"
    using m by (auto simp: bearer_tail_def span_def Let_def split: if_splits)
  have "kept @ s = k @ takeWhile secret_char ?t @ r"
    by (simp add: kr)
  then show ?thesis ..
qed

lemma split_prefix_suffix: "\<exists>mid. s = k @ mid @ r \<Longrightarrow> prefix k s \<and> suffix r s"
  by (auto simp: prefix_def suffix_def)

lemma case_option_Some: "(case x of None \<Rightarrow> None | Some k \<Rightarrow> g k) = Some y \<Longrightarrow> \<exists>k. g k = Some y"
  by (cases x) auto

lemma matchers_ok: "matcher_ok match_bearer" "matcher_ok match_authorization" "matcher_ok match_key" "matcher_ok match_jwt"
  "matcher_ok (match_secret w)"
proof -
  show "matcher_ok match_bearer"
    unfolding matcher_ok_def
    by (auto simp: match_bearer_def split: if_splits option.splits dest!: ci_prefix_split bearer_tail_split intro!: split_prefix_suffix)
  show "matcher_ok match_authorization"
    unfolding matcher_ok_def
    by (auto simp: match_authorization_def split: if_splits option.splits
        dest!: ci_prefix_split match_assign_split bearer_tail_split intro!: split_prefix_suffix)
  show "matcher_ok match_key"
    unfolding matcher_ok_def
  proof (intro allI impI)
    fix prev s kept rest
    assume "match_key prev s = Some (kept, rest)"
    from case_option_Some [OF this [unfolded match_key_def]] obtain k :: string where m: "(case match_assign (drop (length k) s) of None \<Rightarrow> None
        | Some (a, r) \<Rightarrow> (let (tok, r') = span secret_char r in if tok = [] then None else Some (take (length k) s @ a, r')))
          = Some (kept, rest)" ..
    then obtain a r where "match_assign (drop (length k) s) = Some (a, r)"
      by (auto split: option.splits)
    then have k: "match_assign (drop (length k) s) = Some (a, r)" "rest = dropWhile secret_char r" "kept = take (length k) s @ a"
      using m by (auto simp: span_def split: if_splits)
    have "s = take (length k) s @ drop (length k) s"
      by simp
    also have "drop (length k) s = a @ takeWhile secret_char r @ rest"
      using match_assign_split [OF k(1)] by (simp add: k(2))
    finally show "prefix kept s \<and> suffix rest s"
      by (intro split_prefix_suffix) (simp add: k(3), metis)
  qed
  show "matcher_ok match_jwt"
    unfolding matcher_ok_def
  proof (intro allI impI)
    fix prev s kept rest
    assume m: "match_jwt prev s = Some (kept, rest)"
    have su: "suffix (dropWhile jwt_char (tl x)) x" for x :: string
      by (rule suffix_order.trans [OF suffix_dropWhile suffix_tl])
    define r1 where "r1 = dropWhile jwt_char (drop 3 s)"
    define r2 where "r2 = dropWhile jwt_char (tl r1)"
    obtain n where n: "kept = []" "rest = drop n (takeWhile jwt_char (tl r2)) @ dropWhile jwt_char (tl r2)"
      using m by (auto simp: match_jwt_def span_def Let_def r1_def r2_def split: if_splits)
    have "suffix rest (tl r2)"
      unfolding n(2) by (metis append_take_drop_id append.assoc suffixI takeWhile_dropWhile_id)
    then have "suffix rest r2"
      using suffix_tl suffix_order.trans by blast
    also have "suffix r2 r1"
      unfolding r2_def by (rule su)
    also have "suffix r1 s"
      unfolding r1_def by (rule suffix_order.trans [OF suffix_dropWhile suffix_drop])
    finally show "prefix kept s \<and> suffix rest s"
      by (simp add: n(1))
  qed
  show "matcher_ok (match_secret w)"
    by (auto simp: matcher_ok_def match_secret_def suffix_drop split: if_splits)
qed

lemma sublist_mark: "c \<notin> set w \<Longrightarrow> sublist w (xs @ c # ys) \<longleftrightarrow> sublist w xs \<or> sublist w ys"
  by (auto simp: sublist_append sublist_Cons_right prefix_Cons)

lemma prefix_mark: "c \<notin> set w \<Longrightarrow> prefix w (xs @ c # ys) \<Longrightarrow> prefix w xs"
  by (auto simp: prefix_append prefix_Cons)

lemma scan_prefix:
  assumes "matcher_ok m" "CHR ''['' \<notin> set w" "prefix w (redact_scan n m prev s)"
  shows "prefix w s"
  using assms
proof (induction n m prev s arbitrary: w rule: redact_scan.induct)
  case (3 n m prev c cs)
  show ?case
  proof (cases "m prev (c # cs)")
    case None
    then show ?thesis
      using 3 by (cases w) auto
  next
    case (Some kr)
    obtain kept rest where k: "kr = (kept, rest)" by (cases kr)
    have "prefix w kept"
      using 3(4,5) prefix_mark by (simp add: Some k)
    moreover have "prefix kept (c # cs)"
      using 3(3) Some k unfolding matcher_ok_def by blast
    ultimately show ?thesis
      using prefix_order.trans by blast
  qed
qed simp_all

lemma scan_sublist:
  assumes "matcher_ok m" "CHR ''['' \<notin> set w" "CHR '']'' \<notin> set w" "\<not> sublist w ''REDACTED''"
    and "sublist w (redact_scan n m prev s)"
  shows "sublist w s"
  using assms
proof (induction n m prev s rule: redact_scan.induct)
  case (3 n m prev c cs)
  show ?case
  proof (cases "m prev (c # cs)")
    case None
    have "prefix w (c # cs)" if "prefix w (c # redact_scan n m (re_word c) cs)"
      using that scan_prefix [OF 3(3), of _ n "re_word c" cs] 3(4) by (cases w) auto
    then show ?thesis
      using 3(1) 3(3-7) None by (auto simp: sublist_Cons_right)
  next
    case (Some kr)
    obtain kept rest where k: "kr = (kept, rest)" by (cases kr)
    then have "sublist w kept \<or> sublist w (redact_scan n m (re_word ((c # cs) ! (length cs - length rest))) rest)"
      using 3(7) sublist_mark [OF 3(4), of kept] sublist_mark [OF 3(5), of "''REDACTED''"] 3(6) by (simp add: Some)
    then have "sublist w kept \<or> sublist w rest"
      using 3(2) [OF Some k [symmetric] 3(3-6)] by blast
    moreover have "prefix kept (c # cs)" "suffix rest (c # cs)"
      using 3(3) Some k unfolding matcher_ok_def by blast+
    ultimately show ?thesis
      using sublist_order.order.trans prefix_imp_sublist suffix_imp_sublist by blast
  qed
qed simp_all

lemma replace_absent:
  "plain_secret w \<Longrightarrow> matcher_ok m \<Longrightarrow> \<not> sublist w s \<Longrightarrow> \<not> sublist w (replace_secrets m s)"
  unfolding replace_secrets_def plain_secret_def using scan_sublist by blast

lemma fold_absent:
  "plain_secret w \<Longrightarrow> list_all matcher_ok ms \<Longrightarrow> \<not> sublist w s \<Longrightarrow> \<not> sublist w (fold replace_secrets ms s)"
  by (induction ms arbitrary: s) (simp_all add: replace_absent)

lemma controls_absent:
  assumes "CHR '' '' \<notin> set w" "sublist w (map (\<lambda>c. if is_control c then CHR '' '' else c) s)"
  shows "sublist w s"
proof -
  let ?f = "\<lambda>c. if is_control c then CHR '' '' else c"
  obtain ps ss where "map ?f s = ps @ w @ ss"
    using assms(2) by (auto simp: sublist_def)
  then obtain p1 r where "s = p1 @ r" "map ?f r = w @ ss"
    unfolding map_eq_append_conv [of ?f s] by (elim exE conjE) simp
  moreover from this(2) obtain w1 s1 where "r = w1 @ s1" "map ?f w1 = w"
    unfolding map_eq_append_conv [of ?f r] by (elim exE conjE) simp
  ultimately have s: "s = p1 @ w1 @ s1" "map ?f w1 = w"
    by simp_all
  have "map ?f w1 = w1"
    using s(2) assms(1) by (intro map_idI) (auto split: if_splits)
  then show ?thesis
    using s by auto
qed

lemma redactSensitive_absent: "plain_secret w \<Longrightarrow> \<not> sublist w s \<Longrightarrow> \<not> sublist w (redactSensitive s)"
proof
  assume w: "plain_secret w" "\<not> sublist w s" and r: "sublist w (redactSensitive s)"
  have c: "CHR '' '' \<notin> set w"
    using w(1) by (simp add: plain_secret_def)
  from r [unfolded redactSensitive_def]
  have "sublist w (fold replace_secrets [match_bearer, match_authorization, match_key, match_jwt] s)"
    by (rule controls_absent [OF c])
  moreover have "list_all matcher_ok [match_bearer, match_authorization, match_key, match_jwt]"
    by (simp add: matchers_ok)
  note fold_absent [OF w(1) this w(2)]
  ultimately show False by contradiction
qed

lemma scan_hides:
  assumes "plain_secret w"
  shows "length s \<le> n \<Longrightarrow> \<not> sublist w (redact_scan n (match_secret w) prev s)"
proof (induction "length s" arbitrary: s n prev rule: less_induct)
  case less
  have w: "w \<noteq> []" "CHR ''['' \<notin> set w" "CHR '']'' \<notin> set w" "\<not> sublist w ''REDACTED''"
    using assms by (auto simp: plain_secret_def)
  show ?case
  proof (cases s)
    case Nil
    then show ?thesis
      using w(1) by (cases n) simp_all
  next
    case (Cons c cs)
    then obtain n' where n: "n = Suc n'"
      using less(2) by (cases n) auto
    show ?thesis
    proof (cases "has_prefix w s")
      case True
      have "\<not> sublist w (redact_scan n' (match_secret w) p (drop (length w) s))" for p
        using less.hyps [of "drop (length w) s" n' p] less.prems w(1) Cons n by (cases w) simp_all
      then show ?thesis
        using True Cons w(1) sublist_mark [OF w(2), of "[]"] sublist_mark [OF w(3), of "''REDACTED''"] w(4)
        by (simp add: n match_secret_def)
    next
      case False
      have "\<not> prefix w (c # redact_scan n' (match_secret w) (re_word c) cs)"
      proof
        assume p: "prefix w (c # redact_scan n' (match_secret w) (re_word c) cs)"
        have "prefix w s"
          using p scan_prefix [OF matchers_ok(5), of _ n' w "re_word c" cs] w(1,2) unfolding Cons by (cases w) auto
        then show False
          using False by (auto simp: prefix_def)
      qed
      then show ?thesis
        using False less.hyps [of cs n' "re_word c"] less.prems by (simp add: Cons n match_secret_def sublist_Cons_right)
    qed
  qed
qed

lemma hide_secret_absent: "plain_secret w \<Longrightarrow> \<not> sublist w (hide_secret w s)"
  using scan_hides [of w s "length s"] by (auto simp: hide_secret_def replace_secrets_def plain_secret_def)

lemma hide_other_absent: "plain_secret w \<Longrightarrow> \<not> sublist w s \<Longrightarrow> \<not> sublist w (hide_secret x s)"
  by (simp add: hide_secret_def replace_absent matchers_ok)

lemma scrub_string_absent:
  assumes "plain_secret w" "w \<in> set secrets"
  shows "\<not> sublist w (scrub_string secrets s)"
proof -
  have keep: "\<not> sublist w (fold hide_secret xs s)" if "\<not> sublist w s" for xs s
    using that assms(1) by (induction xs arbitrary: s) (simp_all add: hide_other_absent)
  obtain xs ys where "secrets = xs @ w # ys"
    using assms(2) by (meson split_list)
  then have "\<not> sublist w (fold hide_secret secrets s)"
    using keep hide_secret_absent [OF assms(1)] by simp
  then show ?thesis
    using assms(1) by (simp add: scrub_string_def redactSensitive_absent)
qed

text \<open>A value that has the secret in none of its strings.\<close>

fun json_strings :: "json \<Rightarrow> string list" where
  "json_strings (JStr s) = [s]"
| "json_strings (JArr vs) = concat (map json_strings vs)"
| "json_strings (JObj m) = concat (map (\<lambda>(key, v). json_strings v) m)"
| "json_strings v = []"

definition hides :: "string \<Rightarrow> json \<Rightarrow> bool" where
  "hides w v \<longleftrightarrow> list_all (\<lambda>s. \<not> sublist w s) (json_strings v)"

lemma hides_simps [simp]: "hides w JNull" "hides w (JStr s) \<longleftrightarrow> \<not> sublist w s"
  "hides w (JObj m) \<longleftrightarrow> list_all (\<lambda>(key, v). hides w v) m" "hides w (JArr vs) \<longleftrightarrow> list_all (hides w) vs"
  by (auto simp: hides_def list_all_iff)

lemma marker_hides: "plain_secret w \<Longrightarrow> \<not> sublist w ''[REDACTED]''"
  using sublist_mark [of "CHR ''[''" w "[]"] sublist_mark [of "CHR '']''" w "''REDACTED''" "[]"] by (auto simp: plain_secret_def)

lemma scrub_hides:
  assumes "plain_secret w" "w \<in> set secrets"
  shows "hides w (scrub secrets v)"
  using assms(2)
proof (induction secrets v rule: scrub.induct)
  case (2 secrets m)
  then show ?case
    using marker_hides [OF assms(1)] by (auto simp: list_all_iff)
qed (use assms(1) scrub_string_absent in \<open>auto simp: list_all_iff hides_def\<close>)

lemma scrub_obj_hides: "plain_secret w \<Longrightarrow> w \<in> set secrets \<Longrightarrow> hides w (JObj (scrub_obj secrets m))"
  using scrub_hides [of w secrets "JObj m"] by (simp add: scrub_obj_def)

lemma hides_update: "hides w (JObj m) \<Longrightarrow> hides w v \<Longrightarrow> hides w (JObj (oset k v m))"
  by (induction m) auto

text \<open>An error event and its redaction: a failure hides the secret everywhere, any event in its error and
  in the error of its response, and nothing else of it changes.\<close>

definition failure_event :: "obj \<Rightarrow> bool" where
  "failure_event event \<longleftrightarrow> error_type (stringValue (oget event ''type''))"

definition response_field :: "obj \<Rightarrow> string \<Rightarrow> json" where
  "response_field event key = mget (mapAny (oget event ''response'')) key"

definition carries_no_error :: "obj \<Rightarrow> bool" where
  "carries_no_error event \<longleftrightarrow> \<not> failure_event event \<and> oget event ''error'' = JNull \<and> response_field event ''error'' = JNull"

definition redacted_event :: "string \<Rightarrow> obj \<Rightarrow> obj \<Rightarrow> bool" where
  "redacted_event w event event' \<longleftrightarrow> (failure_event event \<longrightarrow> hides w (JObj event'))
     \<and> hides w (oget event' ''error'') \<and> hides w (response_field event' ''error'')
     \<and> (failure_event event \<or> (\<forall>key. key \<noteq> ''error'' \<longrightarrow> response_field event' key = response_field event key
          \<and> (key \<noteq> ''response'' \<longrightarrow> oget event' key = oget event key)))"

lemma hides_oget: "hides w (JObj m) \<Longrightarrow> hides w (oget m key)"
  by (cases "map_of m key") (auto simp: oget_def list_all_iff dest!: map_of_SomeD)

lemma hides_response: "hides w (JObj m) \<Longrightarrow> hides w (response_field m key)"
  using hides_oget [of w m "''response''"] hides_oget [of w _ key]
  by (cases "oget m ''response''") (simp_all add: response_field_def)

lemma response_field_update:
  "response_field (oset k v m) key = (if k = ''response'' then mget (mapAny v) key else response_field m key)"
  by (simp add: response_field_def)

lemma scrub_first_cases:
  assumes "plain_secret w" "w \<in> set secrets"
  obtains (failure) event' where "failure_event event" "scrub_first secrets event = (event', True)" "hides w (JObj event')"
  | (response) v where "\<not> failure_event event" "hides w v"
      "scrub_first secrets event = (oset ''response'' (JObj (oset ''error'' v (case mapAny (oget event ''response'') of Some r \<Rightarrow> r | None \<Rightarrow> []))) event, True)"
      "mapAny (oget event ''response'') \<noteq> None"
  | (none) "\<not> failure_event event" "response_field event ''error'' = JNull" "scrub_first secrets event = (event, False)"
proof (cases "failure_event event")
  case True
  then show ?thesis
    using failure scrub_obj_hides [OF assms] by (simp add: scrub_first_def failure_event_def)
next
  case False
  show ?thesis
  proof (cases "response_field event ''error'' = JNull")
    case True
    then show ?thesis
      using False none
      by (cases "mapAny (oget event ''response'')") (simp_all add: scrub_first_def failure_event_def response_field_def)
  next
    case err: False
    then obtain r where "mapAny (oget event ''response'') = Some r" "oget r ''error'' \<noteq> JNull"
      by (cases "mapAny (oget event ''response'')") (simp_all add: response_field_def)
    then show ?thesis
      using False response [of "scrub secrets (oget r ''error'')"] scrub_hides [OF assms]
      by (simp add: scrub_first_def failure_event_def)
  qed
qed

lemma scrub_event_redacts:
  assumes "plain_secret w" "w \<in> set secrets" "scrub_event secrets event = (event', changed)"
  shows "if changed then redacted_event w event event' else event' = event \<and> carries_no_error event"
proof -
  obtain e1 c1 where f: "scrub_first secrets event = (e1, c1)"
    by (cases "scrub_first secrets event")
  have e': "event' = (if oget e1 ''error'' \<noteq> JNull then oset ''error'' (scrub secrets (oget e1 ''error'')) e1 else e1)"
    "changed = (oget e1 ''error'' \<noteq> JNull \<or> c1)"
    using assms(3) by (auto simp: scrub_event_def f split: if_splits)
  have err: "hides w (oget event' ''error'')"
    using scrub_hides [OF assms(1,2)] by (simp add: e'(1))
  have resp: "response_field event' key = response_field e1 key" for key
    by (simp add: e'(1) response_field_update)
  have other: "key \<noteq> ''error'' \<Longrightarrow> oget event' key = oget e1 key" for key
    by (simp add: e'(1))
  show ?thesis
  proof (cases rule: scrub_first_cases [OF assms(1,2), of event, case_names failure response none])
    case (failure e2)
    have "hides w (JObj event')"
      using failure f scrub_hides [OF assms(1,2)] hides_update by (simp add: e'(1) del: hides_simps(3))
    then show ?thesis
      using failure f err hides_response by (simp add: redacted_event_def e'(2) del: hides_simps(3))
  next
    case (response v)
    then show ?thesis
      using f err by (auto simp: redacted_event_def e'(2) resp other response_field_update response_field_def)
  next
    case none
    then show ?thesis
      using f err e' by (auto simp: redacted_event_def response_field_update carries_no_error_def)
  qed
qed


definition sample_relay :: relay_cfg where
  "sample_relay = \<lparr>rc_decode = (\<lambda>s. Some [(''type'', JStr ''error''), (''error'', JStr s)]), rc_marshal = (\<lambda>v. []),
     rc_model = ''m'', rc_dropParams = [], rc_secrets = [[], ''tok-1'']\<rparr>"


text \<open>The payload sent for a \<open>response.create\<close>: one for Codex, with nothing but the transport fields changed.\<close>

definition transport_fields :: "string set" where
  "transport_fields = {''model'', ''instructions'', ''input'', ''include'', ''text'', ''store'', ''stream'', ''background'',
     ''tool_choice'', ''parallel_tool_calls'', ''max_output_tokens''}"

definition socket_payload :: "relay_cfg \<Rightarrow> obj \<Rightarrow> obj \<Rightarrow> bool" where
  "socket_payload cfg event sent \<longleftrightarrow> codex_payload sent \<and> oget sent ''stream'' = JNull \<and> oget sent ''background'' = JNull
     \<and> (\<forall>key. key \<notin> transport_fields \<longrightarrow> oget sent key = (if key \<in> set (rc_dropParams cfg) then JNull else oget event key))
     \<and> (''model'' \<notin> set (rc_dropParams cfg) \<longrightarrow> oget sent ''model''
         = (if stringValue (oget event ''model'') = [] then JStr (rc_model cfg) else oget event ''model''))"

lemma socket_create_payload: "socket_payload cfg event (socket_create (rc_model cfg) (rc_dropParams cfg) event)"
proof -
  define e1 where "e1 = setDefault (if stringValue (oget event ''model'') = [] then oset ''model'' (JStr (rc_model cfg)) event else event)
     ''instructions'' (JStr ''You are a helpful assistant.'')"
  define e2 where "e2 = (case oget e1 ''input'' of JStr s \<Rightarrow> oset ''input'' (JArr [JObj [(''role'', JStr ''user''), (''content'', JStr s)]]) e1 | _ \<Rightarrow> e1)"
  let ?n = "normalizeCodexPayload e2 (rc_dropParams cfg)"
  have create: "socket_create (rc_model cfg) (rc_dropParams cfg) event = odel ''background'' (odel ''stream'' ?n)"
    unfolding socket_create_def Let_def e2_def e1_def by (rule refl)
  have 1: "oget e1 key = (if key = ''model'' then (if stringValue (oget event ''model'') = [] then JStr (rc_model cfg) else oget event ''model'')
      else oget event key)" if "key \<noteq> ''instructions''" for key
    using that by (simp add: e1_def)
  have 2: "oget e2 key = oget e1 key" if "key \<noteq> ''input''" for key
    using that by (simp add: e2_def split: json.split)
  have "codex_payload (odel ''background'' (odel ''stream'' ?n))"
    using normalized_payload(1) [of e2 "rc_dropParams cfg"] by (simp add: codex_payload_def)
  moreover have "oget ?n key = (if key \<in> set (rc_dropParams cfg) then JNull else oget event key)" if "key \<notin> transport_fields" for key
    using that 1 [of key] 2 [of key] by (simp add: transport_fields_def normalized_other)
  moreover have "oget ?n ''model'' = oget e1 ''model''" if "''model'' \<notin> set (rc_dropParams cfg)"
    using that 2 by (simp add: normalized_other)
  ultimately show ?thesis
    unfolding socket_payload_def create using 1 [of "''model''"] by (auto simp: transport_fields_def)
qed

text \<open>What the client asks for on the socket: a \<open>response.create\<close> in fast mode or in the background
  is answered with an error and goes nowhere; any other is sent upstream as a payload for Codex with
  nothing but the transport fields changed; and every other frame is passed on as it came.\<close>

theorem websocket_request_contract:
  "case (if fr_kind f = TextMessage then rc_decode cfg (fr_data f) else None) of
     None \<Rightarrow> relay_client cfg f = Pass f
   | Some event \<Rightarrow>
       if oget event ''type'' \<noteq> JStr ''response.create'' then relay_client cfg f = Pass f
       else if boolValue (oget event ''fast_mode'') \<or> boolValue (oget event ''background'')
       then \<exists>data. relay_client cfg f = Reply \<lparr>fr_kind = TextMessage, fr_data = data\<rparr>
       else \<exists>sent. relay_client cfg f = Pass (f\<lparr>fr_data := rc_marshal cfg (JObj sent)\<rparr>) \<and> socket_payload cfg event sent"
  using socket_create_payload by (auto simp: relay_client_def relay_create_def socket_reply_def split: option.split)

subsection \<open>The life of a connection\<close>

text \<open>Which stages hold a slot, and which a lease.\<close>

definition conn_slots :: "(nat \<times> stage) list \<Rightarrow> nat" where
  "conn_slots cs = length (filter (\<lambda>(i, s). s \<noteq> Checked) cs)"

definition conn_leases :: "(nat \<times> stage) list \<Rightarrow> addr multiset" where
  "conn_leases cs = sum_list (map (\<lambda>(i, s). stage_leases s) cs)"

fun relays :: "stage \<Rightarrow> bool" where
  "relays (Relaying lease) = True"
| "relays s = False"

definition relaying :: "(nat \<times> stage) list \<Rightarrow> nat list" where
  "relaying cs = map fst (filter (\<lambda>(i, s). relays s) cs)"

lemma conn_simps [simp]:
  "conn_slots (xs @ ys) = conn_slots xs + conn_slots ys" "conn_slots ((i, s) # ys) = (if s = Checked then 0 else 1) + conn_slots ys"
  "conn_leases (xs @ ys) = conn_leases xs + conn_leases ys" "conn_leases ((i, s) # ys) = stage_leases s + conn_leases ys"
  "relaying (xs @ ys) = relaying xs @ relaying ys" "relaying ((i, s) # ys) = (if relays s then i # relaying ys else relaying ys)"
  "conn_slots [] = 0" "conn_leases [] = {#}" "relaying [] = []"
  by (simp_all add: conn_slots_def conn_leases_def relaying_def)

lemma relaying_conns: "i \<in> set (relaying cs) \<Longrightarrow> i \<in> fst ` set cs"
  by (auto simp: relaying_def)

definition slots_ok :: "slots \<Rightarrow> nat \<Rightarrow> bool" where
  "slots_ok sl n = (case sl of None \<Rightarrow> True | Some (cap, used) \<Rightarrow> used = n \<and> used \<le> cap)"

lemma slots_ok_take: "slots_ok sl n \<Longrightarrow> acquireRequest c sl = Inr sl' \<Longrightarrow> slots_ok sl' (Suc n)"
  by (auto simp: slots_ok_def acquireRequest_def split: option.splits prod.splits if_splits)

lemma slots_ok_release: "slots_ok sl (Suc n) \<Longrightarrow> slots_ok (release_slot sl) n"
  by (auto simp: slots_ok_def release_slot_def split: option.splits prod.splits)

definition socket_inv :: "socket_server \<Rightarrow> bool" where
  "socket_inv s \<longleftrightarrow> load_inv (sv_pool s) (sv_others s + conn_leases (sv_conns s))
     \<and> slots_ok (sv_slots s) (sv_other_slots s + conn_slots (sv_conns s))
     \<and> distinct (map fst (sv_conns s))
     \<and> set (sv_tracked s) = set (relaying (sv_conns s)) \<and> distinct (sv_tracked s) \<and> sv_wg s = length (sv_tracked s)
     \<and> (sv_closing s \<longrightarrow> set (sv_tracked s) \<subseteq> sv_told s)
     \<and> (sv_shut s = Some True \<longrightarrow> sv_closing s \<and> sv_tracked s = [])
     \<and> (sv_shut s \<noteq> None \<longrightarrow> sv_closing s)"

text \<open>Steps of the pool with some leases are steps with more.\<close>

lemma pool_step_more: "pool_step (p, L) (p', L') \<Longrightarrow> pool_step (p, L + M) (p', L' + M)"
  by (erule pool_stepE) (auto intro: pool_step.intros)

lemma length_without: "distinct xs \<Longrightarrow> length (filter (\<lambda>j. j \<noteq> i) xs) = (if i \<in> set xs then length xs - 1 else length xs)"
  by (induction xs) (auto dest: length_pos_if_in_set)

lemma socket_invD:
  assumes "socket_inv s"
  shows "load_inv (sv_pool s) (sv_others s + conn_leases (sv_conns s))" "slots_ok (sv_slots s) (sv_other_slots s + conn_slots (sv_conns s))"
    "distinct (map fst (sv_conns s))"
  using assms by (simp_all add: socket_inv_def)

text \<open>What the connections need: for every session id a source of accounts.\<close>

locale socket_sources =
  fixes acq :: "string \<Rightarrow> acquirer"
  assumes source: "account_source (acq key)"
begin

lemmas books = account_source.books [OF source]

lemma socket_inv_step:
  assumes "socket_step acq s s'" "socket_inv s"
  shows "socket_inv s'"
  using assms
proof (induction rule: socket_step.induct)
  case (slot s xs i ys cancelled sl)
  then show ?case
    using slots_ok_take [OF _ slot(2)] by (auto simp: socket_inv_def)
next
  case (account s xs i ex refused ys key envs lease ex' p)
  then show ?case
    using books [OF account(2), of "sv_others s + conn_leases (sv_conns s)"] by (auto simp: socket_inv_def granted_def)
next
  case (no_account s xs i ex refused ys key envs e ex' p)
  then show ?case
    using books [OF no_account(2), of "sv_others s + conn_leases (sv_conns s)"] slots_ok_release
    by (auto simp: socket_inv_def granted_def)
next
  case (opened s xs i lease ex refused ys env lease' p)
  then have "attempt_ok lease ex (sv_others s + conn_leases (xs @ ys)) (dial_attempt env lease ex (sv_pool s))"
    by (intro dial_attempt_ok) (simp add: socket_inv_def add_ac)
  then show ?case
    using opened by (auto simp: socket_inv_def attempt_ok_def)
next
  case (refused s xs i lease ex refused ys env e p)
  then have "attempt_ok lease ex (sv_others s + conn_leases (xs @ ys)) (dial_attempt env lease ex (sv_pool s))"
    by (intro dial_attempt_ok) (simp add: socket_inv_def add_ac)
  then show ?case
    using refused slots_ok_release by (auto simp: socket_inv_def attempt_ok_def)
next
  case (again s xs i lease ex refused ys env ex' e p)
  then have "attempt_ok lease ex (sv_others s + conn_leases (xs @ ys)) (dial_attempt env lease ex (sv_pool s))"
    by (intro dial_attempt_ok) (simp add: socket_inv_def add_ac)
  then show ?case
    using again by (auto simp: socket_inv_def attempt_ok_def)
next
  case (track s xs i lease ys s')
  then show ?case
    using relaying_conns [of i xs] relaying_conns [of i ys]
    by (auto simp: socket_inv_def trackWebSocket_def split: if_splits)
next
  case (turned_away s xs i lease ys)
  then show ?case
    using load_inv_release [of "sv_pool s" "le_acct lease"] slots_ok_release by (auto simp: socket_inv_def leave_server_def)
next
  case (relay_end s xs i lease ys)
  then show ?case
    using relaying_conns [of i xs] relaying_conns [of i ys]
    by (auto simp: socket_inv_def untrackWebSocket_def length_without)
next
  case (leave s xs i lease ys)
  then show ?case
    using load_inv_release [of "sv_pool s" "le_acct lease"] slots_ok_release by (auto simp: socket_inv_def leave_server_def)
next
  case (other_pool s p L)
  then show ?case
    using load_inv_step [OF pool_step_more [OF other_pool(1)]] by (auto simp: socket_inv_def)
next
  case (other_slot s sl)
  then show ?case
    using slots_ok_take by (auto simp: socket_inv_def)
next
  case (other_done s)
  then show ?case
    using slots_ok_release [of "sv_slots s" "sv_other_slots s - 1 + conn_slots (sv_conns s)"] by (auto simp: socket_inv_def)
qed (auto simp: socket_inv_def stopWebSockets_def shutdown_result_def abortWebSockets_def)

end

text \<open>A server without connections.\<close>

definition socket_start :: "slots \<Rightarrow> accountPool \<Rightarrow> socket_server" where
  "socket_start sl p = \<lparr>sv_pool = p, sv_others = {#}, sv_slots = sl, sv_other_slots = 0, sv_conns = [], sv_tracked = [],
     sv_told = {}, sv_wg = 0, sv_closing = False, sv_shut = None\<rparr>"

lemma socket_inv_start: "load_inv p {#} \<Longrightarrow> slots_ok sl 0 \<Longrightarrow> socket_inv (socket_start sl p)"
  by (simp add: socket_inv_def socket_start_def)

context socket_sources
begin

lemma socket_inv_reachable:
  assumes "(socket_step acq)\<^sup>*\<^sup>* s s'" "socket_inv s"
  shows "socket_inv s'"
  using assms by (induction rule: rtranclp_induct) (auto dest: socket_inv_step)

end

interpretation pool_sockets: socket_sources "\<lambda>key. pool_acquire path (socket_hints key)"
  by unfold_locales

abbreviation socket_reachable :: "string \<Rightarrow> socket_server \<Rightarrow> socket_server \<Rightarrow> bool" where
  "socket_reachable path \<equiv> (socket_step (\<lambda>key. pool_acquire path (socket_hints key)))\<^sup>*\<^sup>*"

lemma socket_reachable_inv:
  assumes "socket_reachable path (socket_start sl p) s" "load_inv p {#}" "slots_ok sl 0"
  shows "socket_inv s"
  by (rule pool_sockets.socket_inv_reachable [OF assms(1) socket_inv_start [OF assms(2,3)]])

text \<open>C7: Connections hold what they are using and give it back: whatever connections open, fail, relay and
  end, interleaved with all other requests, the load of every account is the leases of the other requests
  and of the connections on it, and the slots taken are theirs, within the limit.\<close>

theorem connections_keep_the_books:
  assumes "socket_reachable path (socket_start sl p) s" "load_inv p {#}" "slots_ok sl 0"
  shows "ac_inflight (po_heap (sv_pool s) a) = int (count (sv_others s) a + count (conn_leases (sv_conns s)) a)
    \<and> (case sv_slots s of None \<Rightarrow> True | Some (cap, used) \<Rightarrow> used = sv_other_slots s + conn_slots (sv_conns s) \<and> used \<le> cap)"
  using socket_invD [OF socket_reachable_inv [OF assms]] by (simp add: load_inv_def slots_ok_def)

text \<open>C31: Shutdown is graceful: once it has begun no connection starts to relay, and every one that still
  relays was told to stop; and it reports that all ended only when none relays any more.\<close>

theorem shutdown_waits_for_connections:
  assumes "socket_reachable path (socket_start sl p) s" "load_inv p {#}" "slots_ok sl 0" "sv_closing s"
  shows "set (relaying (sv_conns s)) \<subseteq> sv_told s \<and> sv_wg s = length (relaying (sv_conns s))
    \<and> (sv_shut s = Some True \<longrightarrow> relaying (sv_conns s) = [])
    \<and> (socket_step (\<lambda>key. pool_acquire path (socket_hints key)) s s' \<longrightarrow> set (relaying (sv_conns s')) \<subseteq> set (relaying (sv_conns s)))"
proof (intro conjI impI)
  have inv: "socket_inv s"
    by (rule socket_reachable_inv [OF assms(1-3)])
  have d: "distinct (relaying (sv_conns s))"
    using inv by (auto simp: socket_inv_def relaying_def distinct_map_filter)
  show "set (relaying (sv_conns s)) \<subseteq> sv_told s" "sv_shut s = Some True \<Longrightarrow> relaying (sv_conns s) = []"
    using inv assms(4) by (auto simp: socket_inv_def)
  show "sv_wg s = length (relaying (sv_conns s))"
    using inv d by (simp add: socket_inv_def flip: distinct_card)
  show "set (relaying (sv_conns s')) \<subseteq> set (relaying (sv_conns s))" if "socket_step (\<lambda>key. pool_acquire path (socket_hints key)) s s'"
    using that assms(4)
    by (induction rule: socket_step.induct)
      (auto simp: trackWebSocket_def untrackWebSocket_def leave_server_def stopWebSockets_def
        shutdown_result_def abortWebSockets_def)
qed

text \<open>A connection that relays when the shutdown begins.\<close>

lemma socket_more: "socket_reachable path s s' \<Longrightarrow> socket_step (\<lambda>key. pool_acquire path (socket_hints key)) s' s'' \<Longrightarrow> socket_reachable path s s''"
  by (rule rtranclp.rtrancl_into_rtrancl)

definition relaying_server :: "accountLease \<Rightarrow> accountPool \<Rightarrow> socket_server" where
  "relaying_server lease p = (socket_start (Some (1, 1)) p)\<lparr>sv_conns := [(0, Relaying lease)], sv_tracked := [0], sv_wg := 1\<rparr>"

lemma relaying_server_reachable:
  "\<exists>lease p. socket_reachable ''auth.json'' (socket_start (Some (1, 0)) (newAccountPool 0 one_disk)) (relaying_server lease p)"
proof -
  let ?p = "newAccountPool 0 one_disk" and ?acq = "pool_acquire ''auth.json'' (socket_hints [])"
  have "case ?acq (rn_acquire (sample_round 429)) {} ?p of Some (Inr lease, ex, p) \<Rightarrow> True | _ \<Rightarrow> False"
    by code_simp
  then obtain lease ex p where a: "?acq (rn_acquire (sample_round 429)) {} ?p = Some (Inr lease, ex, p)"
    by (auto split: option.splits prod.splits sum.splits)
  let ?s0 = "socket_start (Some (1, 0)) ?p"
  let ?s1 = "?s0\<lparr>sv_conns := [(0, Checked)]\<rparr>"
  let ?s2 = "?s1\<lparr>sv_slots := Some (1, 1), sv_conns := [(0, Dialing {} None)]\<rparr>"
  let ?s3 = "?s2\<lparr>sv_pool := p, sv_conns := [(0, Trying lease ex None)]\<rparr>"
  let ?s4 = "?s3\<lparr>sv_pool := p, sv_conns := [(0, Opened lease)]\<rparr>"
  let ?s5 = "?s4\<lparr>sv_wg := 1, sv_tracked := [0], sv_conns := [(0, Relaying lease)]\<rparr>"
  have gate: "websocket_gate (\<lambda>_. None) True False \<lparr>sr_Upgrade = ''websocket'', sr_Origin = [], sr_Host = []\<rparr> = None"
    by (simp add: websocket_gate_def equal_fold_def)
  have 1: "socket_reachable ''auth.json'' ?s0 ?s1"
    by (rule socket_more [OF rtranclp.rtrancl_refl])
      (use socket_step.check [of "\<lambda>_. None" True ?s0 _ 0] gate in \<open>simp add: socket_start_def\<close>)
  have 2: "socket_reachable ''auth.json'' ?s0 ?s2"
    by (rule socket_more [OF 1]) (use socket_step.slot [of ?s1 "[]" 0 "[]" False "Some (1, 1)"] in \<open>simp add: socket_start_def acquireRequest_def\<close>)
  have 3: "socket_reachable ''auth.json'' ?s0 ?s3"
    by (rule socket_more [OF 2])
      (use socket_step.account [of ?s2 "[]" 0 "{}" None "[]" "\<lambda>key. pool_acquire ''auth.json'' (socket_hints key)" "[]"] a
       in \<open>simp add: socket_start_def\<close>)
  have 4: "socket_reachable ''auth.json'' ?s0 ?s4"
    by (rule socket_more [OF 3])
      (use socket_step.opened [of ?s3 "[]" 0 lease ex None "[]" sample_dial lease p]
       in \<open>simp add: socket_start_def dial_attempt_def dialOnAccount_def sample_dial_def\<close>)
  have 5: "socket_reachable ''auth.json'' ?s0 ?s5"
    by (rule socket_more [OF 4])
      (use socket_step.track [of ?s4 "[]" 0 lease "[]" "?s4\<lparr>sv_wg := 1, sv_tracked := [0]\<rparr>"]
       in \<open>simp add: socket_start_def trackWebSocket_def\<close>)
  have "?s5 = relaying_server lease p"
    by (simp add: relaying_server_def socket_start_def)
  then show ?thesis
    using 5 by metis
qed

theorem connections_keep_the_books_witness:
  "\<exists>lease p. ac_inflight (po_heap p (le_acct lease)) = 1
     \<and> socket_reachable ''auth.json'' (socket_start (Some (1, 0)) (newAccountPool 0 one_disk)) (relaying_server lease p)"
proof -
  obtain lease p where r: "socket_reachable ''auth.json'' (socket_start (Some (1, 0)) (newAccountPool 0 one_disk)) (relaying_server lease p)"
    using relaying_server_reachable by blast
  show ?thesis
    using connections_keep_the_books [OF r load_inv_new, of "le_acct lease"] r
    by (auto simp: slots_ok_def relaying_server_def socket_start_def)
qed

theorem shutdown_waits_for_connections_witness:
  "\<exists>s. socket_reachable ''auth.json'' (socket_start (Some (1, 0)) (newAccountPool 0 one_disk)) s
     \<and> relaying (sv_conns s) = [0] \<and> 0 \<in> sv_told s"
proof -
  obtain lease p where r: "socket_reachable ''auth.json'' (socket_start (Some (1, 0)) (newAccountPool 0 one_disk)) (relaying_server lease p)"
    using relaying_server_reachable by blast
  let ?s = "stopWebSockets (relaying_server lease p)"
  have s: "socket_reachable ''auth.json'' (socket_start (Some (1, 0)) (newAccountPool 0 one_disk)) ?s"
    by (rule socket_more [OF r socket_step.shutdown])
  have "set (relaying (sv_conns ?s)) \<subseteq> sv_told ?s"
    by (rule shutdown_waits_for_connections [OF s load_inv_new, THEN conjunct1])
      (simp_all add: slots_ok_def stopWebSockets_def)
  then show ?thesis
    using s by (intro exI [of _ ?s]) (simp add: stopWebSockets_def relaying_server_def)
qed

end
