(* ===== verification/Auth.thy ===== *)
theory Auth
  imports Accounts Base64
begin

text \<open>
  Credentials (\<open>auth.go\<close>, and the parts of \<open>accounts.go\<close> and \<open>ui.go\<close> that read logins): the cached
  reader of \<open>auth.json\<close> with its token refresh, the claims of a token, the identity of a login and the
  check of a pasted one.

  What the file system, the clock and the token endpoint answer are fields of \<open>auth_env\<close>; \<open>decode\<close> is
  \<open>json.Unmarshal\<close> into a map (\<open>None\<close>: an error; \<open>Some None\<close>: JSON \<open>null\<close>).
\<close>

section \<open>Paths\<close>

text \<open>\<open>filepath.Join\<close>, with \<open>Clean\<close>.\<close>

fun clean_segments :: "bool \<Rightarrow> string list \<Rightarrow> string list \<Rightarrow> string list" where
  "clean_segments rooted acc [] = rev acc"
| "clean_segments rooted acc (p # ps) =
     (if p = [] \<or> p = ''.'' then clean_segments rooted acc ps
      else if p = ''..'' then
        (case acc of
           [] \<Rightarrow> clean_segments rooted (if rooted then [] else [''..'']) ps
         | a # as \<Rightarrow> clean_segments rooted (if a = ''..'' then ''..'' # acc else as) ps)
      else clean_segments rooted (p # acc) ps)"

definition clean_path :: "string \<Rightarrow> string" where
  "clean_path path = (let
     rooted = has_prefix ''/'' path;
     body = join ''/'' (clean_segments rooted [] (split_on (CHR ''/'') path))
     in if rooted then ''/'' @ body else if body = [] then ''.'' else body)"

definition join_paths :: "string list \<Rightarrow> string" where
  "join_paths parts = (let ps = filter (\<lambda>p. p \<noteq> []) parts in if ps = [] then [] else clean_path (join ''/'' ps))"

definition expandHome :: "string option \<Rightarrow> string \<Rightarrow> string" where
  "expandHome home path =
     (if path = ''~'' \<or> has_prefix ''~/'' path
      then (case home of Some h \<Rightarrow> join_paths [h, trim_prefix ''~/'' path] | None \<Rightarrow> path)
      else path)"

section \<open>Tokens\<close>

text \<open>The three-part form of a token; only the second part is read.\<close>

definition jwtPayload :: "(string \<Rightarrow> gomap option) \<Rightarrow> string \<Rightarrow> gomap" where
  "jwtPayload decode tok = (case split_on (CHR ''.'') tok of
       a # b # rest \<Rightarrow> (case base64url_decode b of
           None \<Rightarrow> None
         | Some data \<Rightarrow> (case decode data of None \<Rightarrow> None | Some m \<Rightarrow> m))
     | _ \<Rightarrow> None)"

definition jwtNumber :: "(string \<Rightarrow> gomap option) \<Rightarrow> string \<Rightarrow> string \<Rightarrow> rat option" where
  "jwtNumber decode tok key = (case mget (jwtPayload decode tok) key of JFloat x \<Rightarrow> Some x | _ \<Rightarrow> None)"

text \<open>A token is fresh until 30 seconds before it expires; the subtraction is one of \<open>float64\<close>.\<close>

definition float_minus :: "rat \<Rightarrow> rat \<Rightarrow> rat" where
  "float_minus x y = (case fl64 (x - y) of Some z \<Rightarrow> z | None \<Rightarrow> x - y)"

definition tokenFresh :: "int \<Rightarrow> rat option \<Rightarrow> bool" where
  "tokenFresh now expiry = (case expiry of None \<Rightarrow> True | Some e \<Rightarrow> int_to_float now < float_minus e 30)"

definition auth_claim :: string where
  "auth_claim = ''https://api.openai.com/auth''"

definition payload_account :: "gomap \<Rightarrow> string" where
  "payload_account p = (let v = stringValue (mget p ''chatgpt_account_id'') in
     if v \<noteq> [] then v
     else stringValue (mget (mapAny (mget p auth_claim)) ''chatgpt_account_id''))"

fun first_nonempty :: "string list \<Rightarrow> string" where
  "first_nonempty [] = []"
| "first_nonempty (s # ss) = (if s \<noteq> [] then s else first_nonempty ss)"

definition accountID :: "(string \<Rightarrow> gomap option) \<Rightarrow> gomap \<Rightarrow> string" where
  "accountID decode tokens = (let v = stringValue (mget tokens ''account_id'') in
     if v \<noteq> [] then v
     else first_nonempty (map (\<lambda>key. payload_account (jwtPayload decode (stringValue (mget tokens key)))) [''id_token'', ''access_token'']))"

section \<open>Borrowing credentials\<close>

record auth_env =
  au_stat :: "bool \<times> string + int \<times> int"   \<comment> \<open>the error (is it \<open>ErrNotExist\<close>, its text), or time and size\<close>
  au_read :: "string + gomap option"        \<comment> \<open>the error's text, or the decoded file\<close>
  au_refresh :: "string \<Rightarrow> string + int \<times> gomap option"  \<comment> \<open>the transport's error, or status and decoded body\<close>
  au_write :: "string option"
  au_rename :: "string option"
  au_stat_after :: "string + int \<times> int"
  au_now_cache :: int
  au_now :: int

record authCacheEntry =
  ca_ModTime :: int
  ca_Size :: int
  ca_Cred :: credentials
  ca_Exp :: "rat option"

record authProvider =
  ap_path :: string
  ap_cache :: "authCacheEntry option"

definition invalidate :: "authProvider \<Rightarrow> authProvider" where
  "invalidate a = a\<lparr>ap_cache := None\<rparr>"

definition login_again :: string where
  "login_again = ''; run `codex login` again''"

definition unreadable :: "string \<Rightarrow> go_error" where
  "unreadable m = AuthFailure ''auth_file_unreadable'' m"

definition authFileStatFailure :: "string \<Rightarrow> bool \<times> string \<Rightarrow> go_error" where
  "authFileStatFailure path err = (if fst err then authFileNotFound path
     else unreadable (''inspect Codex auth file at '' @ path @ '': '' @ redactSensitive (snd err)))"

definition refreshFailure :: "string \<Rightarrow> go_error" where
  "refreshFailure m = AuthFailure ''token_refresh_failed'' m"

definition refresh :: "auth_env \<Rightarrow> string \<Rightarrow> go_error + gomap" where
  "refresh env tok = (case au_refresh env tok of
       Inl err \<Rightarrow> Inl (refreshFailure (''token refresh failed: '' @ redactSensitive err))
     | Inr (status, body) \<Rightarrow>
         if status div 100 \<noteq> 2
         then Inl (refreshFailure (''token refresh failed (HTTP '' @ itoa status @ '')'' @ login_again))
         else (case body of
             None \<Rightarrow> Inl (refreshFailure (''invalid token refresh response'' @ login_again))
           | Some m \<Rightarrow> Inr m))"

definition write_failure :: "string \<Rightarrow> string \<Rightarrow> string \<Rightarrow> go_error" where
  "write_failure verb path err =
     AuthFailure ''auth_file_write_failed'' (verb @ '' refreshed Codex auth JSON at '' @ path @ '': '' @ redactSensitive err)"

definition merge_token :: "gomap \<Rightarrow> string \<Rightarrow> obj \<Rightarrow> obj" where
  "merge_token new key tokens = (if mget new key \<noteq> JNull then oset key (mget new key) tokens else tokens)"

definition merge_tokens :: "gomap \<Rightarrow> obj \<Rightarrow> obj" where
  "merge_tokens new tokens = fold (merge_token new) [''access_token'', ''refresh_token'', ''id_token''] tokens"

text \<open>What \<open>borrow\<close> finds in the file: the whole document and its tokens.\<close>

definition read_login :: "string \<Rightarrow> auth_env \<Rightarrow> go_error + obj \<times> obj" where
  "read_login path env = (case au_read env of
       Inl err \<Rightarrow> Inl (unreadable (''read Codex auth JSON at '' @ path @ '': '' @ redactSensitive err))
     | Inr None \<Rightarrow> Inl (AuthFailure ''invalid_auth_json'' (''invalid Codex auth JSON at '' @ path @ login_again))
     | Inr (Some doc) \<Rightarrow>
         if mget doc ''auth_mode'' \<noteq> JStr ''chatgpt''
         then Inl (AuthFailure ''unsupported_auth_mode''
           (''expected Codex auth_mode '' @ [CHR 0x27] @ ''chatgpt'' @ [CHR 0x27] @ login_again))
         else (case mapAny (mget doc ''tokens'') of
             None \<Rightarrow> Inl (AuthFailure ''missing_access_token'' (''no ChatGPT tokens found'' @ login_again))
           | Some tokens \<Rightarrow>
               if stringValue (oget tokens ''access_token'') = []
               then Inl (AuthFailure ''missing_access_token'' (''no ChatGPT tokens found'' @ login_again))
               else Inr (case doc of Some d \<Rightarrow> d | None \<Rightarrow> [], tokens)))"

text \<open>The refresh of an expired token: a failure, or the document to write and its tokens.\<close>

definition refresh_login :: "auth_env \<Rightarrow> obj \<Rightarrow> obj \<Rightarrow> go_error + obj \<times> obj" where
  "refresh_login env doc tokens = (let rt = stringValue (oget tokens ''refresh_token'') in
     if rt = [] then Inl (AuthFailure ''expired_without_refresh_token''
       (''access token expired and no refresh token is available'' @ login_again))
     else (case refresh env rt of
         Inl e \<Rightarrow> Inl e
       | Inr new \<Rightarrow>
           if stringValue (mget new ''access_token'') = []
           then Inl (refreshFailure (''invalid token refresh response: missing access token'' @ login_again))
           else (let tokens = merge_tokens new tokens in Inr (oset ''tokens'' (JObj tokens) doc, tokens))))"

text \<open>Writing it: a temporary file renamed over the old one, which a failed write leaves as it was.  The
  second component is the file's new content, if it has one.\<close>

definition store_login :: "string \<Rightarrow> auth_env \<Rightarrow> obj \<Rightarrow> (go_error + int \<times> int) \<times> obj option" where
  "store_login path env doc = (case au_write env of
       Some e \<Rightarrow> (Inl (write_failure ''write'' path e), None)
     | None \<Rightarrow> (case au_rename env of
         Some e \<Rightarrow> (Inl (write_failure ''replace'' path e), None)
       | None \<Rightarrow> (case au_stat_after env of
           Inl e \<Rightarrow> (Inl (write_failure ''inspect'' path e), Some doc)
         | Inr st \<Rightarrow> (Inr st, Some doc))))"

text \<open>The credentials of tokens, and the cache entry made with them.\<close>

definition keep_login ::
  "(string \<Rightarrow> gomap option) \<Rightarrow> int \<times> int \<Rightarrow> obj \<Rightarrow> authProvider \<Rightarrow> (go_error + credentials) \<times> authProvider" where
  "keep_login decode st tokens a = (let
     access = stringValue (oget tokens ''access_token'');
     cred = \<lparr>cr_AccessToken = access, cr_AccountID = accountID decode (Some tokens)\<rparr>
     in (Inr cred, a\<lparr>ap_cache := Some \<lparr>ca_ModTime = fst st, ca_Size = snd st, ca_Cred = cred,
           ca_Exp = jwtNumber decode access ''exp''\<rparr>\<rparr>))"

definition cached_login :: "int \<Rightarrow> int \<times> int \<Rightarrow> authProvider \<Rightarrow> credentials option" where
  "cached_login now st a = (case ap_cache a of
       Some c \<Rightarrow> if ca_Size c = snd st \<and> ca_ModTime c = fst st \<and> tokenFresh now (ca_Exp c) then Some (ca_Cred c) else None
     | None \<Rightarrow> None)"

definition borrow ::
  "(string \<Rightarrow> gomap option) \<Rightarrow> string option \<Rightarrow> auth_env \<Rightarrow> authProvider
    \<Rightarrow> (go_error + credentials) \<times> authProvider \<times> obj option" where
  "borrow decode home env a = (let path = expandHome home (ap_path a) in
     case au_stat env of
       Inl err \<Rightarrow> (Inl (authFileStatFailure path err), a, None)
     | Inr st \<Rightarrow> (case cached_login (au_now_cache env) st a of
         Some cred \<Rightarrow> (Inr cred, a, None)
       | None \<Rightarrow> (case read_login path env of
           Inl e \<Rightarrow> (Inl e, a, None)
         | Inr (doc, tokens) \<Rightarrow>
             if tokenFresh (au_now env) (jwtNumber decode (stringValue (oget tokens ''access_token'')) ''exp'')
             then (case keep_login decode st tokens a of (r, a) \<Rightarrow> (r, a, None))
             else (case refresh_login env doc tokens of
                 Inl e \<Rightarrow> (Inl e, a, None)
               | Inr (doc, tokens) \<Rightarrow> (case store_login path env doc of
                   (Inl e, written) \<Rightarrow> (Inl e, a, written)
                 | (Inr st, written) \<Rightarrow> (case keep_login decode st tokens a of (r, a) \<Rightarrow> (r, a, written)))))))"

definition reload ::
  "(string \<Rightarrow> gomap option) \<Rightarrow> string option \<Rightarrow> auth_env \<Rightarrow> authProvider
    \<Rightarrow> (go_error + credentials) \<times> authProvider \<times> obj option" where
  "reload decode home env a = borrow decode home env (invalidate a)"

definition authFailureCode :: "go_error \<Rightarrow> string" where
  "authFailureCode e = (case e of AuthFailure code m \<Rightarrow> code | _ \<Rightarrow> ''authentication_failed'')"

definition preflightAuthError :: "go_error \<Rightarrow> string" where
  "preflightAuthError e = ''Codex authentication preflight failed code='' @ authFailureCode e @ '': '' @ redactSensitive (error_text e)"

section \<open>Logins\<close>

text \<open>The content of a login file, as \<open>decode\<close> reads it.\<close>

definition payload_user :: "gomap \<Rightarrow> string" where
  "payload_user p = (let nested = mapAny (mget p auth_claim) in
     first_nonempty [stringValue (mget nested ''chatgpt_user_id''), stringValue (mget nested ''user_id''),
       stringValue (mget p ''sub'')])"

definition authIdentity :: "(string \<Rightarrow> gomap option) \<Rightarrow> string \<Rightarrow> string" where
  "authIdentity decode content = (case decode content of
       None \<Rightarrow> []
     | Some doc \<Rightarrow> (case mapAny (mget doc ''tokens'') of
         None \<Rightarrow> []
       | Some tokens \<Rightarrow> (let
           user = first_nonempty (map (\<lambda>key. payload_user (jwtPayload decode (stringValue (oget tokens key))))
             [''id_token'', ''access_token'']);
           account = accountID decode (Some tokens)
           in if user = [] \<and> account = [] then [] else user @ ''|'' @ account)))"

text \<open>\<open>files\<close> reads the login of an account (\<open>None\<close>: it cannot be read).\<close>

definition findIdentity ::
  "(string \<Rightarrow> gomap option) \<Rightarrow> (string \<Rightarrow> string option) \<Rightarrow> string \<Rightarrow> string \<Rightarrow> accountPool \<Rightarrow> string option" where
  "findIdentity decode files content skip p = (let identity = authIdentity decode content in
     if identity = [] then None
     else List.find (\<lambda>i. i \<noteq> skip \<and> (case files i of Some data \<Rightarrow> authIdentity decode data = identity | None \<Rightarrow> False))
       (orderedIds p))"

definition claim_if :: "string \<Rightarrow> string \<Rightarrow> obj \<Rightarrow> obj" where
  "claim_if k v claims = (if v \<noteq> [] \<and> oget claims k = JNull then oset k (JStr v) claims else claims)"

definition token_claims :: "gomap \<Rightarrow> obj \<Rightarrow> obj" where
  "token_claims payload claims = claim_if ''plan'' (stringValue (mget (mapAny (mget payload auth_claim)) ''chatgpt_plan_type''))
     (claim_if ''email'' (stringValue (mget payload ''email'')) claims)"

definition loginClaims :: "(string \<Rightarrow> gomap option) \<Rightarrow> string \<Rightarrow> obj" where
  "loginClaims decode content = (case decode content of
       None \<Rightarrow> []
     | Some doc \<Rightarrow> (let tokens = mapAny (mget doc ''tokens'') in
         fold (\<lambda>key. token_claims (jwtPayload decode (stringValue (mget tokens key)))) [''id_token'', ''access_token''] []))"

text \<open>\<open>validateAuthJSON\<close>: the error, if the content is refused; \<open>decode_error\<close> is the decoder's text.\<close>

definition string_of :: "json \<Rightarrow> string" where
  "string_of v = (case v of JStr s \<Rightarrow> s | _ \<Rightarrow> [])"

definition validateAuthJSON :: "(string \<Rightarrow> gomap option) \<Rightarrow> (string \<Rightarrow> string) \<Rightarrow> (string \<Rightarrow> string) \<Rightarrow> string \<Rightarrow> string option" where
  "validateAuthJSON decode decode_error quote content =
     (if trim_space content = [] then Some ''Paste the contents of auth.json.''
      else case decode content of
        None \<Rightarrow> Some (''That is not valid JSON: '' @ decode_error content)
      | Some doc \<Rightarrow> (let mode = string_of (mget doc ''auth_mode'') in
          if mode \<noteq> ''chatgpt''
          then Some (''Expected auth_mode \"chatgpt\", got '' @ quote mode @ ''. Use a ChatGPT login, not an API key.'')
          else (case mapAny (mget doc ''tokens'') of
              None \<Rightarrow> Some ''Missing the \"tokens\" object.''
            | Some tokens \<Rightarrow>
                if string_of (oget tokens ''access_token'') = [] then Some ''Missing tokens.access_token.''
                else if string_of (oget tokens ''refresh_token'') = []
                then Some (''Missing tokens.refresh_token '' @ [CHR 0xE2, CHR 0x80, CHR 0x94]
                  @ '' without it the login expires within the hour and cannot renew.'')
                else None)))"

section \<open>Laws\<close>

subsection \<open>What a borrowed credential is\<close>

text \<open>A document holds a token.\<close>

definition holds_token :: "(string \<Rightarrow> gomap option) \<Rightarrow> obj \<Rightarrow> credentials \<Rightarrow> bool" where
  "holds_token decode doc cred \<longleftrightarrow> (\<exists>tokens. mapAny (oget doc ''tokens'') = Some tokens
     \<and> stringValue (oget tokens ''access_token'') = cr_AccessToken cred
     \<and> accountID decode (Some tokens) = cr_AccountID cred)"

text \<open>What a refresh leaves of a document: everything but the tokens it brought.\<close>

definition refreshed_from :: "gomap \<Rightarrow> obj \<Rightarrow> obj \<Rightarrow> bool" where
  "refreshed_from new doc doc' \<longleftrightarrow> (\<forall>key. key \<noteq> ''tokens'' \<longrightarrow> oget doc' key = oget doc key)
     \<and> (\<exists>tokens tokens'. mapAny (oget doc ''tokens'') = Some tokens \<and> mapAny (oget doc' ''tokens'') = Some tokens'
          \<and> (\<forall>key. oget tokens' key = (if key \<in> {''access_token'', ''refresh_token'', ''id_token''} \<and> mget new key \<noteq> JNull
                then mget new key else oget tokens key)))"

lemma oget_merge_tokens: "oget (merge_tokens new tokens) key =
    (if key \<in> {''access_token'', ''refresh_token'', ''id_token''} \<and> mget new key \<noteq> JNull then mget new key else oget tokens key)"
  by (auto simp: merge_tokens_def merge_token_def)

lemma read_login_Inr:
  assumes "read_login path env = Inr (doc, tokens)"
  shows "au_read env = Inr (Some (Some doc)) \<and> oget doc ''auth_mode'' = JStr ''chatgpt'' \<and> oget doc ''tokens'' = JObj tokens
    \<and> stringValue (oget tokens ''access_token'') \<noteq> []"
proof -
  obtain d where d: "au_read env = Inr (Some d)" "mget d ''auth_mode'' = JStr ''chatgpt''" "mapAny (mget d ''tokens'') = Some tokens"
    "stringValue (oget tokens ''access_token'') \<noteq> []" "doc = (case d of Some d \<Rightarrow> d | None \<Rightarrow> [])"
    using assms by (auto simp: read_login_def split: sum.splits option.splits if_splits)
  moreover have "mapAny v = Some m \<longleftrightarrow> v = JObj m" for v m
    by (cases v) auto
  ultimately show ?thesis
    by (cases d) auto
qed

lemma refresh_login_Inr:
  assumes "refresh_login env doc tokens = Inr (doc', tokens')" "oget doc ''tokens'' = JObj tokens"
  shows "\<exists>new. refresh env (stringValue (oget tokens ''refresh_token'')) = Inr new \<and> refreshed_from new doc doc'
    \<and> oget doc' ''tokens'' = JObj tokens' \<and> stringValue (oget tokens' ''access_token'') = stringValue (mget new ''access_token'')
    \<and> stringValue (mget new ''access_token'') \<noteq> []"
proof -
  obtain new where new: "refresh env (stringValue (oget tokens ''refresh_token'')) = Inr new"
    "stringValue (mget new ''access_token'') \<noteq> []" "tokens' = merge_tokens new tokens" "doc' = oset ''tokens'' (JObj tokens') doc"
    using assms(1) by (auto simp: refresh_login_def Let_def split: if_splits sum.splits)
  then show ?thesis
    using assms(2) by (auto simp: refreshed_from_def oget_merge_tokens)
qed

text \<open>The four ways \<open>borrow\<close> ends.\<close>

lemma borrow_cases:
  obtains (failed) e w where "borrow decode home env a = (Inl e, a, w)"
  | (cached) st cred where "au_stat env = Inr st" "cached_login (au_now_cache env) st a = Some cred"
      "borrow decode home env a = (Inr cred, a, None)"
  | (fresh) st doc tokens where "au_stat env = Inr st" "read_login (expandHome home (ap_path a)) env = Inr (doc, tokens)"
      "tokenFresh (au_now env) (jwtNumber decode (stringValue (oget tokens ''access_token'')) ''exp'')"
      "borrow decode home env a = (fst (keep_login decode st tokens a), snd (keep_login decode st tokens a), None)"
  | (refreshed) st doc tokens new doc' tokens' st' where "au_stat env = Inr st"
      "read_login (expandHome home (ap_path a)) env = Inr (doc, tokens)"
      "refresh env (stringValue (oget tokens ''refresh_token'')) = Inr new" "refreshed_from new doc doc'"
      "oget doc' ''tokens'' = JObj tokens'" "stringValue (oget tokens' ''access_token'') = stringValue (mget new ''access_token'')"
      "stringValue (mget new ''access_token'') \<noteq> []" "au_stat_after env = Inr st'"
      "borrow decode home env a = (fst (keep_login decode st' tokens' a), snd (keep_login decode st' tokens' a), Some doc')"
proof (cases "au_stat env")
  case (Inl e)
  then show ?thesis
    using failed by (simp add: borrow_def)
next
  case (Inr st)
  note st = Inr
  let ?path = "expandHome home (ap_path a)"
  show ?thesis
  proof (cases "cached_login (au_now_cache env) st a")
    case (Some cred)
    then show ?thesis
      using cached st by (simp add: borrow_def)
  next
    case None
    show ?thesis
    proof (cases "read_login ?path env")
      case (Inl e)
      then show ?thesis
        using failed st None by (simp add: borrow_def)
    next
      case (Inr dt)
      obtain doc tokens where read: "read_login ?path env = Inr (doc, tokens)"
        using Inr by (cases dt) simp
      show ?thesis
      proof (cases "tokenFresh (au_now env) (jwtNumber decode (stringValue (oget tokens ''access_token'')) ''exp'')")
        case True
        then show ?thesis
          using fresh st None read by (simp add: borrow_def split: prod.splits)
      next
        case False
        then have b: "borrow decode home env a = (case refresh_login env doc tokens of
            Inl e \<Rightarrow> (Inl e, a, None)
          | Inr (doc, tokens) \<Rightarrow> (case store_login ?path env doc of
              (Inl e, written) \<Rightarrow> (Inl e, a, written)
            | (Inr st, written) \<Rightarrow> (case keep_login decode st tokens a of (r, a) \<Rightarrow> (r, a, written))))"
          using st None read by (simp add: borrow_def)
        show ?thesis
        proof (cases "refresh_login env doc tokens")
          case (Inl e)
          then show ?thesis
            using failed b by simp
        next
          case (Inr dt')
          then obtain doc' tokens' where ref: "refresh_login env doc tokens = Inr (doc', tokens')"
            by (cases dt') simp
          obtain r w where sl: "store_login ?path env doc' = (r, w)"
            by (cases "store_login ?path env doc'")
          show ?thesis
          proof (cases r)
            case (Inl e)
            then show ?thesis
              using failed b ref sl by simp
          next
            case (Inr st')
            then have "w = Some doc'" "au_stat_after env = Inr st'"
              using sl by (auto simp: store_login_def split: option.splits sum.splits)
            then show ?thesis
              using refreshed [OF st read] refresh_login_Inr [OF ref] read_login_Inr [OF read] b ref sl Inr
              by (fastforce split: prod.splits)
          qed
        qed
      qed
    qed
  qed
qed


definition sample_login :: obj where
  "sample_login = [(''auth_mode'', JStr ''chatgpt''),
     (''tokens'', JObj [(''access_token'', JStr ''t''), (''refresh_token'', JStr ''r''), (''account_id'', JStr ''acc'')])]"

definition sample_auth_env :: auth_env where
  "sample_auth_env = \<lparr>au_stat = Inr (7, 100), au_read = Inr (Some (Some sample_login)),
     au_refresh = (\<lambda>_. Inl ''down''), au_write = None, au_rename = None, au_stat_after = Inr (8, 101), au_now_cache = 0, au_now = 0\<rparr>"

definition sample_provider :: authProvider where
  "sample_provider = \<lparr>ap_path = ''/c/auth.json'', ap_cache = None\<rparr>"


subsection \<open>The cache is transparent\<close>

text \<open>\<open>login st\<close> is the document the file holds when its time and size are \<open>st\<close>: that these identify the
  content is what the cache relies on.\<close>

definition good_login :: "obj \<Rightarrow> bool" where
  "good_login doc \<longleftrightarrow> oget doc ''auth_mode'' = JStr ''chatgpt''
     \<and> (\<exists>tokens. oget doc ''tokens'' = JObj tokens \<and> stringValue (oget tokens ''access_token'') \<noteq> [])"

definition cache_matches :: "(string \<Rightarrow> gomap option) \<Rightarrow> (int \<times> int \<Rightarrow> obj) \<Rightarrow> authProvider \<Rightarrow> bool" where
  "cache_matches decode login a \<longleftrightarrow> (\<forall>c. ap_cache a = Some c \<longrightarrow>
     good_login (login (ca_ModTime c, ca_Size c)) \<and> holds_token decode (login (ca_ModTime c, ca_Size c)) (ca_Cred c)
     \<and> ca_Exp c = jwtNumber decode (cr_AccessToken (ca_Cred c)) ''exp'')"

lemma read_good:
  assumes "good_login doc" "au_read env = Inr (Some (Some doc))"
  obtains tokens where "read_login path env = Inr (doc, tokens)" "oget doc ''tokens'' = JObj tokens"
  using assms by (auto simp: good_login_def read_login_def)

lemma keep_matches:
  assumes "oget (login st) ''tokens'' = JObj tokens" "good_login (login st)"
  shows "cache_matches decode login (snd (keep_login decode st tokens a))"
  using assms by (auto simp: cache_matches_def keep_login_def holds_token_def Let_def)



subsection \<open>Paths\<close>

text \<open>The home directory itself is not abbreviated: the tilde stays in the path.\<close>

lemma expandHome_tilde: "expandHome (Some ''/h'') ''~'' = ''/h/~''" "expandHome (Some ''/h'') ''~/x/../y'' = ''/h/y''"
  by code_simp+

subsection \<open>Pasted logins\<close>

text \<open>A login that passes the check of the console is one the reader accepts: reading it fails, if at
  all, because the refresh of an expired token or the writing of the refreshed file fails.\<close>

theorem pasted_login_is_readable:
  assumes "validateAuthJSON decode decode_error quote content = None"
    and "au_stat env = Inr st" "au_read env = Inr (decode content)"
    and "fst (borrow decode home env a) = Inl e"
  shows "authFailureCode e \<in> {''token_refresh_failed'', ''auth_file_write_failed''}"
proof -
  obtain doc tokens where v: "decode content = Some doc" "string_of (mget doc ''auth_mode'') = ''chatgpt''"
    "mapAny (mget doc ''tokens'') = Some tokens" "string_of (oget tokens ''access_token'') \<noteq> []" "string_of (oget tokens ''refresh_token'') \<noteq> []"
    using assms(1) by (auto simp: validateAuthJSON_def Let_def split: if_splits option.splits)
  have str: "string_of x \<noteq> [] \<Longrightarrow> x = JStr (string_of x)" for x
    by (cases x) (simp_all add: string_of_def)
  have mode: "mget doc ''auth_mode'' = JStr ''chatgpt''"
    using str [of "mget doc ''auth_mode''"] v(2) by simp
  have tok: "stringValue (oget tokens ''access_token'') \<noteq> []" "stringValue (oget tokens ''refresh_token'') \<noteq> []"
    using str [OF v(4)] str [OF v(5)] v(4,5) by (metis stringValue_JStr)+
  obtain d where read: "read_login path env = Inr (d, tokens)" for path
    using mode v(1,3) tok(1) assms(3) by (simp add: read_login_def)
  have refreshing: "authFailureCode x = ''token_refresh_failed''" if "refresh_login env d tokens = Inl x" for x
    using that tok(2)
    by (auto simp: refresh_login_def refresh_def refreshFailure_def authFailureCode_def Let_def split: sum.splits if_splits option.splits)
  have storing: "authFailureCode x = ''auth_file_write_failed''" if "store_login path env doc' = (Inl x, w)" for path doc' x w
    using that by (auto simp: store_login_def write_failure_def authFailureCode_def split: option.splits sum.splits)
  show ?thesis
    using assms(2,4) read refreshing storing
    by (auto simp: borrow_def keep_login_def Let_def split: option.splits if_splits sum.splits prod.splits)
qed

theorem pasted_login_is_readable_witness:
  "authFailureCode (refreshFailure (''token refresh failed: '' @ redactSensitive ''down'')) \<in> {''token_refresh_failed'', ''auth_file_write_failed''}"
proof -
  let ?doc = "[(''auth_mode'', JStr ''chatgpt''), (''tokens'', JObj [(''access_token'', JStr ''a.AA.c''), (''refresh_token'', JStr ''r'')])]"
  let ?decode = "\<lambda>s. if s = ''x'' then Some (Some ?doc) else Some (Some [(''exp'', JFloat 5)])"
  let ?env = "sample_auth_env\<lparr>au_read := Inr (?decode ''x''), au_now := 100\<rparr>"
  have v: "validateAuthJSON ?decode (\<lambda>_. []) (\<lambda>s. s) ''x'' = None"
    by code_simp
  have "split_on (CHR ''.'') ''a.AA.c'' = [''a'', ''AA'', ''c'']" "base64url_decode ''AA'' \<noteq> None" "base64url_decode ''AA'' \<noteq> Some ''x''"
    by code_simp+
  then have "jwtNumber ?decode ''a.AA.c'' ''exp'' = Some 5"
    by (auto simp: jwtNumber_def jwtPayload_def)
  then have stale: "\<not> tokenFresh 100 (jwtNumber ?decode ''a.AA.c'' ''exp'')"
    using fl64_pos_of_int [of 25] int_to_float_exact [of 100] by (simp add: tokenFresh_def float_minus_def fl64_def)
  have "fst (borrow ?decode None ?env sample_provider) = Inl (refreshFailure (''token refresh failed: '' @ redactSensitive ''down''))"
    using stale by (simp add: borrow_def sample_auth_env_def sample_provider_def cached_login_def read_login_def refresh_login_def
        refresh_def Let_def)
  then show ?thesis
    using pasted_login_is_readable [OF v, of ?env "(7, 100)" None sample_provider]
    by (simp add: sample_auth_env_def)
qed

end
