(* ===== verification/Console.thy ===== *)
theory Console
  imports Server Auth
begin

text \<open>
  The operator console (\<open>ui.go\<close>): its sessions and the guard in front of its operations, the adoption of
  logins, the account operations, and the single device sign-in that drives the Codex CLI.

  Random tokens, clocks, decoded bodies and what the files and the CLI do are arguments.
\<close>

section \<open>Sessions\<close>

definition uiSessionTTL :: int where
  "uiSessionTTL = 12 * 3600 * second_ns"

type_synonym uiSessions = "(string \<times> int) list"

definition issue_session :: "string \<Rightarrow> int \<Rightarrow> uiSessions \<Rightarrow> uiSessions" where
  "issue_session tok now s = AList.update tok (now + uiSessionTTL) (filter (\<lambda>(t, expiry). \<not> expiry < now) s)"

definition revoke_session :: "string \<Rightarrow> uiSessions \<Rightarrow> uiSessions" where
  "revoke_session tok s = AList.delete tok s"

definition valid_session :: "string \<Rightarrow> int \<Rightarrow> uiSessions \<Rightarrow> bool \<times> uiSessions" where
  "valid_session tok now s =
     (if tok = [] then (False, s)
      else case map_of s tok of
        None \<Rightarrow> (False, s)
      | Some expiry \<Rightarrow> if expiry < now then (False, AList.delete tok s) else (True, s))"

section \<open>Routes\<close>

datatype ui_action = UiStatus | UiSignInStart | UiSignInCancel | UiPasteAuth | UiSetEnabled bool | UiRemoveAccount

datatype ui_route = UiPage | UiLogin | UiLogout | UiGuarded ui_action | UiNotFound

definition ui_path :: "string \<Rightarrow> string" where
  "ui_path path = trim_prefix ''/'' (trim_prefix ''/ui'' path)"

definition ui_route :: "string \<Rightarrow> string \<Rightarrow> ui_route" where
  "ui_route verb path =
     (if path = [] \<and> verb = ''GET'' then UiPage
      else if path = ''api/login'' \<and> verb = ''POST'' then UiLogin
      else if path = ''api/logout'' \<and> verb = ''POST'' then UiLogout
      else if path = ''api/status'' \<and> verb = ''GET'' then UiGuarded UiStatus
      else if path = ''api/signin/start'' \<and> verb = ''POST'' then UiGuarded UiSignInStart
      else if path = ''api/signin/cancel'' \<and> verb = ''POST'' then UiGuarded UiSignInCancel
      else if path = ''api/auth/paste'' \<and> verb = ''POST'' then UiGuarded UiPasteAuth
      else if path = ''api/accounts/enable'' \<and> verb = ''POST'' then UiGuarded (UiSetEnabled True)
      else if path = ''api/accounts/disable'' \<and> verb = ''POST'' then UiGuarded (UiSetEnabled False)
      else if path = ''api/accounts/remove'' \<and> verb = ''POST'' then UiGuarded UiRemoveAccount
      else UiNotFound)"

text \<open>What a request to the console brings: the cookie, the decoded key of a login body (\<open>None\<close>: it is
  malformed), and a fresh token (\<open>None\<close>: no randomness).\<close>

record ui_request =
  ur_verb :: string
  ur_path :: string
  ur_cookie :: "string option"
  ur_key :: "string option"
  ur_token :: "string option"
  ur_now :: int

definition ui_error :: "int \<Rightarrow> string \<Rightarrow> http_response" where
  "ui_error status message = json_response status (JObj [(''error'', JStr message)])"

definition ui_ok :: http_response where
  "ui_ok = json_response 200 (JObj [(''ok'', JBool True)])"

text \<open>What comes of it: an answer, a new session, or the guarded action that goes on.\<close>

datatype ui_outcome = UiAnswer http_response | UiShowPage | UiSession string | UiCleared | UiRun ui_action

definition uiLogin :: "string \<Rightarrow> ui_request \<Rightarrow> uiSessions \<Rightarrow> ui_outcome \<times> uiSessions" where
  "uiLogin APIKey r s = (case ur_key r of
       None \<Rightarrow> (UiAnswer (ui_error 400 ''Malformed request.''), s)
     | Some key \<Rightarrow>
         if trim_space key \<noteq> APIKey then (UiAnswer (ui_error 401 ''Incorrect key.''), s)
         else (case ur_token r of
             None \<Rightarrow> (UiAnswer (ui_error 500 ''Could not start a session.''), s)
           | Some tok \<Rightarrow> (UiSession tok, issue_session tok (ur_now r) s)))"

definition uiAuthorized :: "ui_request \<Rightarrow> uiSessions \<Rightarrow> bool \<times> uiSessions" where
  "uiAuthorized r s = (case ur_cookie r of None \<Rightarrow> (False, s) | Some c \<Rightarrow> valid_session c (ur_now r) s)"

definition console_disabled :: http_response where
  "console_disabled = ui_error 503 (''The console is disabled because no API key is configured. ''
     @ ''Set OPENAI_VIA_CODEX_API_KEY and restart.'')"

definition ui_headers :: "ui_outcome \<Rightarrow> ui_outcome" where
  "ui_headers out = (case out of
       UiAnswer r \<Rightarrow> UiAnswer (r\<lparr>resp_headers := [(''Cache-Control'', ''no-store''), (''X-Content-Type-Options'', ''nosniff''),
         (''X-Frame-Options'', ''DENY'')] @ resp_headers r\<rparr>)
     | _ \<Rightarrow> out)"

definition serveUI :: "string \<Rightarrow> ui_request \<Rightarrow> uiSessions \<Rightarrow> ui_outcome \<times> uiSessions" where
  "serveUI APIKey r s =
     (if APIKey = [] then (UiAnswer console_disabled, s)
      else apfst ui_headers (case ui_route (ur_verb r) (ui_path (ur_path r)) of
        UiPage \<Rightarrow> (UiShowPage, s)
      | UiLogin \<Rightarrow> uiLogin APIKey r s
      | UiLogout \<Rightarrow> (UiCleared, case ur_cookie r of Some c \<Rightarrow> revoke_session c s | None \<Rightarrow> s)
      | UiGuarded action \<Rightarrow> (case uiAuthorized r s of
            (True, s) \<Rightarrow> (UiRun action, s)
          | (False, s) \<Rightarrow> (UiAnswer (ui_error 401 ''Not signed in to the console.''), s))
      | UiNotFound \<Rightarrow> (UiAnswer not_found_page, s)))"

text \<open>A run of requests, with their outcomes, the latest first.\<close>

fun ui_run :: "string \<Rightarrow> ui_request list \<Rightarrow> uiSessions \<times> (ui_request \<times> ui_outcome) list" where
  "ui_run APIKey [] = ([], [])"
| "ui_run APIKey (r # earlier) = (case ui_run APIKey earlier of
     (s, trail) \<Rightarrow> (case serveUI APIKey r s of (out, s) \<Rightarrow> (s, (r, out) # trail)))"

section \<open>Account operations\<close>

text \<open>The body of a request: unreadable, empty (which is \<open>{}\<close>), malformed, or decoded.\<close>

datatype 'a ui_body = BodyError | BodyEmpty | BodyMalformed | BodyValue 'a

definition decodeUIBody :: "'a \<Rightarrow> 'a ui_body \<Rightarrow> http_response + 'a" where
  "decodeUIBody zero b = (case b of
       BodyError \<Rightarrow> Inl (ui_error 400 ''Could not read the request.'')
     | BodyEmpty \<Rightarrow> Inr zero
     | BodyMalformed \<Rightarrow> Inl (ui_error 400 ''Malformed request.'')
     | BodyValue v \<Rightarrow> Inr v)"

definition writeAccountError :: "string \<Rightarrow> http_response" where
  "writeAccountError err = (if err = errUnknownAccount then ui_error 404 err else ui_error 500 err)"

text \<open>\<open>signInTarget\<close>: \<open>stamp\<close> is the generated id (\<open>None\<close>: no randomness, for the reason \<open>rand_error\<close>).\<close>

definition signInTarget ::
  "string \<Rightarrow> string \<Rightarrow> string option \<Rightarrow> int \<Rightarrow> disk \<Rightarrow> accountPool \<Rightarrow> (int \<times> string + string) \<times> accountPool" where
  "signInTarget account rand_error stamp now d p =
     (if account = [] then
        (case newAccountID stamp now d p of
           (Some i, p) \<Rightarrow> (Inr i, p) | (None, p) \<Rightarrow> (Inl (500, rand_error), p))
      else (let p = rescan now d p in
        if account_at p account = None then (Inl (404, errUnknownAccount), p) else (Inr account, p)))"

text \<open>The console's part of the world: the pool and the login files by account; \<open>d\<close> is the disk after a
  file was written, \<open>write_error\<close> the failure of writing it.\<close>

record console_env =
  ce_decode :: "string \<Rightarrow> gomap option"
  ce_decode_error :: "string \<Rightarrow> string"
  ce_quote :: "string \<Rightarrow> string"
  ce_now :: int
  ce_disk :: disk
  ce_stamp :: "string option"
  ce_rand_error :: string
  ce_write_error :: "string option"
  ce_disk_after :: disk

type_synonym login_files = "string \<Rightarrow> string option"

definition adoptLogin ::
  "console_env \<Rightarrow> string \<Rightarrow> bool \<Rightarrow> string \<Rightarrow> accountPool \<Rightarrow> login_files \<Rightarrow> (string \<times> bool) \<times> accountPool \<times> login_files" where
  "adoptLogin env target adding content p files =
     (case validateAuthJSON (ce_decode env) (ce_decode_error env) (ce_quote env) content of
        Some e \<Rightarrow> ((e, True), p, files)
      | None \<Rightarrow> (case findIdentity (ce_decode env) files content target p of
          Some other \<Rightarrow>
            ((if adding then ''That ChatGPT login is already account '' @ other @ '', so nothing was added. Sign that account in again instead.''
              else ''That ChatGPT login belongs to account '' @ other @ '', not '' @ target @ ''; nothing was changed.'', True), p, files)
        | None \<Rightarrow> (case writeAccount target (ce_write_error env) (ce_now env) (ce_disk_after env) p of
            (Some e, p) \<Rightarrow> ((''Could not save the login: '' @ e, True), p, files)
          | (None, p) \<Rightarrow> ((if adding then ''Signed in. Added as account '' @ target @ ''.''
              else ''Signed in. Account '' @ target @ '' updated.'', False), p, files(target \<mapsto> content)))))"

text \<open>The body of a paste: the content and the account.\<close>

definition uiPasteAuth ::
  "console_env \<Rightarrow> (string \<times> string) ui_body \<Rightarrow> accountPool \<Rightarrow> login_files \<Rightarrow> http_response \<times> accountPool \<times> login_files" where
  "uiPasteAuth env body p files = (case decodeUIBody ([], []) body of
       Inl r \<Rightarrow> (r, p, files)
     | Inr (content, account) \<Rightarrow>
         (case validateAuthJSON (ce_decode env) (ce_decode_error env) (ce_quote env) content of
            Some e \<Rightarrow> (ui_error 400 e, p, files)
          | None \<Rightarrow> (case signInTarget account (ce_rand_error env) (ce_stamp env) (ce_now env) (ce_disk env) p of
              (Inl (status, e), p) \<Rightarrow> (ui_error status e, p, files)
            | (Inr target, p) \<Rightarrow> (case adoptLogin env target (account = []) content p files of
                ((message, failed), p, files) \<Rightarrow>
                  (if failed then ui_error 409 message
                   else json_response 200 (JObj [(''ok'', JBool True), (''account'', JStr target), (''message'', JStr message)]),
                   p, files)))))"

definition uiSetEnabled :: "bool \<Rightarrow> console_env \<Rightarrow> string ui_body \<Rightarrow> accountPool \<Rightarrow> http_response \<times> string list option \<times> accountPool" where
  "uiSetEnabled enabled env body p = (case decodeUIBody [] body of
       Inl r \<Rightarrow> (r, None, p)
     | Inr account \<Rightarrow> (case setEnabled account enabled (ce_now env) (ce_disk env) (ce_write_error env) p of
         (Some e, state, p) \<Rightarrow> (writeAccountError e, state, p)
       | (None, state, p) \<Rightarrow> (ui_ok, state, p)))"

definition uiRemoveAccount :: "console_env \<Rightarrow> string ui_body \<Rightarrow> accountPool \<Rightarrow> http_response \<times> string list option \<times> accountPool" where
  "uiRemoveAccount env body p = (case decodeUIBody [] body of
       Inl r \<Rightarrow> (r, None, p)
     | Inr account \<Rightarrow> (case remove_account account (ce_now env) (ce_disk env) (ce_write_error env) (ce_disk_after env) p of
         (Some e, state, p) \<Rightarrow> (writeAccountError e, state, p)
       | (None, state, p) \<Rightarrow> (ui_ok, state, p)))"

text \<open>The accounts ready for requests, of the entries of the status page.\<close>

definition ready_accounts_of :: "obj list \<Rightarrow> nat" where
  "ready_accounts_of entries = length (filter (\<lambda>a. oget a ''signed_in'' = JBool True \<and> oget a ''enabled'' = JBool True
     \<and> oget a ''cooling_until'' = JNull) entries)"

section \<open>The device sign-in\<close>

subsection \<open>Reading the CLI\<close>

text \<open>\<open>ansiPattern\<close>: an escape, a bracket, digits and semicolons, and a letter, removed wherever they
  are.\<close>

definition is_letter :: "char \<Rightarrow> bool" where
  "is_letter c = ((97 \<le> byte c \<and> byte c \<le> 122) \<or> (65 \<le> byte c \<and> byte c \<le> 90))"

definition ansi_rest :: "string \<Rightarrow> string option" where
  "ansi_rest s = (case s of
       e # b # rest \<Rightarrow>
         if e = CHR 0x1B \<and> b = CHR ''['' then
           (case dropWhile (\<lambda>c. is_digit c \<or> c = CHR '';'') rest of
              l # rest \<Rightarrow> if is_letter l then Some rest else None | [] \<Rightarrow> None)
         else None
     | _ \<Rightarrow> None)"

fun strip_ansi :: "nat \<Rightarrow> string \<Rightarrow> string" where
  "strip_ansi 0 s = s"
| "strip_ansi (Suc n) [] = []"
| "strip_ansi (Suc n) (c # cs) = (case ansi_rest (c # cs) of
     Some rest \<Rightarrow> strip_ansi n rest | None \<Rightarrow> c # strip_ansi n cs)"

text \<open>\<open>userCodePattern\<close>: four capitals or digits, a hyphen, and four to six, the most that fit, as a word.\<close>

definition code_char :: "char \<Rightarrow> bool" where
  "code_char c = (is_digit c \<or> (65 \<le> byte c \<and> byte c \<le> 90))"

definition ends_word :: "string \<Rightarrow> bool" where
  "ends_word rest = (case rest of [] \<Rightarrow> True | c # cs \<Rightarrow> \<not> re_word c)"

definition code_at :: "string \<Rightarrow> string option" where
  "code_at s = (if 5 \<le> length s \<and> list_all code_char (take 4 s) \<and> s ! 4 = CHR ''-''
     then map_option (\<lambda>n. take (5 + n) s)
       (List.find (\<lambda>n. 5 + n \<le> length s \<and> list_all code_char (take n (drop 5 s)) \<and> ends_word (drop (5 + n) s)) [6, 5, 4])
     else None)"

fun find_code :: "bool \<Rightarrow> string \<Rightarrow> string option" where
  "find_code in_word [] = None"
| "find_code in_word (c # cs) = (case (if in_word then None else code_at (c # cs)) of
     Some code \<Rightarrow> Some code | None \<Rightarrow> find_code (re_word c) cs)"

fun from_http :: "string \<Rightarrow> string option" where
  "from_http [] = None"
| "from_http (c # cs) = (if has_prefix ''http'' (c # cs) then Some (c # cs) else from_http cs)"

fun first_field :: "string \<Rightarrow> string" where
  "first_field [] = []"
| "first_field (c # cs) = (if List.find (\<lambda>w. has_prefix w (c # cs)) space_seqs \<noteq> None then [] else c # first_field cs)"

subsection \<open>The state\<close>

record deviceLogin =
  dl_running :: bool
  dl_UserCode :: string
  dl_URL :: string
  dl_Message :: string
  dl_Failed :: bool
  dl_Account :: string

definition device_snapshot :: "deviceLogin \<Rightarrow> obj" where
  "device_snapshot d = [(''running'', JBool (dl_running d)), (''user_code'', JStr (dl_UserCode d)), (''url'', JStr (dl_URL d)),
     (''message'', JStr (dl_Message d)), (''failed'', JBool (dl_Failed d)), (''account'', JStr (dl_Account d))]"

definition device_cancel :: "deviceLogin \<Rightarrow> deviceLogin" where
  "device_cancel d = (if dl_running d then d\<lparr>dl_Message := ''Sign-in cancelled.'', dl_Failed := True\<rparr> else d)"

definition ellipsis :: string where
  "ellipsis = [CHR 0xE2, CHR 0x80, CHR 0xA6]"

definition device_started :: "string \<Rightarrow> deviceLogin" where
  "device_started account = \<lparr>dl_running = True, dl_UserCode = [], dl_URL = [], dl_Message = ''Starting sign-in'' @ ellipsis,
     dl_Failed = False, dl_Account = account\<rparr>"

text \<open>\<open>start\<close>: refused while one runs, or when the process cannot be started.\<close>

definition device_start :: "string option \<Rightarrow> string \<Rightarrow> deviceLogin \<Rightarrow> string option \<times> deviceLogin" where
  "device_start process_error account d =
     (if dl_running d then (Some ''a sign-in is already in progress'', d)
      else case process_error of Some e \<Rightarrow> (Some e, d) | None \<Rightarrow> (None, device_started account))"

definition uiDeviceVerificationURL :: string where
  "uiDeviceVerificationURL = ''https://auth.openai.com/codex/device''"

definition note_code :: "string \<Rightarrow> deviceLogin \<Rightarrow> deviceLogin" where
  "note_code line d = (case find_code False line of
       Some code \<Rightarrow> if dl_UserCode d = [] then
           d\<lparr>dl_UserCode := code, dl_URL := (if dl_URL d = [] then uiDeviceVerificationURL else dl_URL d),
             dl_Message := ''Waiting for you to enter the code'' @ ellipsis\<rparr>
         else d
     | None \<Rightarrow> d)"

definition note_url :: "string \<Rightarrow> deviceLogin \<Rightarrow> deviceLogin" where
  "note_url line d = (case from_http line of
       Some rest \<Rightarrow> if dl_URL d = [] then d\<lparr>dl_URL := first_field rest\<rparr> else d | None \<Rightarrow> d)"

definition note_message :: "string \<Rightarrow> deviceLogin \<Rightarrow> deviceLogin" where
  "note_message line d =
     (if has_prefix ''error'' (to_lower line) then d\<lparr>dl_Message := line, dl_Failed := True\<rparr>
      else if dl_UserCode d = [] then d\<lparr>dl_Message := line\<rparr> else d)"

definition device_line :: "string \<Rightarrow> deviceLogin \<Rightarrow> deviceLogin" where
  "device_line raw d = (let line = trim_space (strip_ansi (length raw) raw) in
     if line = [] then d else note_message line (note_url line (note_code line d)))"

text \<open>The end: the error of \<open>Wait\<close>, and what \<open>onDone\<close> said if it ran.\<close>

definition device_finish :: "string option \<Rightarrow> string \<times> bool \<Rightarrow> deviceLogin \<Rightarrow> deviceLogin" where
  "device_finish err outcome d = (let d = d\<lparr>dl_running := False\<rparr> in
     if dl_Failed d then d
     else case err of
       Some e \<Rightarrow> d\<lparr>dl_Failed := True, dl_Message := ''Sign-in did not complete: '' @ e\<rparr>
     | None \<Rightarrow> d\<lparr>dl_Failed := snd outcome, dl_Message := (if fst outcome = [] then ''Signed in.'' else fst outcome)\<rparr>)"

subsection \<open>Interleavings\<close>

text \<open>
  \<open>consume\<close> runs beside the requests, and holds the lock only for a line, for the look at \<open>Failed\<close> when
  the CLI has exited, and for the end: \<open>onDone\<close> runs between the last two.  The phase says where it is;
  \<open>dw_adopted\<close> is what \<open>onDone\<close> has said since the last start.
\<close>

datatype phase = Idle | Reading | Adopting | Finishing "string option" "string \<times> bool"

record device_world =
  dw_dev :: deviceLogin
  dw_phase :: phase
  dw_started :: bool
  dw_adopted :: "(string \<times> bool) option"

inductive device_step :: "device_world \<Rightarrow> device_world \<Rightarrow> bool" where
  start: "device_start err account (dw_dev w) = (None, d) \<Longrightarrow>
    device_step w (w\<lparr>dw_dev := d, dw_phase := Reading, dw_started := True, dw_adopted := None\<rparr>)"
| refused: "device_start err account (dw_dev w) = (Some e, d) \<Longrightarrow> device_step w (w\<lparr>dw_dev := d\<rparr>)"
| line: "dw_phase w = Reading \<Longrightarrow> device_step w (w\<lparr>dw_dev := device_line raw (dw_dev w)\<rparr>)"
| exit_adopt: "dw_phase w = Reading \<Longrightarrow> \<not> dl_Failed (dw_dev w) \<Longrightarrow> device_step w (w\<lparr>dw_phase := Adopting\<rparr>)"
| exit_failed: "dw_phase w = Reading \<Longrightarrow> err \<noteq> None \<or> dl_Failed (dw_dev w) \<Longrightarrow>
    device_step w (w\<lparr>dw_phase := Finishing err ([], dl_Failed (dw_dev w))\<rparr>)"
| adopt: "dw_phase w = Adopting \<Longrightarrow> device_step w (w\<lparr>dw_phase := Finishing None outcome, dw_adopted := Some outcome\<rparr>)"
| finish: "dw_phase w = Finishing err outcome \<Longrightarrow>
    device_step w (w\<lparr>dw_dev := device_finish err outcome (dw_dev w), dw_phase := Idle\<rparr>)"
| cancel: "device_step w (w\<lparr>dw_dev := device_cancel (dw_dev w)\<rparr>)"

definition device_initial :: device_world where
  "device_initial = \<lparr>dw_dev = \<lparr>dl_running = False, dl_UserCode = [], dl_URL = [], dl_Message = [], dl_Failed = False, dl_Account = []\<rparr>,
     dw_phase = Idle, dw_started = False, dw_adopted = None\<rparr>"

abbreviation device_reachable :: "device_world \<Rightarrow> bool" where
  "device_reachable w \<equiv> device_step\<^sup>*\<^sup>* device_initial w"

section \<open>Laws\<close>

subsection \<open>Sessions\<close>

text \<open>The login that issued a session, in a trail of outcomes with the latest first: it had the key, and
  nothing since has issued the token anew or logged it out.\<close>

definition session_kept :: "string \<Rightarrow> (ui_request \<times> ui_outcome) list \<Rightarrow> bool" where
  "session_kept tok trail \<longleftrightarrow>
     list_all (\<lambda>(x, out). out \<noteq> UiSession tok \<and> (out = UiCleared \<longrightarrow> ur_cookie x \<noteq> Some tok)) trail"

definition issued_by :: "string \<Rightarrow> (ui_request \<times> ui_outcome) list \<Rightarrow> string \<Rightarrow> ui_request \<Rightarrow> bool" where
  "issued_by APIKey trail tok q \<longleftrightarrow> (\<exists>newer older key. trail = newer @ (q, UiSession tok) # older
     \<and> ur_key q = Some key \<and> trim_space key = APIKey
     \<and> session_kept tok newer)"

definition sessions_ok :: "string \<Rightarrow> uiSessions \<Rightarrow> (ui_request \<times> ui_outcome) list \<Rightarrow> bool" where
  "sessions_ok APIKey s trail \<longleftrightarrow> distinct (map fst s)
     \<and> (\<forall>tok expiry. map_of s tok = Some expiry \<longrightarrow> (\<exists>q. issued_by APIKey trail tok q \<and> expiry = ur_now q + uiSessionTTL))"

lemma issued_by_Cons:
  assumes "issued_by APIKey trail tok q" "out \<noteq> UiSession tok" "out = UiCleared \<Longrightarrow> ur_cookie r \<noteq> Some tok"
  shows "issued_by APIKey ((r, out) # trail) tok q"
proof -
  obtain newer older key where "trail = newer @ (q, UiSession tok) # older" "ur_key q = Some key" "trim_space key = APIKey"
    "session_kept tok newer"
    using assms(1) unfolding issued_by_def by (elim exE conjE)
  moreover have "session_kept tok ((r, out) # newer)" if "session_kept tok newer" for newer
    using that assms(2,3) by (cases "out = UiCleared") (simp_all add: session_kept_def)
  ultimately show ?thesis
    unfolding issued_by_def by (intro exI [of _ "(r, out) # newer"] exI [of _ older] exI [of _ key]) simp
qed

lemma issued_now:
  "ur_key r = Some key \<Longrightarrow> trim_space key = APIKey \<Longrightarrow> issued_by APIKey ((r, UiSession tok) # trail) tok r"
  unfolding issued_by_def by (intro exI [of _ "[]"] exI [of _ trail] exI [of _ key]) (simp add: session_kept_def)

lemma ui_headers_iff [simp]:
  "ui_headers out = UiSession tok \<longleftrightarrow> out = UiSession tok" "ui_headers out = UiCleared \<longleftrightarrow> out = UiCleared"
  "ui_headers out = UiRun action \<longleftrightarrow> out = UiRun action"
  by (cases out; simp add: ui_headers_def)+

lemma valid_session_sub:
  assumes "valid_session tok now s = (ok, s')" "distinct (map fst s)"
  shows "distinct (map fst s') \<and> (\<forall>t e. map_of s' t = Some e \<longrightarrow> map_of s t = Some e)
    \<and> (ok \<longrightarrow> tok \<noteq> [] \<and> (\<exists>expiry. map_of s tok = Some expiry \<and> now \<le> expiry))"
  using assms by (auto simp: valid_session_def distinct_delete map_of_delete split: if_splits option.splits)

text \<open>What a request does to the sessions, by its outcome.\<close>

lemma serveUI_cases:
  assumes "serveUI APIKey r s = (out, s')" "distinct (map fst s)"
  obtains (login) tok key where "out = UiSession tok" "s' = issue_session tok (ur_now r) s" "ur_key r = Some key" "trim_space key = APIKey"
  | (logout) "out = UiCleared" "s' = (case ur_cookie r of Some c \<Rightarrow> revoke_session c s | None \<Rightarrow> s)"
  | (run) action tok expiry where "out = UiRun action" "ur_cookie r = Some tok" "tok \<noteq> []" "map_of s tok = Some expiry" "ur_now r \<le> expiry"
      "s' = s"
  | (other) "\<And>tok. out \<noteq> UiSession tok" "out \<noteq> UiCleared" "\<And>action. out \<noteq> UiRun action"
      "distinct (map fst s')" "\<And>t e. map_of s' t = Some e \<Longrightarrow> map_of s t = Some e"
proof (cases "APIKey = []")
  case True
  then show ?thesis
    using assms other by (auto simp: serveUI_def)
next
  case False
  note f = False
  show ?thesis
  proof (cases "ui_route (ur_verb r) (ui_path (ur_path r))")
    case UiLogin
    then show ?thesis
      using assms f login other
      by (auto simp: serveUI_def uiLogin_def ui_headers_def split: option.splits if_splits)
  next
    case UiLogout
    then show ?thesis
      using assms f logout by (auto simp: serveUI_def ui_headers_def)
  next
    case (UiGuarded action)
    obtain ok s1 where g: "uiAuthorized r s = (ok, s1)"
      by (cases "uiAuthorized r s")
    show ?thesis
    proof (cases ok)
      case True
      then obtain tok where c: "ur_cookie r = Some tok" "valid_session tok (ur_now r) s = (True, s1)"
        using g by (auto simp: uiAuthorized_def split: option.splits)
      then have "s1 = s"
        by (auto simp: valid_session_def split: if_splits option.splits)
      moreover obtain expiry where "tok \<noteq> []" "map_of s tok = Some expiry" "ur_now r \<le> expiry"
        using valid_session_sub [OF c(2) assms(2)] by auto
      moreover have "out = UiRun action" "s' = s1"
        using assms(1) f UiGuarded g True by (simp_all add: serveUI_def ui_headers_def)
      ultimately show ?thesis
        using run c(1) by simp
    next
      case ok: False
      have "distinct (map fst s1) \<and> (\<forall>t e. map_of s1 t = Some e \<longrightarrow> map_of s t = Some e)"
        using g assms(2) valid_session_sub [of _ "ur_now r" s ok s1] by (auto simp: uiAuthorized_def split: option.splits)
      moreover have "\<exists>x. out = UiAnswer x" "s' = s1"
        using assms(1) f UiGuarded g ok by (auto simp: serveUI_def ui_headers_def)
      ultimately show ?thesis
        using other by auto
    qed
  qed (use assms f other in \<open>auto simp: serveUI_def ui_headers_def\<close>)
qed

lemma sessions_okD:
  "sessions_ok APIKey s trail \<Longrightarrow> map_of s tok = Some expiry \<Longrightarrow>
     \<exists>q. issued_by APIKey trail tok q \<and> expiry = ur_now q + uiSessionTTL"
  unfolding sessions_ok_def by blast

lemma sessions_ok_step:
  assumes ok: "sessions_ok APIKey s trail" and step: "serveUI APIKey r s = (out, s')"
  shows "sessions_ok APIKey s' ((r, out) # trail)"
proof -
  have dist: "distinct (map fst s)"
    using ok by (simp add: sessions_ok_def)
  have older: "\<exists>q. issued_by APIKey ((r, out) # trail) t q \<and> e = ur_now q + uiSessionTTL"
    if "map_of s t = Some e" "out \<noteq> UiSession t" "out = UiCleared \<Longrightarrow> ur_cookie r \<noteq> Some t" for t e
  proof -
    from sessions_okD [OF ok that(1)] obtain q where "issued_by APIKey trail t q" "e = ur_now q + uiSessionTTL"
      by (elim exE conjE)
    then show ?thesis
      using issued_by_Cons [OF _ that(2,3)] by blast
  qed
  show ?thesis
  proof (cases rule: serveUI_cases [OF step dist, case_names login logout run other])
    case (login tok key)
    have s': "distinct (map fst s')" "\<And>t e. map_of s' t = Some e \<Longrightarrow> t \<noteq> tok \<Longrightarrow> map_of s t = Some e"
      "map_of s' tok = Some (ur_now r + uiSessionTTL)"
      using dist by (auto simp: login(2) issue_session_def update_conv' distinct_update distinct_map_filter
          map_of_eq_Some_iff [OF distinct_map_filter [OF dist]] map_of_eq_Some_iff [OF dist])
    have "\<exists>q. issued_by APIKey ((r, out) # trail) t q \<and> e = ur_now q + uiSessionTTL" if "map_of s' t = Some e" for t e
    proof (cases "t = tok")
      case True
      then show ?thesis
        using s'(3) that issued_now [OF login(3,4), of tok trail] login(1) by auto
    next
      case False
      then show ?thesis
        using older [OF s'(2) [OF that False]] login(1) by simp
    qed
    then show ?thesis
      using s'(1) by (simp add: sessions_ok_def)
  next
    case logout
    have s': "distinct (map fst s')"
      using dist by (auto simp: logout(2) revoke_session_def distinct_delete split: option.split)
    have sub: "map_of s t = Some e \<and> ur_cookie r \<noteq> Some t" if "map_of s' t = Some e" for t e
      using that by (auto simp: logout(2) revoke_session_def map_of_delete split: option.splits if_splits)
    have "\<exists>q. issued_by APIKey ((r, out) # trail) t q \<and> e = ur_now q + uiSessionTTL" if "map_of s' t = Some e" for t e
      using older [of t e] sub [OF that] logout(1) by simp
    then show ?thesis
      using s' by (simp add: sessions_ok_def)
  next
    case (run action tok expiry)
    then show ?thesis
      using dist older by (simp add: sessions_ok_def)
  next
    case other
    then show ?thesis
      using older by (simp add: sessions_ok_def)
  qed
qed

lemma sessions_ok_run: "ui_run APIKey rs = (s, trail) \<Longrightarrow> sessions_ok APIKey s trail"
proof (induction rs arbitrary: s trail)
  case Nil
  then show ?case by (simp add: sessions_ok_def)
next
  case (Cons r rs)
  obtain s0 trail0 where r0: "ui_run APIKey rs = (s0, trail0)"
    by (cases "ui_run APIKey rs")
  obtain out s1 where step: "serveUI APIKey r s0 = (out, s1)"
    by (cases "serveUI APIKey r s0")
  then have "s = s1" "trail = (r, out) # trail0"
    using Cons.prems by (simp_all add: r0)
  then show ?case
    using sessions_ok_step [OF Cons.IH [OF r0] step] by simp
qed

text \<open>C15: Every console operation is behind a login: whatever requests came before, an operation runs only
  for a request whose cookie was issued to a login with the configured key, within twelve hours, and has
  not been logged out since; and no operation runs when no key is configured.\<close>

theorem console_needs_login:
  assumes "ui_run APIKey (r # earlier) = (s, (r, UiRun action) # trail)"
  shows "APIKey \<noteq> [] \<and> (\<exists>tok q. ur_cookie r = Some tok \<and> tok \<noteq> [] \<and> issued_by APIKey trail tok q
    \<and> ur_now r \<le> ur_now q + uiSessionTTL)"
proof -
  obtain s0 where r0: "ui_run APIKey earlier = (s0, trail)"
    using assms by (cases "ui_run APIKey earlier") (auto split: prod.splits)
  have ok: "sessions_ok APIKey s0 trail"
    by (rule sessions_ok_run [OF r0])
  then have dist: "distinct (map fst s0)"
    by (simp add: sessions_ok_def)
  have step: "serveUI APIKey r s0 = (UiRun action, s)"
    using assms by (auto simp: r0 split: prod.splits)
  have "APIKey \<noteq> []"
    using step by (auto simp: serveUI_def)
  moreover obtain tok expiry where tok: "ur_cookie r = Some tok" "tok \<noteq> []" "map_of s0 tok = Some expiry" "ur_now r \<le> expiry"
    by (cases rule: serveUI_cases [OF step dist]) auto
  moreover obtain q where "issued_by APIKey trail tok q" "expiry = ur_now q + uiSessionTTL"
    using sessions_okD [OF ok tok(3)] by (elim exE conjE)
  ultimately show ?thesis by blast
qed

definition sample_ui_login :: ui_request where
  "sample_ui_login = \<lparr>ur_verb = ''POST'', ur_path = ''/ui/api/login'', ur_cookie = None, ur_key = Some ''k'', ur_token = Some ''t'', ur_now = 0\<rparr>"

definition sample_ui_status :: ui_request where
  "sample_ui_status = \<lparr>ur_verb = ''GET'', ur_path = ''/ui/api/status'', ur_cookie = Some ''t'', ur_key = None, ur_token = None, ur_now = 5\<rparr>"

theorem console_needs_login_witness:
  "\<exists>q. issued_by ''k'' [(sample_ui_login, UiSession ''t'')] ''t'' q"
proof -
  have "ui_run ''k'' [sample_ui_status, sample_ui_login]
      = ([(''t'', uiSessionTTL)], [(sample_ui_status, UiRun UiStatus), (sample_ui_login, UiSession ''t'')])"
    by code_simp
  from console_needs_login [OF this] show ?thesis
    by (auto simp: sample_ui_status_def)
qed

subsection \<open>The device sign-in\<close>

text \<open>The message is that of an adoption without failure.\<close>

definition adopted_with :: "(string \<times> bool) option \<Rightarrow> string \<Rightarrow> bool" where
  "adopted_with r message = (case r of
       Some (m, failed) \<Rightarrow> \<not> failed \<and> message = (if m = [] then ''Signed in.'' else m) | None \<Rightarrow> False)"

definition device_ok :: "device_world \<Rightarrow> bool" where
  "device_ok w \<longleftrightarrow> (dl_running (dw_dev w) \<longleftrightarrow> dw_phase w \<noteq> Idle)
     \<and> (case dw_phase w of
          Idle \<Rightarrow> dw_started w \<and> \<not> dl_Failed (dw_dev w) \<longrightarrow> adopted_with (dw_adopted w) (dl_Message (dw_dev w))
        | Finishing err outcome \<Rightarrow> (dw_adopted w = Some outcome \<and> err = None)
            \<or> (dw_adopted w = None \<and> (err \<noteq> None \<or> dl_Failed (dw_dev w)))
        | _ \<Rightarrow> dw_adopted w = None)"

lemma device_line_running [simp]: "dl_running (device_line raw d) = dl_running d"
  by (simp add: device_line_def note_message_def note_url_def note_code_def Let_def split: option.split)

lemma device_cancel_simps [simp]: "dl_running (device_cancel d) = dl_running d" "dl_Failed d \<Longrightarrow> dl_Failed (device_cancel d)"
  by (simp_all add: device_cancel_def)

lemma device_start_cases:
  assumes "device_start err account d = (r, d')"
  shows "r = None \<and> \<not> dl_running d \<and> d' = device_started account \<or> r \<noteq> None \<and> d' = d"
  using assms by (auto simp: device_start_def split: if_splits option.splits)

lemma device_ok_step: "device_step w w' \<Longrightarrow> device_ok w \<Longrightarrow> device_ok w'"
proof (induction rule: device_step.induct)
  case (start err account w d)
  then show ?case
    using device_start_cases [OF start(1)] by (simp add: device_ok_def device_started_def)
next
  case (refused err account w e d)
  then have "d = dw_dev w"
    using device_start_cases [OF refused(1)] by simp
  then show ?case
    using refused(2) by (simp add: device_ok_def)
next
  case (finish w err outcome)
  then show ?case
    by (cases err) (auto simp: device_ok_def device_finish_def adopted_with_def Let_def split: prod.split)
next
  case (cancel w)
  then show ?case
    by (cases "dw_phase w") (auto simp: device_ok_def device_cancel_def)
qed (auto simp: device_ok_def)

lemma device_ok_reachable: "device_reachable w \<Longrightarrow> device_ok w"
proof (induction rule: rtranclp_induct)
  case base
  then show ?case by (simp add: device_ok_def device_initial_def)
qed (rule device_ok_step)

text \<open>C25: In every interleaving of sign-ins, cancellations and the reader of the CLI, a sign-in is refused
  while one runs, and a finished sign-in is reported as a success only if its login was adopted without
  failure, with the message of the adoption.\<close>

theorem device_sign_in_is_honest:
  assumes "device_reachable w"
  shows "(dl_running (dw_dev w) \<longleftrightarrow> dw_phase w \<noteq> Idle)
    \<and> (dw_phase w \<noteq> Idle \<longrightarrow> device_start err account (dw_dev w) = (Some ''a sign-in is already in progress'', dw_dev w))
    \<and> (dw_phase w = Idle \<and> dw_started w \<and> \<not> dl_Failed (dw_dev w) \<longrightarrow> adopted_with (dw_adopted w) (dl_Message (dw_dev w)))"
  using device_ok_reachable [OF assms] unfolding device_ok_def device_start_def
  by (cases "dw_phase w") simp_all

text \<open>A sign-in whose CLI succeeds, cancelled while its login is being adopted.\<close>

definition cancelled_late :: device_world where
  "cancelled_late = (let d = device_started ''default'' in
     \<lparr>dw_dev = device_finish None (''Signed in. Added as account default.'', False) (device_cancel d),
      dw_phase = Idle, dw_started = True, dw_adopted = Some (''Signed in. Added as account default.'', False)\<rparr>)"

lemma device_more: "device_reachable w \<Longrightarrow> device_step w w' \<Longrightarrow> device_reachable w'"
  by (rule rtranclp.rtrancl_into_rtrancl)

lemma cancelled_late_reachable: "device_reachable cancelled_late"
proof -
  let ?d = "device_started ''default''" and ?out = "(''Signed in. Added as account default.'', False)"
  let ?w1 = "device_initial\<lparr>dw_dev := ?d, dw_phase := Reading, dw_started := True, dw_adopted := None\<rparr>"
  let ?w2 = "?w1\<lparr>dw_phase := Adopting\<rparr>"
  let ?w3 = "?w2\<lparr>dw_phase := Finishing None ?out, dw_adopted := Some ?out\<rparr>"
  let ?w4 = "?w3\<lparr>dw_dev := device_cancel (dw_dev ?w3)\<rparr>"
  let ?w5 = "?w4\<lparr>dw_dev := device_finish None ?out (dw_dev ?w4), dw_phase := Idle\<rparr>"
  have s: "device_start None ''default'' (dw_dev device_initial) = (None, ?d)"
    by (simp add: device_start_def device_initial_def)
  have 1: "device_reachable ?w1"
    by (rule device_more [OF rtranclp.rtrancl_refl device_step.start [OF s]])
  have 2: "device_reachable ?w2"
    by (rule device_more [OF 1 device_step.exit_adopt]) (simp_all add: device_started_def)
  have 3: "device_reachable ?w3"
    by (rule device_more [OF 2 device_step.adopt]) simp
  have 4: "device_reachable ?w4"
    by (rule device_more [OF 3 device_step.cancel])
  have "device_reachable ?w5"
    by (rule device_more [OF 4 device_step.finish]) simp
  then show ?thesis
    by (simp add: cancelled_late_def device_initial_def)
qed

theorem device_sign_in_is_honest_witness:
  "dl_running (dw_dev cancelled_late) \<longleftrightarrow> dw_phase cancelled_late \<noteq> Idle"
  by (rule device_sign_in_is_honest [OF cancelled_late_reachable, THEN conjunct1])

text \<open>The report can be wrong the other way: cancelled while the login is being adopted, the sign-in is
  reported as cancelled although the account was added.\<close>

lemma late_cancel_misreports:
  "device_reachable cancelled_late \<and> dw_adopted cancelled_late = Some (''Signed in. Added as account default.'', False)
   \<and> dl_Failed (dw_dev cancelled_late) \<and> dl_Message (dw_dev cancelled_late) = ''Sign-in cancelled.''"
proof -
  have "dl_running (device_started ''default'')" "\<not> dl_Failed (device_started ''default'')"
    by (simp_all add: device_started_def)
  then show ?thesis
    using cancelled_late_reachable by (intro conjI) (simp_all add: cancelled_late_def device_finish_def device_cancel_def Let_def)
qed

subsection \<open>Reading the output\<close>

lemma code_is_read:
  "dl_UserCode (device_line (CHR 0x1B # ''[94m  WXET-EA6X0'' @ [CHR 0x1B] @ ''[0m'') (device_started ''default'')) = ''WXET-EA6X0''"
  by code_simp

end
