(* ===== verification/Config.thy ===== *)
theory Config
  imports Auth Server
begin

text \<open>
  The settings and the command line (\<open>config.go\<close>): defaults, the configuration file, the environment, the
  flags of Go's package \<open>flag\<close>, and what \<open>Run\<close> makes of them.

  The environment is the function \<open>os.Getenv\<close> (an unset variable reads as the empty string), \<open>home\<close> what
  \<open>os.UserHomeDir\<close> gives, and a file its decoded content.
\<close>

section \<open>Numbers\<close>

text \<open>Seconds as a \<open>float64\<close> to a \<open>time.Duration\<close>.  A product that does not fit is implementation specific
  in Go; the value is the one amd64 produces.\<close>

definition second_factor :: rat where
  "second_factor = 1000000000"

definition duration_of :: "float_text \<Rightarrow> int" where
  "duration_of t = (case t of
       FNum x \<Rightarrow> (case fl64 (x * second_factor) of Some y \<Rightarrow> float_to_int y | None \<Rightarrow> min_int64)
     | _ \<Rightarrow> min_int64)"

text \<open>\<open>Duration.Seconds\<close>: whole seconds, and the rest divided, with Go's division towards zero.\<close>

definition seconds_of :: "int \<Rightarrow> rat" where
  "seconds_of d = (let
     s = trunc_rat (of_int d / second_factor);
     rest = d - s * 1000000000;
     frac = (case fl64 (int_to_float rest / second_factor) of Some y \<Rightarrow> y | None \<Rightarrow> 0)
     in case fl64 (int_to_float s + frac) of Some y \<Rightarrow> y | None \<Rightarrow> 0)"

definition float_le_zero :: "float_text \<Rightarrow> bool" where
  "float_le_zero t = (case t of FNum x \<Rightarrow> x \<le> 0 | FInf neg \<Rightarrow> neg | _ \<Rightarrow> False)"

definition parse_bool :: "string \<Rightarrow> bool option" where
  "parse_bool s =
     (if s \<in> set [''1'', ''t'', ''T'', ''TRUE'', ''true'', ''True''] then Some True
      else if s \<in> set [''0'', ''f'', ''F'', ''FALSE'', ''false'', ''False''] then Some False else None)"

text \<open>\<open>ParseInt(s, 0, 64)\<close>: a sign, a base prefix, and digits that underscores may separate.\<close>

definition digit_value :: "char \<Rightarrow> nat option" where
  "digit_value c = (let b = (of_char (lower_char c) :: nat) in
     if 48 \<le> b \<and> b \<le> 57 then Some (b - 48) else if 97 \<le> b \<and> b \<le> 122 then Some (b - 87) else None)"

fun base_value :: "nat \<Rightarrow> nat \<Rightarrow> string \<Rightarrow> nat option" where
  "base_value base n [] = Some n"
| "base_value base n (c # cs) =
     (if c = CHR ''_'' then base_value base n cs
      else case digit_value c of
        Some d \<Rightarrow> if d < base then base_value base (n * base + d) cs else None
      | None \<Rightarrow> None)"

datatype last_char = AtStart | AtDigit | AtUnderscore | AtOther

fun underscores_from :: "bool \<Rightarrow> last_char \<Rightarrow> string \<Rightarrow> bool" where
  "underscores_from hex i [] = (i \<noteq> AtUnderscore)"
| "underscores_from hex i (c # cs) =
     (if is_digit c \<or> (hex \<and> lower_char c \<in> {CHR ''a'', CHR ''b'', CHR ''c'', CHR ''d'', CHR ''e'', CHR ''f''})
      then underscores_from hex AtDigit cs
      else if c = CHR ''_'' then i = AtDigit \<and> underscores_from hex AtUnderscore cs
      else i \<noteq> AtUnderscore \<and> underscores_from hex AtOther cs)"

definition base_prefix :: "string \<Rightarrow> (nat \<times> string) option" where
  "base_prefix t = (case t of
       z # x # rest \<Rightarrow> if z = CHR ''0'' then
           (if lower_char x = CHR ''b'' then Some (2, rest) else if lower_char x = CHR ''o'' then Some (8, rest)
            else if lower_char x = CHR ''x'' then Some (16, rest) else None)
         else None
     | _ \<Rightarrow> None)"

definition underscoreOK :: "string \<Rightarrow> bool" where
  "underscoreOK t = (case base_prefix t of
       Some (base, rest) \<Rightarrow> underscores_from (base = 16) AtDigit rest
     | None \<Rightarrow> underscores_from False AtStart t)"

definition parse_uint0 :: "string \<Rightarrow> nat option" where
  "parse_uint0 t =
     (if t = [] then None
      else case (case base_prefix t of Some (base, rest) \<Rightarrow> if rest = [] then base_value 8 0 (tl t) else base_value base 0 rest
                 | None \<Rightarrow> if hd t = CHR ''0'' then base_value 8 0 (tl t) else base_value 10 0 t) of
        None \<Rightarrow> None
      | Some n \<Rightarrow> if CHR ''_'' \<in> set t \<and> \<not> underscoreOK t then None else Some n)"

definition parse_int0 :: "string \<Rightarrow> int option" where
  "parse_int0 s = (let (neg, t) = split_sign s in case parse_uint0 t of
       None \<Rightarrow> None
     | Some n \<Rightarrow> (let v = (if neg then - int n else int n) in if in_int64 v then Some v else None))"

section \<open>Flags\<close>

text \<open>A flag sets a variable of its type; \<open>'v\<close> holds the variables.\<close>

datatype 'v go_flag = StringVar "string \<Rightarrow> 'v \<Rightarrow> 'v" | IntVar "int \<Rightarrow> 'v \<Rightarrow> 'v"
  | Float64Var "float_text \<Rightarrow> 'v \<Rightarrow> 'v" | BoolVar "bool \<Rightarrow> 'v \<Rightarrow> 'v"

datatype flag_error = ErrHelp | BadFlagSyntax string | NotDefined string | NeedsArgument string | InvalidValue string string

definition set_flag :: "string \<Rightarrow> string \<Rightarrow> 'v go_flag \<Rightarrow> 'v \<Rightarrow> flag_error + 'v" where
  "set_flag name value f v = (case f of
       StringVar g \<Rightarrow> Inr (g value v)
     | IntVar g \<Rightarrow> (case parse_int0 value of Some n \<Rightarrow> Inr (g n v) | None \<Rightarrow> Inl (InvalidValue name value))
     | Float64Var g \<Rightarrow> (case parse_float value of
           FSyntax \<Rightarrow> Inl (InvalidValue name value) | FRange neg \<Rightarrow> Inl (InvalidValue name value) | x \<Rightarrow> Inr (g x v))
     | BoolVar g \<Rightarrow> (case parse_bool value of Some b \<Rightarrow> Inr (g b v) | None \<Rightarrow> Inl (InvalidValue name value)))"

text \<open>An argument: the end of the flags, bad syntax, or a name with its value, if it has one.\<close>

datatype flag_arg = NoFlag | BadFlag string | FlagArg string "string option"

definition cut_value :: "string \<Rightarrow> string \<times> string option" where
  "cut_value name = (if CHR ''='' \<in> set (tl name)
     then (hd name # takeWhile (\<lambda>c. c \<noteq> CHR ''='') (tl name), Some (tl (dropWhile (\<lambda>c. c \<noteq> CHR ''='') (tl name))))
     else (name, None))"

definition flag_arg :: "string \<Rightarrow> flag_arg" where
  "flag_arg s =
     (if length s < 2 \<or> hd s \<noteq> CHR ''-'' \<or> s = ''--'' then NoFlag
      else (let name = (if s ! 1 = CHR ''-'' then drop 2 s else drop 1 s) in
        if hd name = CHR ''-'' \<or> hd name = CHR ''='' then BadFlag s
        else case cut_value name of (n, v) \<Rightarrow> FlagArg n v))"

definition is_bool_flag :: "'v go_flag \<Rightarrow> bool" where
  "is_bool_flag f = (case f of BoolVar g \<Rightarrow> True | _ \<Rightarrow> False)"

fun parse_flags :: "(string \<times> 'v go_flag) list \<Rightarrow> string list \<Rightarrow> 'v \<Rightarrow> flag_error + 'v" where
  "parse_flags fs [] v = Inr v"
| "parse_flags fs (s # args) v = (case flag_arg s of
       NoFlag \<Rightarrow> Inr v
     | BadFlag s \<Rightarrow> Inl (BadFlagSyntax s)
     | FlagArg name value \<Rightarrow> (case map_of fs name of
           None \<Rightarrow> Inl (if name = ''help'' \<or> name = ''h'' then ErrHelp else NotDefined name)
         | Some f \<Rightarrow> (case (value, is_bool_flag f, args) of
               (Some x, b, args) \<Rightarrow> (case set_flag name x f v of Inl e \<Rightarrow> Inl e | Inr v \<Rightarrow> parse_flags fs args v)
             | (None, True, args) \<Rightarrow> (case set_flag name ''true'' f v of Inl e \<Rightarrow> Inl e | Inr v \<Rightarrow> parse_flags fs args v)
             | (None, False, []) \<Rightarrow> Inl (NeedsArgument name)
             | (None, False, x # rest) \<Rightarrow> (case set_flag name x f v of Inl e \<Rightarrow> Inl e | Inr v \<Rightarrow> parse_flags fs rest v))))"

section \<open>Settings\<close>

record config =
  cg_Host :: string
  cg_Port :: int
  cg_Model :: string
  cg_BackendURL :: string
  cg_ClientVersion :: string
  cg_Originator :: string
  cg_UserAgent :: string
  cg_AuthJSON :: string
  cg_APIKey :: string
  cg_Timeout :: int
  cg_MaxStored :: int
  cg_Concurrency :: int
  cg_MaxRetries :: int
  cg_Verbose :: bool
  cg_DropParams :: "string list"
  cg_StateDir :: string
  cg_PIDFile :: string
  cg_LogFile :: string
  cg_StopTimeout :: int

definition program_name :: string where
  "program_name = ''openai-api-server-via-codex''"

definition home_dir :: "string option \<Rightarrow> string" where
  "home_dir home = (case home of Some h \<Rightarrow> h | None \<Rightarrow> [])"

definition defaultStateDir :: "(string \<Rightarrow> string) \<Rightarrow> string option \<Rightarrow> string" where
  "defaultStateDir env home = (let xdg = env ''XDG_CONFIG_HOME'' in
     if xdg \<noteq> [] then join_paths [xdg, program_name, ''run'']
     else join_paths [home_dir home, ''.config'', program_name, ''run''])"

definition defaultConfig :: "(string \<Rightarrow> string) \<Rightarrow> string option \<Rightarrow> config" where
  "defaultConfig env home = \<lparr>cg_Host = ''127.0.0.1'', cg_Port = 18080, cg_Model = ''gpt-5.6-luna'',
     cg_BackendURL = ''https://chatgpt.com/backend-api/codex'', cg_ClientVersion = ''1.0.0'', cg_Originator = defaultOriginator,
     cg_UserAgent = ''codex_exec/0.146.0 (Mac OS 15.6.1; arm64) iTerm.app (codex_exec; 0.146.0)'',
     cg_AuthJSON = join_paths [home_dir home, ''.codex'', ''auth.json''], cg_APIKey = [], cg_Timeout = 300 * 1000000000,
     cg_MaxStored = 1000, cg_Concurrency = 10, cg_MaxRetries = 2, cg_Verbose = False, cg_DropParams = [],
     cg_StateDir = defaultStateDir env home, cg_PIDFile = [], cg_LogFile = [], cg_StopTimeout = 10 * 1000000000\<rparr>"

subsection \<open>The environment\<close>

definition envString :: "(string \<Rightarrow> string) \<Rightarrow> string \<Rightarrow> string \<Rightarrow> string" where
  "envString env name fallback = (if env name \<noteq> [] then env name else fallback)"

definition envInt :: "(string \<Rightarrow> string) \<Rightarrow> string \<Rightarrow> int \<Rightarrow> int" where
  "envInt env name fallback = (case atoi (env name) of (n, True) \<Rightarrow> n | (n, False) \<Rightarrow> fallback)"

definition envFloat :: "(string \<Rightarrow> string) \<Rightarrow> string \<Rightarrow> rat \<Rightarrow> float_text" where
  "envFloat env name fallback = (case parse_float (env name) of
       FSyntax \<Rightarrow> FNum fallback | FRange neg \<Rightarrow> FNum fallback | x \<Rightarrow> x)"

definition envBool :: "(string \<Rightarrow> string) \<Rightarrow> string \<Rightarrow> bool \<Rightarrow> bool" where
  "envBool env name fallback = (case parse_bool (env name) of Some b \<Rightarrow> b | None \<Rightarrow> fallback)"

definition splitParamList :: "string \<Rightarrow> string list" where
  "splitParamList raw = filter (\<lambda>v. v \<noteq> []) (map trim_space (split_on (CHR '','') raw))"

definition setting :: "string \<Rightarrow> string" where
  "setting name = ''OPENAI_VIA_CODEX_'' @ name"

definition applyEnvironment :: "(string \<Rightarrow> string) \<Rightarrow> config \<Rightarrow> config" where
  "applyEnvironment env c = c\<lparr>
     cg_Host := envString env (setting ''HOST'') (cg_Host c),
     cg_Port := envInt env (setting ''PORT'') (cg_Port c),
     cg_Model := envString env (setting ''DEFAULT_MODEL'') (cg_Model c),
     cg_BackendURL := trim_slashes (envString env (setting ''BACKEND_BASE_URL'') (cg_BackendURL c)),
     cg_ClientVersion := envString env (setting ''CLIENT_VERSION'') (cg_ClientVersion c),
     cg_Originator := envString env (setting ''ORIGINATOR'') (cg_Originator c),
     cg_UserAgent := envString env (setting ''USER_AGENT'') (cg_UserAgent c),
     cg_DropParams := (let raw = trim_space (env (setting ''DROP_PARAMS'')) in if raw \<noteq> [] then splitParamList raw else cg_DropParams c),
     cg_AuthJSON := envString env (setting ''AUTH_JSON'') (cg_AuthJSON c),
     cg_APIKey := trim_space (envString env (setting ''API_KEY'') (cg_APIKey c)),
     cg_Timeout := duration_of (envFloat env (setting ''TIMEOUT'') (seconds_of (cg_Timeout c))),
     cg_MaxStored := envInt env (setting ''MAX_STORED_ITEMS'') (cg_MaxStored c),
     cg_Concurrency := envInt env (setting ''MAX_CONCURRENT_REQUESTS'') (cg_Concurrency c),
     cg_MaxRetries := envInt env (setting ''MAX_RETRIES'') (cg_MaxRetries c),
     cg_Verbose := envBool env (setting ''VERBOSE'') (cg_Verbose c),
     cg_StateDir := envString env (setting ''STATE_DIR'') (cg_StateDir c),
     cg_PIDFile := envString env (setting ''PID_FILE'') (cg_PIDFile c),
     cg_LogFile := envString env (setting ''LOG_FILE'') (cg_LogFile c),
     cg_StopTimeout := duration_of (envFloat env (setting ''STOP_TIMEOUT'') (seconds_of (cg_StopTimeout c)))\<rparr>"

subsection \<open>The configuration file\<close>

record configFile =
  cf_Host :: "string option"
  cf_Port :: "int option"
  cf_DefaultModel :: "string option"
  cf_Timeout :: "float_text option"
  cf_Verbose :: "bool option"
  cf_MaxStoredItems :: "int option"
  cf_MaxConcurrentRequests :: "int option"
  cf_MaxRetries :: "int option"
  cf_APIKey :: "string option"
  cf_AuthJSON :: "string option"
  cf_BackendBaseURL :: "string option"
  cf_ClientVersion :: "string option"
  cf_Originator :: "string option"
  cf_UserAgent :: "string option"
  cf_DropParams :: "string list option"
  cf_StateDir :: "string option"
  cf_PIDFile :: "string option"
  cf_LogFile :: "string option"
  cf_StopTimeout :: "float_text option"

definition given :: "'a option \<Rightarrow> 'a \<Rightarrow> 'a" where
  "given x fallback = (case x of Some v \<Rightarrow> v | None \<Rightarrow> fallback)"

definition apply_file :: "configFile \<Rightarrow> config \<Rightarrow> config" where
  "apply_file f c = c\<lparr>
     cg_Host := given (cf_Host f) (cg_Host c),
     cg_Port := given (cf_Port f) (cg_Port c),
     cg_Model := given (cf_DefaultModel f) (cg_Model c),
     cg_Timeout := given (map_option duration_of (cf_Timeout f)) (cg_Timeout c),
     cg_Verbose := given (cf_Verbose f) (cg_Verbose c),
     cg_MaxStored := given (cf_MaxStoredItems f) (cg_MaxStored c),
     cg_Concurrency := given (cf_MaxConcurrentRequests f) (cg_Concurrency c),
     cg_MaxRetries := given (cf_MaxRetries f) (cg_MaxRetries c),
     cg_APIKey := given (cf_APIKey f) (cg_APIKey c),
     cg_AuthJSON := given (cf_AuthJSON f) (cg_AuthJSON c),
     cg_BackendURL := given (map_option trim_slashes (cf_BackendBaseURL f)) (cg_BackendURL c),
     cg_ClientVersion := given (cf_ClientVersion f) (cg_ClientVersion c),
     cg_Originator := given (cf_Originator f) (cg_Originator c),
     cg_UserAgent := given (cf_UserAgent f) (cg_UserAgent c),
     cg_DropParams := given (cf_DropParams f) (cg_DropParams c),
     cg_StateDir := given (cf_StateDir f) (cg_StateDir c),
     cg_PIDFile := given (cf_PIDFile f) (cg_PIDFile c),
     cg_LogFile := given (cf_LogFile f) (cg_LogFile c),
     cg_StopTimeout := given (map_option duration_of (cf_StopTimeout f)) (cg_StopTimeout c)\<rparr>"

text \<open>What is at a path: nothing, an unreadable file, one that is no configuration, or a configuration.\<close>

datatype config_read = NoFile | ReadError string | ParseError string | ConfigFile configFile

definition applyConfigFile :: "string \<Rightarrow> config_read \<Rightarrow> config \<Rightarrow> string + config" where
  "applyConfigFile path r c = (case r of
       NoFile \<Rightarrow> Inr c
     | ReadError e \<Rightarrow> Inl (''read config '' @ path @ '': '' @ e)
     | ParseError e \<Rightarrow> Inl (''parse config '' @ path @ '': '' @ e)
     | ConfigFile f \<Rightarrow>
         if list_ex (\<lambda>name. trim_space name = []) (given (cf_DropParams f) [])
         then Inl (''parse config '' @ path @ '': compat.drop_params must contain non-empty strings'')
         else Inr (apply_file f c))"

fun configPathFromArgs :: "string list \<Rightarrow> string" where
  "configPathFromArgs [] = []"
| "configPathFromArgs (a # args) =
     (if a = ''--config'' \<and> args \<noteq> [] then hd args
      else if has_prefix ''--config='' a then drop (length ''--config='') a
      else configPathFromArgs args)"

definition default_config_path :: "string option \<Rightarrow> string" where
  "default_config_path home = join_paths [home_dir home, ''.config'', program_name, ''config.toml'']"

text \<open>\<open>files\<close> reads the configuration at a path.\<close>

definition loadResolvedConfig ::
  "(string \<Rightarrow> string) \<Rightarrow> string option \<Rightarrow> (string \<Rightarrow> config_read) \<Rightarrow> string list \<Rightarrow> string + config \<times> string" where
  "loadResolvedConfig env home files args = (let
     path = configPathFromArgs args;
     path = (if path = [] then env ''OPENAI_VIA_CODEX_CONFIG'' else path);
     path = (if path = [] then default_config_path home else path)
     in case applyConfigFile path (files (expandHome home path)) (defaultConfig env home) of
       Inl e \<Rightarrow> Inl e
     | Inr c \<Rightarrow> Inr (applyEnvironment env c, path))"

section \<open>The commands\<close>

text \<open>The variables of \<open>Run\<close> that flags set.\<close>

record run_vars =
  rv_cfg :: config
  rv_configPath :: string
  rv_timeout :: float_text
  rv_stopTimeout :: float_text
  rv_dropParams :: string

definition on_cfg :: "(config \<Rightarrow> config) \<Rightarrow> run_vars \<Rightarrow> run_vars" where
  "on_cfg g v = v\<lparr>rv_cfg := g (rv_cfg v)\<rparr>"

text \<open>Flags both \<open>Run\<close> and \<open>addDaemonServerFlags\<close> have.\<close>

definition server_flags :: "(string \<times> run_vars go_flag) list" where
  "server_flags =
     [(''default-model'', StringVar (\<lambda>x. on_cfg (\<lambda>c. c\<lparr>cg_Model := x\<rparr>))),
      (''backend-base-url'', StringVar (\<lambda>x. on_cfg (\<lambda>c. c\<lparr>cg_BackendURL := x\<rparr>))),
      (''client-version'', StringVar (\<lambda>x. on_cfg (\<lambda>c. c\<lparr>cg_ClientVersion := x\<rparr>))),
      (''auth-json'', StringVar (\<lambda>x. on_cfg (\<lambda>c. c\<lparr>cg_AuthJSON := x\<rparr>))),
      (''api-key'', StringVar (\<lambda>x. on_cfg (\<lambda>c. c\<lparr>cg_APIKey := x\<rparr>))),
      (''timeout'', Float64Var (\<lambda>x v. v\<lparr>rv_timeout := x\<rparr>)),
      (''max-stored-items'', IntVar (\<lambda>x. on_cfg (\<lambda>c. c\<lparr>cg_MaxStored := x\<rparr>))),
      (''max-concurrent-requests'', IntVar (\<lambda>x. on_cfg (\<lambda>c. c\<lparr>cg_Concurrency := x\<rparr>))),
      (''max-retries'', IntVar (\<lambda>x. on_cfg (\<lambda>c. c\<lparr>cg_MaxRetries := x\<rparr>)))]"

definition common_flags :: "(string \<times> run_vars go_flag) list" where
  "common_flags =
     [(''config'', StringVar (\<lambda>x v. v\<lparr>rv_configPath := x\<rparr>)),
      (''host'', StringVar (\<lambda>x. on_cfg (\<lambda>c. c\<lparr>cg_Host := x\<rparr>))),
      (''port'', IntVar (\<lambda>x. on_cfg (\<lambda>c. c\<lparr>cg_Port := x\<rparr>))),
      (''verbose'', BoolVar (\<lambda>x. on_cfg (\<lambda>c. c\<lparr>cg_Verbose := x\<rparr>)))]"

definition stop_flag :: "(string \<times> run_vars go_flag) list" where
  "stop_flag = [(''stop-timeout'', Float64Var (\<lambda>x v. v\<lparr>rv_stopTimeout := x\<rparr>))]"

definition run_flags :: "bool \<Rightarrow> (string \<times> run_vars go_flag) list" where
  "run_flags supervised = common_flags @ server_flags @ (if supervised then stop_flag else [])
     @ [(''drop-params'', StringVar (\<lambda>x v. v\<lparr>rv_dropParams := x\<rparr>))]"

definition start_vars :: "config \<Rightarrow> string \<Rightarrow> run_vars" where
  "start_vars cfg path = \<lparr>rv_cfg = cfg, rv_configPath = path, rv_timeout = FNum (seconds_of (cg_Timeout cfg)),
     rv_stopTimeout = FNum (seconds_of (cg_StopTimeout cfg)), rv_dropParams = []\<rparr>"

datatype command_error = FlagError flag_error | CommandError string

definition run_invalid :: command_error where
  "run_invalid = CommandError ''port, timeout, max-stored-items, max-concurrent-requests, max-retries, or stop-timeout is invalid''"

text \<open>The check of the settings of a server, and the settings.\<close>

definition finish_run :: "bool \<Rightarrow> run_vars \<Rightarrow> command_error + config" where
  "finish_run supervised v = (let c = rv_cfg v in
     if cg_MaxStored c < 0 \<or> cg_Concurrency c < 0 \<or> cg_MaxRetries c < 0 \<or> cg_Port c < (if supervised then 1 else 0)
        \<or> 65535 < cg_Port c \<or> float_le_zero (rv_timeout v) \<or> float_le_zero (rv_stopTimeout v)
     then Inl run_invalid
     else Inr (c\<lparr>cg_Timeout := duration_of (rv_timeout v), cg_StopTimeout := duration_of (rv_stopTimeout v),
       cg_DropParams := (if rv_dropParams v \<noteq> [] then splitParamList (rv_dropParams v) else cg_DropParams c)\<rparr>))"

text \<open>The settings \<open>serve\<close> and \<open>daemon-run\<close> go on with; \<open>None\<close>: the flags asked for help.\<close>

definition run_settings ::
  "bool \<Rightarrow> (string \<Rightarrow> string) \<Rightarrow> string option \<Rightarrow> (string \<Rightarrow> config_read) \<Rightarrow> string list \<Rightarrow> (command_error + config) option" where
  "run_settings supervised env home files args = (case loadResolvedConfig env home files args of
       Inl e \<Rightarrow> Some (Inl (CommandError e))
     | Inr (cfg, path) \<Rightarrow> (case parse_flags (run_flags supervised) args (start_vars cfg path) of
         Inl ErrHelp \<Rightarrow> None
       | Inl e \<Rightarrow> Some (Inl (FlagError e))
       | Inr v \<Rightarrow> Some (finish_run supervised v)))"

datatype run_result = PrintVersion | ShowHelp | RunFailed command_error | Serve config | Supervise config
  | ConfigGenerate "string list" | DaemonCommand string "string list"

definition Run ::
  "(string \<Rightarrow> string) \<Rightarrow> (string \<Rightarrow> string) \<Rightarrow> string option \<Rightarrow> (string \<Rightarrow> config_read) \<Rightarrow> string list \<Rightarrow> run_result" where
  "Run quote env home files args =
     (if args = [''--version''] then PrintVersion
      else (let (command, rest) = (if args \<noteq> [] \<and> \<not> has_prefix ''-'' (hd args) then (hd args, tl args) else (''serve'', args)) in
        if command = ''config-generate'' then ConfigGenerate rest
        else if command \<in> {''start'', ''stop'', ''status''} then DaemonCommand command rest
        else if command \<noteq> ''serve'' \<and> command \<noteq> ''daemon-run''
        then RunFailed (CommandError (''unsupported command '' @ quote command
          @ '' (supported: serve, start, stop, status, config-generate)''))
        else (case run_settings (command = ''daemon-run'') env home files rest of
            None \<Rightarrow> ShowHelp
          | Some (Inl e) \<Rightarrow> RunFailed e
          | Some (Inr cfg) \<Rightarrow> if command = ''daemon-run'' then Supervise cfg else Serve cfg)))"

section \<open>Generating a configuration\<close>

text \<open>\<open>quote\<close> is \<open>%q\<close>.\<close>

definition defaultConfigTOML :: "(string \<Rightarrow> string) \<Rightarrow> (string \<Rightarrow> string) \<Rightarrow> string option \<Rightarrow> string" where
  "defaultConfigTOML quote env home = (let c = defaultConfig env home in concat (map (\<lambda>line. line @ ''\<newline>'')
     [''[server]'', ''host = '' @ quote (cg_Host c), ''port = '' @ itoa (cg_Port c), ''default_model = '' @ quote (cg_Model c),
      ''timeout = 300.0'', ''verbose = false'', ''max_stored_items = '' @ itoa (cg_MaxStored c),
      ''max_concurrent_requests = '' @ itoa (cg_Concurrency c), ''max_retries = '' @ itoa (cg_MaxRetries c), [],
      ''[codex]'', ''auth_json = \"~/.codex/auth.json\"'', ''backend_base_url = '' @ quote (cg_BackendURL c),
      ''client_version = '' @ quote (cg_ClientVersion c),
      ''# Identity sent upstream. Defaults impersonate the official Codex CLI, which the'',
      ''# backend treats differently from a third-party originator. Clear user_agent to'',
      ''# fall back to the \"openai-api-server-via-codex/<version>\" form.'',
      ''originator = '' @ quote (cg_Originator c), ''user_agent = '' @ quote (cg_UserAgent c), [],
      ''[compat]'',
      ''# Parameters stripped before the request reaches Codex. Empty by default: fast_mode used to be'',
      ''# stripped here, but the caller now decides per request, so removing it centrally would make the'',
      ''# toggle silently inert. Add names back to strip a parameter Codex rejects.'',
      ''drop_params = []'', [],
      ''[daemon]'', ''state_dir = '' @ quote (cg_StateDir c), ''stop_timeout = 10.0'']))"

record generate_vars =
  gv_stdout :: bool
  gv_path :: string
  gv_force :: bool

datatype generated = GenerateFailed command_error | GenerateHelp | PrintConfig string | WriteConfig string string

text \<open>\<open>exists\<close> says whether \<open>os.Stat\<close> finds a file.\<close>

definition runConfigGenerate ::
  "(string \<Rightarrow> string) \<Rightarrow> (string \<Rightarrow> string) \<Rightarrow> string option \<Rightarrow> (string \<Rightarrow> bool) \<Rightarrow> string list \<Rightarrow> generated" where
  "runConfigGenerate quote env home exists args =
     (case parse_flags [(''stdout'', BoolVar (\<lambda>x v. v\<lparr>gv_stdout := x\<rparr>)), (''config'', StringVar (\<lambda>x v. v\<lparr>gv_path := x\<rparr>)),
          (''force'', BoolVar (\<lambda>x v. v\<lparr>gv_force := x\<rparr>))] args \<lparr>gv_stdout = False, gv_path = [], gv_force = False\<rparr> of
        Inl ErrHelp \<Rightarrow> GenerateHelp
      | Inl e \<Rightarrow> GenerateFailed (FlagError e)
      | Inr v \<Rightarrow> (let text = defaultConfigTOML quote env home;
           path = (if gv_path v = [] then default_config_path home else gv_path v) in
          if gv_stdout v then PrintConfig text
          else if \<not> gv_force v \<and> exists path
          then GenerateFailed (CommandError (''configuration already exists at '' @ path))
          else WriteConfig path text))"

section \<open>Laws\<close>

subsection \<open>Flags\<close>

text \<open>A flag with its value in the next argument, and one with its value in its own.\<close>

lemma parse_value:
  assumes "flag_arg s = FlagArg n None" "map_of fs n = Some f" "\<not> is_bool_flag f" "set_flag n x f v = Inr v'"
  shows "parse_flags fs (s # x # rest) v = parse_flags fs rest v'"
  using assms by simp

lemma parse_switch:
  assumes "flag_arg s = FlagArg n None" "map_of fs n = Some (BoolVar g)"
  shows "parse_flags fs (s # rest) v = parse_flags fs rest (g True v)"
  using assms by (simp add: set_flag_def is_bool_flag_def parse_bool_def)

text \<open>Decimal integers are read as written.\<close>

lemma digit_value_digits:
  "list_all (\<lambda>p. digit_value (fst p) = Some (snd p) \<and> fst p \<noteq> CHR ''_'' \<and> lower_char (fst p) = fst p) (zip digits10 [0..<10])"
  by (simp add: digits10_def upt_rec digit_value_def lower_char_def)

lemma digit_value_char:
  assumes "d < 10"
  shows "digit_value (digit_char d) = Some d \<and> digit_char d \<noteq> CHR ''_'' \<and> lower_char (digit_char d) = digit_char d"
proof -
  have "(digit_char d, d) \<in> set (zip digits10 [0..<10])"
    unfolding in_set_zip using assms by (intro exI [of _ d]) (simp add: digit_char_def digits10_def)
  then show ?thesis
    using digit_value_digits by (fastforce simp: list_all_iff)
qed

lemma base_value_append: "base_value b n (xs @ ys) = (case base_value b n xs of None \<Rightarrow> None | Some m \<Rightarrow> base_value b m ys)"
  by (induction xs arbitrary: n) (auto split: option.split)

lemma base_value_show_nat: "base_value 10 0 (show_nat n) = Some n"
proof (induction n rule: show_nat.induct)
  case (1 n)
  show ?case
  proof (cases "n < 10")
    case True
    then show ?thesis
      using digit_value_char [of n] by (simp add: show_nat.simps [of n])
  next
    case False
    then show ?thesis
      using 1 digit_value_char [of "n mod 10"] by (simp add: show_nat.simps [of n] base_value_append)
  qed
qed

lemma show_nat_chars: "c \<in> set (show_nat n) \<Longrightarrow> \<exists>d<10. c = digit_char d"
proof (induction n rule: show_nat.induct)
  case (1 n)
  have "c \<in> set (show_nat (n div 10)) \<or> c = digit_char (n mod 10)" if "\<not> n < 10"
    using 1(2) that by (auto simp: show_nat.simps [of n])
  moreover have "c = digit_char n" if "n < 10"
    using 1(2) that by (simp add: show_nat.simps [of n])
  ultimately show ?case
    using 1(1) by (meson mod_less_divisor zero_less_numeral)
qed

lemma show_nat_hd_zero: "hd (show_nat n) = CHR ''0'' \<longleftrightarrow> n = 0"
proof (induction n rule: show_nat.induct)
  case (1 n)
  show ?case
  proof (cases "n < 10")
    case True
    have h: "hd (show_nat n) = digit_char n"
      using True by (simp add: show_nat.simps [of n])
    show ?thesis
      unfolding h using below_ten [OF True] by (auto simp: digit_char_def digits10_def)
  next
    case False
    then show ?thesis
      using 1 by (simp add: show_nat.simps [of n])
  qed
qed

lemma base_prefix_digits: "\<exists>d<10. x = digit_char d \<Longrightarrow> base_prefix (z # x # rest) = None"
  by (auto simp: base_prefix_def digit_value_char dest!: below_ten) (auto simp: digit_char_def digits10_def)

lemma parse_int0_itoa: "in_int64 n \<Longrightarrow> parse_int0 (itoa n) = Some n"
proof -
  assume n: "in_int64 n"
  have u: "parse_uint0 (show_nat m) = Some m" for m
  proof -
    have pre: "base_prefix (show_nat m) = None"
    proof (cases "show_nat m")
      case (Cons z t)
      then show ?thesis
        using show_nat_chars [of _ m] base_prefix_digits [of "hd t" z "tl t"] by (cases t) (auto simp: base_prefix_def)
    qed (simp add: base_prefix_def)
    have no: "CHR ''_'' \<notin> set (show_nat m)"
    proof
      assume "CHR ''_'' \<in> set (show_nat m)"
      then obtain d where "d < 10" "CHR ''_'' = digit_char d"
        using show_nat_chars by blast
      then show False
        using digit_value_char [of d] by simp
    qed
    show ?thesis
      using pre no base_value_show_nat [of m] show_nat_hd_zero [of m]
      by (auto simp: parse_uint0_def show_nat.simps [of 0] digit_char_def digits10_def)
  qed
  show ?thesis
  proof (cases "n < 0")
    case True
    then show ?thesis
      using n u [of "nat (- n)"] by (simp add: parse_int0_def itoa_def split_sign_def)
  next
    case False
    then show ?thesis
      using n u [of "nat n"] split_sign_show_nat by (simp add: parse_int0_def itoa_def)
  qed
qed

subsection \<open>Whole numbers of seconds\<close>

lemma take_digits_all: "list_all is_digit s \<Longrightarrow> take_digits s = (s, [])"
  by (induction s) auto

lemma is_digit_char: "d < 10 \<Longrightarrow> is_digit (digit_char d)"
proof -
  assume "d < 10"
  have "list_all (\<lambda>d. is_digit (digit_char d)) [0..<10]"
    by code_simp
  with \<open>d < 10\<close> show ?thesis
    by (simp add: list_all_iff)
qed

lemma list_all_show_nat: "list_all is_digit (show_nat n)"
  using show_nat_chars is_digit_char by (fastforce simp: list_all_iff)

lemma digits_val_zeros: "digits_val m (replicate k (CHR ''0'')) = Some (m * 10 ^ k)"
  by (induction k arbitrary: m) (simp_all add: digit_val_def digits10_def)

lemma digits_val_split: "digits_val a (s @ t) = (case digits_val a s of None \<Rightarrow> None | Some n \<Rightarrow> digits_val n t)"
  by (induction s arbitrary: a) (auto split: option.split)

lemma fl64_whole: "0 < n \<Longrightarrow> n < 2 ^ 53 \<Longrightarrow> fl64 (of_int n) = Some (of_int n)"
  by (simp add: fl64_def fl64_pos_of_int)

lemma parse_whole:
  assumes "0 < m" "m * 10 ^ k < 2 ^ 53"
  shows "parse_float (show_nat m @ replicate k (CHR ''0'')) = FNum (of_nat (m * 10 ^ k))"
proof -
  let ?t = "show_nat m @ replicate k (CHR ''0'')"
  have sgn: "split_sign ?t = (False, ?t)"
    using hd_show_nat [of m] by (cases "show_nat m") (auto simp: split_sign_def)
  have all: "list_all is_digit ?t"
    using list_all_show_nat [of m] is_digit_char [of 0] by (auto simp: list_all_iff digit_char_def digits10_def)
  have sc: "scan_mantissa ?t = ((?t, []), [])"
    by (simp add: scan_mantissa_def take_digits_all [OF all])
  obtain d u where d: "d < 10" "?t = digit_char d # u"
    using show_nat_chars [of "hd (show_nat m)" m] by (cases "show_nat m") auto
  have "lower_char (digit_char d) \<notin> {CHR ''i'', CHR ''n''}"
    using digit_value_char [OF d(1)] d(1) by (auto simp: digit_value_def)
  then have low: "to_lower ?t \<noteq> ''inf''" "to_lower ?t \<noteq> ''infinity''" "to_lower ?t \<noteq> ''nan''"
    unfolding d(2) by (auto simp: to_lower_def)
  have val: "decimal_value ?t [] 0 = of_int (int (m * 10 ^ k))"
    by (simp add: decimal_value_def digits_val_split digits_val_show_nat digits_val_zeros pow10_def)
  have "int (m * 10 ^ k) < int (2 ^ 53)"
    using assms(2) by (simp only: of_nat_less_iff)
  then have "fl64 (of_int (int (m * 10 ^ k))) = Some (of_int (int (m * 10 ^ k)))"
    using assms(1) by (intro fl64_whole) simp_all
  with sgn sc low val show ?thesis
    by (simp add: parse_float_def scan_exponent_def)
qed

lemma strip_zeros_value:
  "strip_zeros k (m, e) = (m', e') \<Longrightarrow> 0 < m \<Longrightarrow> 0 \<le> e \<Longrightarrow> 0 < m' \<and> 0 \<le> e' \<and> m' * 10 ^ nat e' = m * 10 ^ nat e"
proof (induction k arbitrary: m e)
  case (Suc k)
  show ?case
  proof (cases "m mod 10 = 0")
    case True
    then have "m = 10 * (m div 10)"
      by auto
    moreover have "0 < m' \<and> 0 \<le> e' \<and> m' * 10 ^ nat e' = (m div 10) * 10 ^ nat (e + 1)"
      using Suc.IH [of "m div 10" "e + 1"] Suc.prems True by auto
    moreover have "nat (e + 1) = Suc (nat e)"
      using Suc.prems by simp
    ultimately show ?thesis
      by (metis mult.assoc mult.commute power_Suc)
  qed (use Suc.prems in auto)
qed simp

lemma round_even_bounds: "of_int (round_even q) \<le> q + 1 / 2" "q - 1 / 2 \<le> of_int (round_even q)"
  by (auto simp: round_even_def Let_def) linarith+

lemma dec_exp_whole:
  assumes "0 < n" "n < 10 ^ 7"
  shows "1 \<le> dec_exp (of_int n)" "dec_exp (of_int n) \<le> 9"
proof -
  define k where "k = bitlen n - 1"
  have q: "quotient_of (of_int n) = (n, 1)"
    by (simp add: quotient_of_int)
  have b: "2 ^ nat k \<le> n" "0 \<le> k"
    using bitlen_bounds [of n] bitlen_ge_iff_power [of 1 n] assms(1) by (auto simp: k_def)
  have "k \<le> 23"
  proof (rule ccontr)
    assume "\<not> k \<le> 23"
    then have "(2::int) ^ 24 \<le> 2 ^ nat k" by (intro power_increasing) auto
    then show False using b assms(2) by simp
  qed
  define p where "p = \<lfloor>(of_int (bitlen n - bitlen 1) * 30103 / 100000 :: rat)\<rfloor> - 1"
  have p: "p \<le> 6"
  proof -
    have "(of_int (bitlen n - bitlen 1) * 30103 / 100000 :: rat) \<le> 23 * 30103 / 100000"
      using \<open>k \<le> 23\<close> by (simp add: k_def compute_bitlen)
    then show ?thesis
      by (simp add: p_def floor_le_iff)
  qed
  have one: "False" if "i \<le> 0" "(of_int n :: rat) < pow10 i" for i
  proof -
    have "pow10 i \<le> 1"
      using that(1) by (cases "i = 0") (simp_all add: pow10_def)
    moreover have "(1 :: rat) \<le> of_int n"
      using assms(1) by simp
    ultimately show ?thesis
      using that(2) by linarith
  qed
  have e: "dec_exp (of_int n) = (if (of_int n :: rat) < pow10 p then p else if (of_int n :: rat) < pow10 (p + 1) then p + 1
     else if (of_int n :: rat) < pow10 (p + 2) then p + 2 else p + 3)"
    by (simp add: dec_exp_def q p_def Let_def)
  have p0: "-1 \<le> p"
  proof -
    have "0 \<le> bitlen n - bitlen 1"
      using b(2) by (simp add: k_def compute_bitlen)
    then have "0 \<le> (of_int (bitlen n - bitlen 1) * 30103 / 100000 :: rat)"
      by (intro divide_nonneg_nonneg mult_nonneg_nonneg) (simp_all only: of_int_0_le_iff zero_le_numeral)
    then show ?thesis
      unfolding p_def by linarith
  qed
  define A where "A i \<longleftrightarrow> (of_int n :: rat) < pow10 i" for i
  have "1 \<le> i" if "A i" for i
  proof (rule ccontr)
    assume "\<not> 1 \<le> i"
    then have "i \<le> 0"
      by simp
    then show False
      using one that unfolding A_def by blast
  qed
  then have "A p \<Longrightarrow> 1 \<le> p" "A (p + 1) \<Longrightarrow> 1 \<le> p + 1" "A (p + 2) \<Longrightarrow> 1 \<le> p + 2"
    by blast+
  then show "1 \<le> dec_exp (of_int n)"
    unfolding e A_def [symmetric] using p0 by simp
  show "dec_exp (of_int n) \<le> 9"
    unfolding e A_def [symmetric] using p by simp
qed

lemma shortest_whole:
  assumes n: "0 < n" "n < 10 ^ 7"
  shows "shortest_from k i (of_int n) = (m, e) \<Longrightarrow> 1 \<le> i \<Longrightarrow> int i \<le> dec_exp (of_int n) \<Longrightarrow> dec_exp (of_int n) \<le> int (i + k)
    \<Longrightarrow> 0 \<le> e \<and> m * 10 ^ nat e = n"
proof (induction k arbitrary: i)
  case 0
  then have "int i = dec_exp (of_int n)"
    by simp
  then show ?case
    using 0 by (auto simp: nearest_decimal_def pow10_def)
next
  case (Suc k)
  define x where "x = (of_int n :: rat)"
  define e1 where "e1 = dec_exp x - int i"
  define m1 where "m1 = round_even (x / pow10 e1)"
  have nd: "nearest_decimal i x = (m1, e1)"
    by (simp add: nearest_decimal_def e1_def m1_def Let_def)
  have whole: "fl64 x = Some x"
    using n by (simp add: x_def fl64_whole)
  have e1: "0 \<le> e1" "e1 \<le> 8"
    using Suc.prems dec_exp_whole [OF n] by (simp_all add: e1_def x_def)
  show ?case
  proof (cases "fl64 (of_int m1 * pow10 e1) = Some x")
    case True
    then have me: "m = m1" "e = e1"
      using Suc.prems(1) nd by (simp_all add: x_def)
    let ?v = "m1 * 10 ^ nat e1"
    have pw: "pow10 e1 = of_int (10 ^ nat e1)" "(10::int) ^ nat e1 \<le> 10 ^ 8"
      using e1 power_increasing [of "nat e1" 8 "10::int"] by (simp_all add: pow10_def)
    have "(0::rat) \<le> x / pow10 e1"
      using n by (simp add: x_def pw)
    then have "- 1 / 2 \<le> (of_int m1 :: rat)"
      using round_even_bounds(2) [of "x / pow10 e1"] by (simp add: m1_def)
    then have "0 \<le> m1"
      by linarith
    then have pos: "0 \<le> ?v"
      by simp
    have "(of_int m1 :: rat) \<le> x / pow10 e1 + 1"
      using round_even_bounds(1) [of "x / pow10 e1"] by (simp add: m1_def)
    then have "of_int m1 * pow10 e1 \<le> (x / pow10 e1 + 1) * pow10 e1"
      by (intro mult_right_mono) (simp_all add: pw)
    also have "\<dots> = x + pow10 e1"
      by (simp add: pw algebra_simps)
    finally have "of_int ?v \<le> (of_int (n + 10 ^ nat e1) :: rat)"
      by (simp add: pw x_def)
    then have "?v \<le> n + 10 ^ nat e1"
      by (simp only: of_int_le_iff)
    then have "?v < 2 ^ 53"
      using pw(2) n(2) by simp
    moreover have "?v \<noteq> 0"
      using True n(1) by (auto simp: pw x_def fl64_def)
    ultimately have "fl64 (of_int ?v) = Some (of_int ?v)"
      using pos by (intro fl64_whole) linarith+
    then have "of_int ?v = (of_int n :: rat)"
      using True by (simp add: pw x_def)
    then show ?thesis
      using me e1 by (simp only: of_int_eq_iff)
  next
    case False
    then have r: "shortest_from k (Suc i) x = (m, e)"
      using Suc.prems(1) nd by (simp add: x_def)
    have "int i \<noteq> dec_exp x"
    proof
      assume "int i = dec_exp x"
      then have "e1 = 0" "m1 = n"
        by (simp_all add: e1_def m1_def x_def pow10_def)
      then show False
        using False whole by (simp add: pow10_def x_def)
    qed
    then show ?thesis
      using Suc.IH [of "Suc i"] r Suc.prems by (simp add: x_def)
  qed
qed

lemma format_whole:
  assumes n: "0 < n" "n < 10 ^ 7" and s: "shortest_decimal (of_int n) = (ds, dp)"
  shows "parse_float (format_plain ds dp) = FNum (of_int n)"
proof -
  obtain m e where me: "shortest_from 16 1 (of_int n) = (m, e)"
    by fastforce
  have v: "0 \<le> e" "m * 10 ^ nat e = n"
    using shortest_whole [OF n me] dec_exp_whole [OF n] by auto
  then have m: "0 < m"
    using n(1) by (metis zero_less_mult_pos2 zero_less_numeral zero_less_power)
  obtain m' e' where me': "strip_zeros 400 (nat m, e) = (m', e')"
    by fastforce
  have v': "0 < m'" "0 \<le> e'" "m' * 10 ^ nat e' = nat m * 10 ^ nat e"
    using strip_zeros_value [OF me'] v m by auto
  have nn: "int (m' * 10 ^ nat e') = n"
    using v'(3) v(2) m by simp
  have d: "ds = show_nat m'" "dp = int (length ds) + e'"
    using s me me' by (auto simp: shortest_decimal_def Let_def)
  have "format_plain ds dp = show_nat m' @ replicate (nat e') (CHR ''0'')"
  proof -
    have "0 < int (length (show_nat m'))"
      by simp
    then have "0 < dp" "nat (dp - int (length ds)) = nat e'" "int (length ds) \<le> dp"
      using v'(2) unfolding d by linarith+
    then show ?thesis
      by (simp add: format_plain_def zeros_def) (simp add: d)
  qed
  moreover have "m' * 10 ^ nat e' < 2 ^ 53"
    using nn n(2) by (simp flip: of_nat_less_iff [where 'a = int])
  moreover have "(of_nat (m' * 10 ^ nat e') :: rat) = of_int n"
    using nn by (metis of_int_of_nat_eq)
  ultimately show ?thesis
    using parse_whole [OF v'(1)] by simp
qed

text \<open>Whole seconds survive being written and read back.\<close>

lemma seconds_of_whole:
  assumes "0 < n" "n < 10 ^ 6"
  shows "seconds_of (n * 1000000000) = of_int n"
proof -
  have "trunc_rat (of_int (n * 1000000000) / second_factor) = n"
    using assms by (simp add: trunc_rat_def second_factor_def)
  then show ?thesis
    using assms int_to_float_exact [of n] int_to_float_exact [of 0]
    by (simp add: seconds_of_def Let_def fl64_whole) (simp add: fl64_def fl64_pos_of_int)
qed

lemma duration_of_whole:
  assumes "0 < n" "n < 10 ^ 6"
  shows "duration_of (FNum (of_int n)) = n * 1000000000"
proof -
  have "(of_int n :: rat) * second_factor = of_int (n * 1000000000)"
    by (simp add: second_factor_def)
  then show ?thesis
    using assms fl64_whole [of "n * 1000000000"] float_to_int_of_int [of "n * 1000000000"]
    by (simp add: duration_of_def in_int64_def min_int64_def max_int64_def)
qed

subsection \<open>What the flags set\<close>

text \<open>The assignments the arguments make, in order.\<close>

fun assignments :: "(string \<times> 'v go_flag) list \<Rightarrow> string list \<Rightarrow> (string \<times> string) list" where
  "assignments fs [] = []"
| "assignments fs (s # args) = (case flag_arg s of
       FlagArg name value \<Rightarrow> (case map_of fs name of
           None \<Rightarrow> []
         | Some f \<Rightarrow> (case (value, is_bool_flag f, args) of
               (Some x, b, args) \<Rightarrow> (name, x) # assignments fs args
             | (None, True, args) \<Rightarrow> (name, ''true'') # assignments fs args
             | (None, False, []) \<Rightarrow> []
             | (None, False, x # rest) \<Rightarrow> (name, x) # assignments fs rest))
     | _ \<Rightarrow> [])"

text \<open>The variable a flag sets, and no other flag touches.\<close>

definition own_variable :: "(string \<times> 'v go_flag) list \<Rightarrow> string \<Rightarrow> ('v \<Rightarrow> string) \<Rightarrow> bool" where
  "own_variable fs n get \<longleftrightarrow> (\<forall>n' f x v v'. map_of fs n' = Some f \<longrightarrow> set_flag n' x f v = Inr v' \<longrightarrow> get v' = (if n' = n then x else get v))"

lemma parse_step:
  assumes "parse_flags fs (s # args) v = Inr v'"
  shows "v' = v \<and> assignments fs (s # args) = [] \<or>
    (\<exists>name x f rest u. map_of fs name = Some f \<and> set_flag name x f v = Inr u \<and> parse_flags fs rest u = Inr v'
      \<and> length rest \<le> length args \<and> assignments fs (s # args) = (name, x) # assignments fs rest)"
proof (cases "flag_arg s")
  case (FlagArg name given_value)
  show ?thesis
  proof (cases "map_of fs name")
    case (Some f)
    consider (own) x where "given_value = Some x" | (switch) "given_value = None" "is_bool_flag f"
      | (separate) x rest where "given_value = None" "\<not> is_bool_flag f" "args = x # rest" | (missing) "given_value = None" "\<not> is_bool_flag f" "args = []"
      by (cases given_value; cases "is_bool_flag f"; cases args) auto
    then show ?thesis
    proof cases
      case own
      obtain u where u: "set_flag name x f v = Inr u" "parse_flags fs args u = Inr v'"
        using assms FlagArg Some own by (cases "set_flag name x f v") auto
      then show ?thesis
        by (intro disjI2 exI [of _ name] exI [of _ "x"] exI [of _ f] exI [of _ args] exI [of _ u]) (simp add: FlagArg Some own)
    next
      case switch
      obtain u where u: "set_flag name ''true'' f v = Inr u" "parse_flags fs args u = Inr v'"
        using assms FlagArg Some switch by (cases "set_flag name ''true'' f v") auto
      then show ?thesis
        by (intro disjI2 exI [of _ name] exI [of _ "''true''"] exI [of _ f] exI [of _ args] exI [of _ u]) (simp add: FlagArg Some switch)
    next
      case separate
      obtain u where u: "set_flag name x f v = Inr u" "parse_flags fs rest u = Inr v'"
        using assms FlagArg Some separate by (cases "set_flag name x f v") auto
      then show ?thesis
        by (intro disjI2 exI [of _ name] exI [of _ "x"] exI [of _ f] exI [of _ rest] exI [of _ u]) (simp add: FlagArg Some separate)
    qed (use assms FlagArg Some in auto)
  qed (use assms FlagArg in auto)
qed (use assms in auto)

lemma last_assignment:
  assumes "own_variable fs n get"
  shows "parse_flags fs args v = Inr v' \<Longrightarrow> get v' = given (map_of (rev (assignments fs args)) n) (get v)"
proof (induction args arbitrary: v rule: length_induct)
  case (1 args)
  note own = assms [unfolded own_variable_def, rule_format]
  show ?case
  proof (cases args)
    case (Cons s rest)
    then consider (stop) "v' = v" "assignments fs args = []"
      | (set) name x f rest u where "map_of fs name = Some f" "set_flag name x f v = Inr u" "parse_flags fs rest u = Inr v'"
          "length rest < length args" "assignments fs args = (name, x) # assignments fs rest"
      using parse_step [of fs s rest v v'] 1(2) by auto
    then show ?thesis
    proof cases
      case set
      then have "get v' = given (map_of (rev (assignments fs rest)) n) (get u)"
        using 1(1) by blast
      moreover have "get u = (if name = n then x else get v)"
        using set by (intro own)
      ultimately show ?thesis
        using set(5) by (auto simp: given_def map_add_def split: option.splits)
    qed (simp add: given_def)
  qed (use 1(2) in \<open>simp add: given_def\<close>)
qed

text \<open>Checked flag by flag.\<close>

definition leaves_or_sets :: "string \<Rightarrow> ('v \<Rightarrow> string) \<Rightarrow> string \<times> 'v go_flag \<Rightarrow> bool" where
  "leaves_or_sets n get p \<longleftrightarrow> (case snd p of
       StringVar g \<Rightarrow> \<forall>x v. get (g x v) = (if fst p = n then x else get v)
     | IntVar g \<Rightarrow> fst p \<noteq> n \<and> (\<forall>x v. get (g x v) = get v)
     | Float64Var g \<Rightarrow> fst p \<noteq> n \<and> (\<forall>x v. get (g x v) = get v)
     | BoolVar g \<Rightarrow> fst p \<noteq> n \<and> (\<forall>x v. get (g x v) = get v))"

lemma own_variableI:
  assumes "list_all (leaves_or_sets n get) fs"
  shows "own_variable fs n get"
  unfolding own_variable_def
proof (intro allI impI)
  fix n' f x v v'
  assume f: "map_of fs n' = Some f" "set_flag n' x f v = Inr v'"
  then have "leaves_or_sets n get (n', f)"
    using assms by (auto simp: list_all_iff dest: map_of_SomeD)
  with f(2) show "get v' = (if n' = n then x else get v)"
    by (cases f) (auto simp: leaves_or_sets_def set_flag_def split: option.splits float_text.splits)
qed

lemma run_flags_own:
  "own_variable (run_flags b) ''host'' (\<lambda>v. cg_Host (rv_cfg v))"
  "own_variable (run_flags b) ''default-model'' (\<lambda>v. cg_Model (rv_cfg v))"
  "own_variable (run_flags b) ''backend-base-url'' (\<lambda>v. cg_BackendURL (rv_cfg v))"
  "own_variable (run_flags b) ''client-version'' (\<lambda>v. cg_ClientVersion (rv_cfg v))"
  "own_variable (run_flags b) ''auth-json'' (\<lambda>v. cg_AuthJSON (rv_cfg v))"
  by (rule own_variableI, simp add: run_flags_def common_flags_def server_flags_def stop_flag_def leaves_or_sets_def on_cfg_def)+

section \<open>Correctness\<close>

definition no_settings :: configFile where
  "no_settings = \<lparr>cf_Host = None, cf_Port = None, cf_DefaultModel = None, cf_Timeout = None, cf_Verbose = None,
     cf_MaxStoredItems = None, cf_MaxConcurrentRequests = None, cf_MaxRetries = None, cf_APIKey = None, cf_AuthJSON = None,
     cf_BackendBaseURL = None, cf_ClientVersion = None, cf_Originator = None, cf_UserAgent = None, cf_DropParams = None,
     cf_StateDir = None, cf_PIDFile = None, cf_LogFile = None, cf_StopTimeout = None\<rparr>"

definition file_settings :: "config_read \<Rightarrow> configFile" where
  "file_settings r = (case r of ConfigFile f \<Rightarrow> f | _ \<Rightarrow> no_settings)"

definition config_path :: "(string \<Rightarrow> string) \<Rightarrow> string option \<Rightarrow> string list \<Rightarrow> string" where
  "config_path env home args =
     (if configPathFromArgs args \<noteq> [] then configPathFromArgs args
      else if env ''OPENAI_VIA_CODEX_CONFIG'' \<noteq> [] then env ''OPENAI_VIA_CODEX_CONFIG'' else default_config_path home)"

lemma apply_no_settings: "apply_file no_settings c = c"
  by (simp add: apply_file_def no_settings_def given_def)

lemma loadResolvedConfig_layers:
  assumes "loadResolvedConfig env home files args = Inr (cfg, path)"
  shows "cfg = applyEnvironment env (apply_file (file_settings (files (expandHome home (config_path env home args)))) (defaultConfig env home))"
proof -
  let ?r = "files (expandHome home (config_path env home args))" and ?c = "defaultConfig env home"
  have "loadResolvedConfig env home files args = (case applyConfigFile (config_path env home args) ?r ?c of
      Inl e \<Rightarrow> Inl e | Inr c \<Rightarrow> Inr (applyEnvironment env c, config_path env home args))"
    unfolding loadResolvedConfig_def config_path_def Let_def
    by (cases "configPathFromArgs args = []"; cases "env ''OPENAI_VIA_CODEX_CONFIG'' = []") simp_all
  then obtain c where "applyConfigFile (config_path env home args) ?r ?c = Inr c" "cfg = applyEnvironment env c"
    using assms by (auto split: sum.splits)
  then show ?thesis
    by (cases ?r) (auto simp: applyConfigFile_def file_settings_def apply_no_settings split: if_splits)
qed

lemma finish_runD:
  assumes "finish_run b v = Inr c"
  shows "(if b then 1 else 0) \<le> cg_Port c \<and> cg_Port c \<le> 65535 \<and> 0 \<le> cg_MaxStored c \<and> 0 \<le> cg_Concurrency c \<and> 0 \<le> cg_MaxRetries c"
    "cg_Host c = cg_Host (rv_cfg v)" "cg_Model c = cg_Model (rv_cfg v)" "cg_BackendURL c = cg_BackendURL (rv_cfg v)"
    "cg_ClientVersion c = cg_ClientVersion (rv_cfg v)" "cg_AuthJSON c = cg_AuthJSON (rv_cfg v)"
  using assms by (auto simp: finish_run_def Let_def split: if_splits)

lemmas setting_layers = applyEnvironment_def apply_file_def defaultConfig_def start_vars_def



text \<open>Timeouts are checked as seconds, before they become durations: an infinite one passes, and so
  does one that is no number, and both become negative.\<close>

lemma timeouts_checked_too_early:
  "\<not> float_le_zero (FInf False) \<and> duration_of (FInf False) < 0"
  "\<not> float_le_zero FNaN \<and> duration_of FNaN < 0"
  by (simp_all add: float_le_zero_def duration_of_def min_int64_def)

text \<open>A flag may be written with one dash; the path of the configuration may not.\<close>

lemma single_dash_config_ignored:
  "flag_arg ''-config'' = FlagArg ''config'' None"
  "configPathFromArgs [''-config'', ''/etc/own.toml''] = []"
  by code_simp+

end
