(* ===== verification/Daemon.thy ===== *)
theory Daemon
  imports Config
begin

text \<open>
  The daemon (\<open>daemon.go\<close>): its paths and PID files, \<open>start\<close>, \<open>stop\<close> and \<open>status\<close>, the command line a
  server is started with, and the supervisor that restarts it.

  \<open>files\<close> are the readable files by path, processes are answers of the environment.
\<close>

section \<open>The command line of a server\<close>

definition formatSeconds :: "int \<Rightarrow> string" where
  "formatSeconds d = (let x = seconds_of d in
     if x = 0 then ''0''
     else (let (ds, dp) = shortest_decimal \<bar>x\<bar>; body = format_plain ds dp in if x < 0 then CHR ''-'' # body else body))"

definition serverCommandArgs :: "bool \<Rightarrow> config \<Rightarrow> string list" where
  "serverCommandArgs supervised c =
     [''--host'', cg_Host c, ''--port'', itoa (cg_Port c), ''--backend-base-url'', cg_BackendURL c,
      ''--client-version'', cg_ClientVersion c, ''--auth-json'', cg_AuthJSON c, ''--timeout'', formatSeconds (cg_Timeout c),
      ''--max-stored-items'', itoa (cg_MaxStored c), ''--max-concurrent-requests'', itoa (cg_Concurrency c),
      ''--max-retries'', itoa (cg_MaxRetries c), ''--default-model'', cg_Model c]
     @ (if supervised then [''--stop-timeout'', formatSeconds (cg_StopTimeout c)] else [])
     @ (if cg_Verbose c then [''--verbose''] else [])
     @ (if cg_DropParams c \<noteq> [] then [''--drop-params'', join '','' (cg_DropParams c)] else [])"

section \<open>Paths\<close>

text \<open>How many bytes the first rune of a text takes; an invalid byte is a rune of its own.\<close>

definition continues :: "nat \<Rightarrow> nat \<Rightarrow> char \<Rightarrow> bool" where
  "continues lo hi c = (let b = (of_char c :: nat) in lo \<le> b \<and> b \<le> hi)"

definition rune_len :: "string \<Rightarrow> nat" where
  "rune_len s = (case s of
       [] \<Rightarrow> 0
     | c # cs \<Rightarrow> (let b = (of_char c :: nat); any = continues 128 191;
         run = (\<lambda>lo hi n. if length cs \<ge> n \<and> continues lo hi (hd cs) \<and> list_all any (take (n - 1) (tl cs)) then Suc n else 1)
         in if 194 \<le> b \<and> b \<le> 223 then run 128 191 1
            else if b = 224 then run 160 191 2
            else if b = 237 then run 128 159 2
            else if 225 \<le> b \<and> b \<le> 239 then run 128 191 2
            else if b = 240 then run 144 191 3
            else if 241 \<le> b \<and> b \<le> 243 then run 128 191 3
            else if b = 244 then run 128 143 3
            else 1))"

definition path_char :: "char \<Rightarrow> bool" where
  "path_char c = (let b = (of_char c :: nat) in
     (97 \<le> b \<and> b \<le> 122) \<or> (65 \<le> b \<and> b \<le> 90) \<or> (48 \<le> b \<and> b \<le> 57) \<or> c = CHR ''.'' \<or> c = CHR ''-'')"

text \<open>The length is enough fuel: a rune has at least one byte.\<close>

fun sanitize_from :: "nat \<Rightarrow> string \<Rightarrow> string" where
  "sanitize_from 0 s = []"
| "sanitize_from (Suc n) [] = []"
| "sanitize_from (Suc n) (c # cs) =
     (if path_char c then c else CHR ''_'') # sanitize_from n (drop (rune_len (c # cs)) (c # cs))"

definition sanitizePathPart :: "string \<Rightarrow> string" where
  "sanitizePathPart value = sanitize_from (length value) value"

record daemonPaths =
  dp_StateDir :: string
  dp_PIDFile :: string
  dp_LogFile :: string

text \<open>\<open>filepath.Abs\<close>, with what \<open>os.Getwd\<close> gives: a directory or an error.\<close>

definition abs_path :: "string + string \<Rightarrow> string \<Rightarrow> string + string" where
  "abs_path cwd path = (if has_prefix ''/'' path then Inr (clean_path path)
     else case cwd of Inl e \<Rightarrow> Inl e | Inr d \<Rightarrow> Inr (join_paths [d, path]))"

definition file_stem :: "config \<Rightarrow> string" where
  "file_stem c = ''server-'' @ sanitizePathPart (cg_Host c) @ ''-'' @ itoa (cg_Port c)"

definition or_default :: "string \<Rightarrow> string \<Rightarrow> string" where
  "or_default v fallback = (if v = [] then fallback else v)"

text \<open>The PID file found when neither it nor the host was given: \<open>missing\<close> says that a file does not
  exist, \<open>glob\<close> are the matches of a pattern.\<close>

definition discover_pid ::
  "(string \<Rightarrow> bool) \<Rightarrow> (string \<Rightarrow> string list) \<Rightarrow> string + string \<Rightarrow> bool \<Rightarrow> config \<Rightarrow> daemonPaths \<Rightarrow> string + daemonPaths" where
  "discover_pid missing glob cwd explicit c ps =
     (if \<not> explicit \<and> missing (dp_PIDFile ps) then
        (case glob (join_paths [dp_StateDir ps, ''server-*-'' @ itoa (cg_Port c) @ ''.pid'']) of
           [] \<Rightarrow> Inr ps
         | [m] \<Rightarrow> (let pid = (case abs_path cwd m of Inr p \<Rightarrow> p | Inl e \<Rightarrow> []) in
             Inr (ps\<lparr>dp_PIDFile := pid,
               dp_LogFile := (if cg_LogFile c = [] then trim_suffix ''.pid'' pid @ ''.log'' else dp_LogFile ps)\<rparr>))
         | ms \<Rightarrow> Inl (''multiple PID files match port '' @ itoa (cg_Port c) @ ''; specify --host or --pid-file: '' @ join '', '' ms))
      else Inr ps)"

definition resolveDaemonPaths ::
  "string option \<Rightarrow> string + string \<Rightarrow> (string \<Rightarrow> bool) \<Rightarrow> (string \<Rightarrow> string list) \<Rightarrow> bool \<Rightarrow> bool \<Rightarrow> config \<Rightarrow> string + daemonPaths" where
  "resolveDaemonPaths home cwd missing glob hostExplicit pidExplicit c =
     (case abs_path cwd (expandHome home (cg_StateDir c)) of
        Inl e \<Rightarrow> Inl e
      | Inr state \<Rightarrow>
          (case abs_path cwd (expandHome home (or_default (cg_PIDFile c) (join_paths [state, file_stem c @ ''.pid'']))) of
             Inl e \<Rightarrow> Inl e
           | Inr pid \<Rightarrow>
               (case abs_path cwd (expandHome home (or_default (cg_LogFile c) (join_paths [state, file_stem c @ ''.log'']))) of
                  Inl e \<Rightarrow> Inl e
                | Inr lf \<Rightarrow> discover_pid missing glob cwd (hostExplicit \<or> pidExplicit) c
                    \<lparr>dp_StateDir = state, dp_PIDFile = pid, dp_LogFile = lf\<rparr>)))"

fun flagProvided :: "string list \<Rightarrow> string \<Rightarrow> bool" where
  "flagProvided [] name = False"
| "flagProvided (a # args) name =
     (a = ''--'' @ name \<or> has_prefix (''--'' @ name @ ''='') a \<or> flagProvided args name)"

section \<open>PID files\<close>

type_synonym files = "string \<Rightarrow> string option"

definition readPID :: "files \<Rightarrow> string \<Rightarrow> int" where
  "readPID fs path = (case fs path of
       None \<Rightarrow> 0
     | Some data \<Rightarrow> (let pid = fst (atoi (trim_space data)) in if pid < 1 then 0 else pid))"

text \<open>A temporary file renamed over the old one; an error of either leaves the old one.\<close>

definition writePID :: "string option \<Rightarrow> string \<Rightarrow> int \<Rightarrow> files \<Rightarrow> string option \<times> files" where
  "writePID err path pid fs = (case err of
       Some e \<Rightarrow> (Some e, fs)
     | None \<Rightarrow> (None, fs(path \<mapsto> itoa pid @ ''\<newline>'')))"

definition removeMatchingPID :: "string \<Rightarrow> int \<Rightarrow> files \<Rightarrow> files" where
  "removeMatchingPID path pid fs = (if readPID fs path = pid then fs(path := None) else fs)"

text \<open>\<open>waitProcessExit\<close>: whether the process lives at each look before the deadline, and at the last.\<close>

fun waitProcessExit :: "bool list \<Rightarrow> bool \<Rightarrow> bool" where
  "waitProcessExit [] alive = (\<not> alive)"
| "waitProcessExit (a # looks) alive = (if \<not> a then True else waitProcessExit looks alive)"

section \<open>Commands\<close>

text \<open>A child is started with arguments and variables added to the environment.\<close>

datatype daemon_effect = Spawn "string list" "(string \<times> string) list" | Terminate int | ForceKill int

text \<open>\<open>start\<close>: the answers of the environment, in the order they are asked for.\<close>

record start_env =
  st_preflight :: "go_error option"
  st_alive :: "int \<Rightarrow> bool"
  st_mkdir :: "string \<Rightarrow> string option"
  st_openLog :: "string option"
  st_executable :: "string option"   \<comment> \<open>the error of \<open>os.Executable\<close>\<close>
  st_child :: "string + int"         \<comment> \<open>the error of starting, or the PID\<close>
  st_write :: "string option"

definition base_dir :: "string \<Rightarrow> string" where
  "base_dir path = clean_path (rev (dropWhile (\<lambda>c. c \<noteq> CHR ''/'') (rev path)))"

definition first_error :: "string option list \<Rightarrow> string option" where
  "first_error es = (case filter (\<lambda>e. e \<noteq> None) es of [] \<Rightarrow> None | e # _ \<Rightarrow> e)"

definition child_env :: "config \<Rightarrow> (string \<times> string) list" where
  "child_env c = (if cg_APIKey c \<noteq> [] then [(setting ''API_KEY'', cg_APIKey c)] else [])"

definition spawn_daemon :: "start_env \<Rightarrow> config \<Rightarrow> daemonPaths \<Rightarrow> files \<Rightarrow> (string + int) \<times> daemon_effect list \<times> files" where
  "spawn_daemon env c ps fs =
     (case first_error (map (st_mkdir env) [dp_StateDir ps, base_dir (dp_PIDFile ps), base_dir (dp_LogFile ps)]
          @ [st_openLog env, st_executable env]) of
        Some e \<Rightarrow> (Inl e, [], fs)
      | None \<Rightarrow> (case st_child env of
          Inl e \<Rightarrow> (Inl e, [], fs)
        | Inr pid \<Rightarrow> (let spawn = Spawn (''daemon-run'' # serverCommandArgs True c) (child_env c) in
            case writePID (st_write env) (dp_PIDFile ps) pid fs of
              (Some e, fs) \<Rightarrow> (Inl e, [spawn, ForceKill pid], fs)
            | (None, fs) \<Rightarrow> (Inr pid, [spawn], fs))))"

definition startDaemon :: "start_env \<Rightarrow> config \<Rightarrow> daemonPaths \<Rightarrow> files \<Rightarrow> (string + int) \<times> daemon_effect list \<times> files" where
  "startDaemon env c ps fs = (case st_preflight env of
       Some e \<Rightarrow> (Inl (preflightAuthError e), [], fs)
     | None \<Rightarrow> (let pid = readPID fs (dp_PIDFile ps) in
         if 0 < pid \<and> st_alive env pid
         then (Inl (''already running with PID '' @ itoa pid @ '' ('' @ dp_PIDFile ps @ '')''), [], fs)
         else spawn_daemon env c ps (if 0 < pid then fs(dp_PIDFile ps := None) else fs)))"

text \<open>\<open>stop\<close>: what came of it.  The files may change while it waits: \<open>sp_later\<close> are those it sees then.\<close>

record stop_env =
  sp_alive :: bool
  sp_terminate :: "string option"
  sp_looks :: "bool list"
  sp_last :: bool
  sp_kill :: "string option"
  sp_later :: "files \<Rightarrow> files"

datatype stopped = NotRunning | RemovedStale int | Stopped int | Killed int

definition stopDaemon :: "stop_env \<Rightarrow> daemonPaths \<Rightarrow> files \<Rightarrow> (string + stopped) \<times> daemon_effect list \<times> files" where
  "stopDaemon env ps fs = (let pid = readPID fs (dp_PIDFile ps); remove = removeMatchingPID (dp_PIDFile ps) pid in
     if pid = 0 then (Inr NotRunning, [], fs)
     else if \<not> sp_alive env then (Inr (RemovedStale pid), [], remove fs)
     else case sp_terminate env of
       Some e \<Rightarrow> (Inl e, [Terminate pid], fs)
     | None \<Rightarrow>
         if waitProcessExit (sp_looks env) (sp_last env) then (Inr (Stopped pid), [Terminate pid], remove (sp_later env fs))
         else (case sp_kill env of
             Some e \<Rightarrow> (Inl e, [Terminate pid, ForceKill pid], sp_later env fs)
           | None \<Rightarrow> (Inr (Killed pid), [Terminate pid, ForceKill pid], remove (sp_later env fs))))"

definition statusDaemon :: "(int \<Rightarrow> bool) \<Rightarrow> daemonPaths \<Rightarrow> files \<Rightarrow> string" where
  "statusDaemon alive ps fs = (let pid = readPID fs (dp_PIDFile ps) in
     if pid = 0 then ''stopped. PID file: '' @ dp_PIDFile ps
     else (if alive pid then ''running'' else ''stale'') @ '': PID '' @ itoa pid @ ''\<newline>PID file: '' @ dp_PIDFile ps
       @ ''\<newline>Log file: '' @ dp_LogFile ps)"

subsection \<open>The command line of the daemon commands\<close>

definition daemon_flags :: "bool \<Rightarrow> (string \<times> run_vars go_flag) list" where
  "daemon_flags starting = common_flags @ stop_flag
     @ [(''state-dir'', StringVar (\<lambda>x. on_cfg (\<lambda>c. c\<lparr>cg_StateDir := x\<rparr>))),
        (''pid-file'', StringVar (\<lambda>x. on_cfg (\<lambda>c. c\<lparr>cg_PIDFile := x\<rparr>))),
        (''log-file'', StringVar (\<lambda>x. on_cfg (\<lambda>c. c\<lparr>cg_LogFile := x\<rparr>)))]
     @ (if starting then server_flags else [])"

definition daemon_invalid :: command_error where
  "daemon_invalid = CommandError ''port, timeout, storage, concurrency, retries, or stop-timeout is invalid''"

text \<open>The settings of a daemon command, checked.\<close>

definition finish_daemon :: "bool \<Rightarrow> run_vars \<Rightarrow> command_error + config" where
  "finish_daemon starting v = (let
     c = rv_cfg v;
     c = (if starting then c\<lparr>cg_Timeout := duration_of (rv_timeout v)\<rparr> else c)
     in if cg_Port c < 1 \<or> 65535 < cg_Port c \<or> float_le_zero (rv_stopTimeout v) \<or> cg_Timeout c \<le> 0 \<or> cg_MaxStored c < 0
           \<or> cg_Concurrency c < 0 \<or> cg_MaxRetries c < 0
        then Inl daemon_invalid
        else Inr (c\<lparr>cg_StopTimeout := duration_of (rv_stopTimeout v)\<rparr>))"

definition daemon_settings ::
  "bool \<Rightarrow> (string \<Rightarrow> string) \<Rightarrow> string option \<Rightarrow> (string \<Rightarrow> config_read) \<Rightarrow> string list \<Rightarrow> (command_error + config) option" where
  "daemon_settings starting env home files args = (case loadResolvedConfig env home files args of
       Inl e \<Rightarrow> Some (Inl (CommandError e))
     | Inr (cfg, path) \<Rightarrow> (case parse_flags (daemon_flags starting) args (start_vars cfg path) of
         Inl ErrHelp \<Rightarrow> None
       | Inl e \<Rightarrow> Some (Inl (FlagError e))
       | Inr v \<Rightarrow> Some (finish_daemon starting v)))"

text \<open>What a daemon command goes on to: \<open>None\<close> is the help.\<close>

datatype daemon_plan = StartDaemon config daemonPaths | StopDaemon daemonPaths int | StatusDaemon daemonPaths

definition runDaemonCommand ::
  "(string \<Rightarrow> string) \<Rightarrow> string option \<Rightarrow> (string \<Rightarrow> config_read) \<Rightarrow> string + string \<Rightarrow> (string \<Rightarrow> bool) \<Rightarrow> (string \<Rightarrow> string list)
    \<Rightarrow> string \<Rightarrow> string list \<Rightarrow> (command_error + daemon_plan) option" where
  "runDaemonCommand env home files cwd missing glob command args =
     (case daemon_settings (command = ''start'') env home files args of
        None \<Rightarrow> None
      | Some (Inl e) \<Rightarrow> Some (Inl e)
      | Some (Inr c) \<Rightarrow> Some
          (case resolveDaemonPaths home cwd missing glob (flagProvided args ''host'') (flagProvided args ''pid-file'') c of
             Inl e \<Rightarrow> Inl (CommandError e)
           | Inr ps \<Rightarrow> Inr (if command = ''start'' then StartDaemon c ps
               else if command = ''stop'' then StopDaemon ps (cg_StopTimeout c) else StatusDaemon ps)))"

section \<open>The supervisor\<close>

definition initialRestartDelay :: int where
  "initialRestartDelay = second_ns"

definition maxRestartDelay :: int where
  "maxRestartDelay = 30 * second_ns"

definition healthyRunDuration :: int where
  "healthyRunDuration = 30 * second_ns"

definition nextRestartDelay :: "int \<Rightarrow> int \<Rightarrow> int" where
  "nextRestartDelay current runtime =
     (if healthyRunDuration \<le> runtime then initialRestartDelay
      else (let next_delay = wrap64 (current * 2) in if maxRestartDelay < next_delay then maxRestartDelay else next_delay))"

text \<open>What every child is started with.\<close>

definition supervised_args :: "config \<Rightarrow> string list" where
  "supervised_args c = ''serve'' # serverCommandArgs False c"

text \<open>A turn of the loop: the child cannot be started; a signal comes while it runs, and it exits in time or
  not; or it exits after a duration, and a signal comes during the delay or not.\<close>

datatype sup_event = StartFails string | SignalRunning bool | ChildExits int bool

datatype sup_end = SupFailed string | SupStopped | SupKilled

text \<open>The delays waited, and how the loop ends; \<open>None\<close> is that the events are over and it still runs.\<close>

fun runSupervised :: "int \<Rightarrow> sup_event list \<Rightarrow> int list \<times> sup_end option" where
  "runSupervised restartDelay [] = ([], None)"
| "runSupervised restartDelay (ev # evs) = (case ev of
       StartFails e \<Rightarrow> ([], Some (SupFailed e))
     | SignalRunning in_time \<Rightarrow> ([], Some (if in_time then SupStopped else SupKilled))
     | ChildExits runtime signalled \<Rightarrow>
         (let delay = (if healthyRunDuration \<le> runtime then initialRestartDelay else restartDelay);
              restartDelay = nextRestartDelay delay runtime in
          if signalled then ([delay], Some SupStopped)
          else apfst (Cons delay) (runSupervised restartDelay evs)))"

section \<open>Laws\<close>

subsection \<open>The settings of the child\<close>

text \<open>A duration that survives being written in seconds and read back; a parameter list that survives
  being joined and split.\<close>

definition exact_duration :: "int \<Rightarrow> bool" where
  "exact_duration d = (case parse_float (formatSeconds d) of FNum x \<Rightarrow> 0 < x \<and> duration_of (FNum x) = d | _ \<Rightarrow> False)"

lemma exact_durationE:
  assumes "exact_duration d"
  obtains x where "parse_float (formatSeconds d) = FNum x" "0 < x" "duration_of (FNum x) = d"
  using assms by (auto simp: exact_duration_def split: float_text.splits)

lemma exact_whole_seconds:
  assumes "0 < n" "n < 10 ^ 6"
  shows "exact_duration (n * 1000000000)"
proof -
  obtain ds dp where "shortest_decimal (of_int n) = (ds, dp)"
    by fastforce
  then have "parse_float (formatSeconds (n * 1000000000)) = FNum (of_int n)"
    using format_whole [of n] assms seconds_of_whole [OF assms] by (simp add: formatSeconds_def)
  then show ?thesis
    unfolding exact_duration_def using duration_of_whole [OF assms] assms(1) by simp
qed

text \<open>A duration in seconds does not look like a flag.\<close>

lemma parse_float_dashes: "parse_float (CHR ''-'' # CHR ''-'' # r) = FSyntax"
  by (simp add: parse_float_def split_sign_def to_lower_def lower_char_def scan_mantissa_def is_digit_def digit_val_def digits10_def)

definition flag_like :: "string \<Rightarrow> bool" where
  "flag_like a = has_prefix ''--'' a"

lemma flag_likeE: "flag_like a \<Longrightarrow> (\<And>r. a = CHR ''-'' # CHR ''-'' # r \<Longrightarrow> P) \<Longrightarrow> P"
  unfolding flag_like_def by (cases a; cases "tl a") auto

lemma exact_not_flag: "exact_duration d \<Longrightarrow> \<not> flag_like (formatSeconds d)"
  by (auto simp: exact_duration_def parse_float_dashes elim: flag_likeE)

lemma itoa_not_flag: "\<not> flag_like (itoa n)"
proof
  assume "flag_like (itoa n)"
  then obtain r where r: "itoa n = CHR ''-'' # CHR ''-'' # r"
    by (rule flag_likeE)
  have h: "hd (show_nat m) \<noteq> CHR ''-''" for m
    using hd_show_nat [of m] by simp
  show False
  proof (cases "n < 0")
    case True
    then have "show_nat (nat (- n)) = CHR ''-'' # r"
      using r by (simp add: itoa_def)
    then show False
      using h [of "nat (- n)"] by simp
  next
    case False
    then have "show_nat (nat n) = CHR ''-'' # CHR ''-'' # r"
      using r by (simp add: itoa_def)
    then show False
      using h [of "nat n"] by simp
  qed
qed

lemma config_flag_like: "has_prefix ''--config='' a \<Longrightarrow> flag_like a"
  unfolding flag_like_def by (cases a; cases "tl a") auto

definition no_config :: "string \<Rightarrow> bool" where
  "no_config a = (a \<noteq> ''--config'' \<and> \<not> has_prefix ''--config='' a)"

lemma no_config_args: "list_all no_config args \<Longrightarrow> configPathFromArgs args = []"
  by (induction args) (auto simp: no_config_def)

lemma not_flag_no_config: "\<not> flag_like a \<Longrightarrow> no_config a"
  using config_flag_like [of a] by (auto simp: no_config_def flag_like_def)

definition plain_params :: "string list \<Rightarrow> bool" where
  "plain_params ps \<longleftrightarrow> (\<forall>p\<in>set ps. p \<noteq> [] \<and> trim_space p = p \<and> CHR '','' \<notin> set p)"

lemma splitParamList_join: "ps \<noteq> [] \<Longrightarrow> plain_params ps \<Longrightarrow> splitParamList (join '','' ps) = ps"
proof -
  assume a: "ps \<noteq> []" "plain_params ps"
  then have "split_on (CHR '','') (join '','' ps) = ps"
    by (intro split_on_join) (auto simp: plain_params_def)
  moreover have "map trim_space ps = ps" "filter (\<lambda>v. v \<noteq> []) ps = ps"
    using a(2) by (auto simp: plain_params_def intro: map_idI filter_True)
  ultimately show ?thesis
    by (simp add: splitParamList_def)
qed

lemma join_nonempty: "ps \<noteq> [] \<Longrightarrow> plain_params ps \<Longrightarrow> join sep ps \<noteq> []"
  by (cases ps rule: list.exhaust; cases "tl ps") (auto simp: plain_params_def)

definition good_config :: "bool \<Rightarrow> config \<Rightarrow> bool" where
  "good_config supervised c \<longleftrightarrow> (if supervised then 1 else 0) \<le> cg_Port c \<and> cg_Port c \<le> 65535
     \<and> 0 \<le> cg_MaxStored c \<and> in_int64 (cg_MaxStored c) \<and> 0 \<le> cg_Concurrency c \<and> in_int64 (cg_Concurrency c)
     \<and> 0 \<le> cg_MaxRetries c \<and> in_int64 (cg_MaxRetries c)
     \<and> exact_duration (cg_Timeout c) \<and> (if supervised then exact_duration (cg_StopTimeout c) else True) \<and> plain_params (cg_DropParams c)"

text \<open>The settings of a child that loads \<open>own\<close> and is given \<open>c\<close> on its command line.\<close>

definition handed_on :: "bool \<Rightarrow> config \<Rightarrow> config \<Rightarrow> config" where
  "handed_on supervised c own = own\<lparr>cg_Host := cg_Host c, cg_Port := cg_Port c, cg_BackendURL := cg_BackendURL c,
     cg_ClientVersion := cg_ClientVersion c, cg_AuthJSON := cg_AuthJSON c, cg_Timeout := cg_Timeout c,
     cg_MaxStored := cg_MaxStored c, cg_Concurrency := cg_Concurrency c, cg_MaxRetries := cg_MaxRetries c, cg_Model := cg_Model c,
     cg_Verbose := cg_Verbose c \<or> cg_Verbose own,
     cg_DropParams := (if cg_DropParams c \<noteq> [] then cg_DropParams c else cg_DropParams own),
     cg_StopTimeout := (if supervised then cg_StopTimeout c else duration_of (FNum (seconds_of (cg_StopTimeout own))))\<rparr>"

lemma flag_names:
  "flag_arg ''--host'' = FlagArg ''host'' None" "flag_arg ''--port'' = FlagArg ''port'' None"
  "flag_arg ''--backend-base-url'' = FlagArg ''backend-base-url'' None" "flag_arg ''--client-version'' = FlagArg ''client-version'' None"
  "flag_arg ''--auth-json'' = FlagArg ''auth-json'' None" "flag_arg ''--timeout'' = FlagArg ''timeout'' None"
  "flag_arg ''--max-stored-items'' = FlagArg ''max-stored-items'' None"
  "flag_arg ''--max-concurrent-requests'' = FlagArg ''max-concurrent-requests'' None"
  "flag_arg ''--max-retries'' = FlagArg ''max-retries'' None" "flag_arg ''--default-model'' = FlagArg ''default-model'' None"
  "flag_arg ''--stop-timeout'' = FlagArg ''stop-timeout'' None" "flag_arg ''--verbose'' = FlagArg ''verbose'' None"
  "flag_arg ''--drop-params'' = FlagArg ''drop-params'' None"
  by code_simp+

lemma set_string: "set_flag n x (StringVar g) v = Inr (g x v)"
  by (simp add: set_flag_def)

lemma set_int: "in_int64 i \<Longrightarrow> set_flag n (itoa i) (IntVar g) v = Inr (g i v)"
  by (simp add: set_flag_def parse_int0_itoa)

lemma set_float: "parse_float x = FNum y \<Longrightarrow> set_flag n x (Float64Var g) v = Inr (g (FNum y) v)"
  by (simp add: set_flag_def)

lemma run_flag_table:
  "map_of (run_flags b) ''host'' = Some (StringVar (\<lambda>x. on_cfg (\<lambda>c. c\<lparr>cg_Host := x\<rparr>)))"
  "map_of (run_flags b) ''port'' = Some (IntVar (\<lambda>x. on_cfg (\<lambda>c. c\<lparr>cg_Port := x\<rparr>)))"
  "map_of (run_flags b) ''backend-base-url'' = Some (StringVar (\<lambda>x. on_cfg (\<lambda>c. c\<lparr>cg_BackendURL := x\<rparr>)))"
  "map_of (run_flags b) ''client-version'' = Some (StringVar (\<lambda>x. on_cfg (\<lambda>c. c\<lparr>cg_ClientVersion := x\<rparr>)))"
  "map_of (run_flags b) ''auth-json'' = Some (StringVar (\<lambda>x. on_cfg (\<lambda>c. c\<lparr>cg_AuthJSON := x\<rparr>)))"
  "map_of (run_flags b) ''timeout'' = Some (Float64Var (\<lambda>x v. v\<lparr>rv_timeout := x\<rparr>))"
  "map_of (run_flags b) ''max-stored-items'' = Some (IntVar (\<lambda>x. on_cfg (\<lambda>c. c\<lparr>cg_MaxStored := x\<rparr>)))"
  "map_of (run_flags b) ''max-concurrent-requests'' = Some (IntVar (\<lambda>x. on_cfg (\<lambda>c. c\<lparr>cg_Concurrency := x\<rparr>)))"
  "map_of (run_flags b) ''max-retries'' = Some (IntVar (\<lambda>x. on_cfg (\<lambda>c. c\<lparr>cg_MaxRetries := x\<rparr>)))"
  "map_of (run_flags b) ''default-model'' = Some (StringVar (\<lambda>x. on_cfg (\<lambda>c. c\<lparr>cg_Model := x\<rparr>)))"
  "map_of (run_flags True) ''stop-timeout'' = Some (Float64Var (\<lambda>x v. v\<lparr>rv_stopTimeout := x\<rparr>))"
  "map_of (run_flags b) ''verbose'' = Some (BoolVar (\<lambda>x. on_cfg (\<lambda>c. c\<lparr>cg_Verbose := x\<rparr>)))"
  "map_of (run_flags b) ''drop-params'' = Some (StringVar (\<lambda>x v. v\<lparr>rv_dropParams := x\<rparr>))"
  by (cases b; simp add: run_flags_def common_flags_def server_flags_def stop_flag_def)+

lemmas read_flag = parse_value [OF flag_names(1) run_flag_table(1)] parse_value [OF flag_names(2) run_flag_table(2)]
  parse_value [OF flag_names(3) run_flag_table(3)] parse_value [OF flag_names(4) run_flag_table(4)]
  parse_value [OF flag_names(5) run_flag_table(5)] parse_value [OF flag_names(6) run_flag_table(6)]
  parse_value [OF flag_names(7) run_flag_table(7)] parse_value [OF flag_names(8) run_flag_table(8)]
  parse_value [OF flag_names(9) run_flag_table(9)] parse_value [OF flag_names(10) run_flag_table(10)]
  parse_value [OF flag_names(11) run_flag_table(11)] parse_switch [OF flag_names(12) run_flag_table(12)]
  parse_value [OF flag_names(13) run_flag_table(13)]

text \<open>Reading the command line, from its end.\<close>

lemma read_drop_params:
  "parse_flags (run_flags b) (if ps \<noteq> [] then [''--drop-params'', join '','' ps] else []) v
     = Inr (if ps \<noteq> [] then v\<lparr>rv_dropParams := join '','' ps\<rparr> else v)"
  by (simp add: read_flag(13) [OF _ set_string] is_bool_flag_def del: parse_flags.simps(2))

lemma read_verbose:
  "parse_flags (run_flags b) ((if v0 then [''--verbose''] else []) @ rest) v
     = parse_flags (run_flags b) rest (if v0 then on_cfg (\<lambda>c. c\<lparr>cg_Verbose := True\<rparr>) v else v)"
  by (simp add: read_flag(12) del: parse_flags.simps(2))

lemma read_stop:
  assumes "b \<Longrightarrow> parse_float t = FNum x"
  shows "parse_flags (run_flags b) ((if b then [''--stop-timeout'', t] else []) @ rest) v
     = parse_flags (run_flags b) rest (if b then v\<lparr>rv_stopTimeout := FNum x\<rparr> else v)"
  using assms by (cases b) (simp_all add: read_flag(11) [OF _ set_float] is_bool_flag_def del: parse_flags.simps(2))

lemma read_fixed:
  assumes "in_int64 (cg_Port c)" "in_int64 (cg_MaxStored c)" "in_int64 (cg_Concurrency c)" "in_int64 (cg_MaxRetries c)"
    and "parse_float (formatSeconds (cg_Timeout c)) = FNum x"
  shows "parse_flags (run_flags b)
     ([''--host'', cg_Host c, ''--port'', itoa (cg_Port c), ''--backend-base-url'', cg_BackendURL c,
      ''--client-version'', cg_ClientVersion c, ''--auth-json'', cg_AuthJSON c, ''--timeout'', formatSeconds (cg_Timeout c),
      ''--max-stored-items'', itoa (cg_MaxStored c), ''--max-concurrent-requests'', itoa (cg_Concurrency c),
      ''--max-retries'', itoa (cg_MaxRetries c), ''--default-model'', cg_Model c] @ rest) v
     = parse_flags (run_flags b) rest (v\<lparr>rv_timeout := FNum x,
         rv_cfg := (rv_cfg v)\<lparr>cg_Host := cg_Host c, cg_Port := cg_Port c, cg_BackendURL := cg_BackendURL c,
           cg_ClientVersion := cg_ClientVersion c, cg_AuthJSON := cg_AuthJSON c, cg_MaxStored := cg_MaxStored c,
           cg_Concurrency := cg_Concurrency c, cg_MaxRetries := cg_MaxRetries c, cg_Model := cg_Model c\<rparr>\<rparr>)"
  by (simp add: read_flag(1,3,4,5,10) [OF _ set_string] read_flag(2) [OF _ set_int [OF assms(1)]]
      read_flag(7) [OF _ set_int [OF assms(2)]] read_flag(8) [OF _ set_int [OF assms(3)]]
      read_flag(9) [OF _ set_int [OF assms(4)]] read_flag(6) [OF _ set_float [OF assms(5)]] is_bool_flag_def on_cfg_def
      del: parse_flags.simps(2))

text \<open>What makes the settings of the child: the flags parsed, then checked.\<close>

lemma read_server_args:
  assumes c: "good_config b c" and t: "parse_float (formatSeconds (cg_Timeout c)) = FNum x"
    and s: "b \<Longrightarrow> parse_float (formatSeconds (cg_StopTimeout c)) = FNum y"
  shows "\<exists>v. parse_flags (run_flags b) (serverCommandArgs b c) (start_vars own path) = Inr v
     \<and> rv_timeout v = FNum x \<and> rv_stopTimeout v = FNum (if b then y else seconds_of (cg_StopTimeout own))
     \<and> rv_dropParams v = (if cg_DropParams c \<noteq> [] then join '','' (cg_DropParams c) else [])
     \<and> rv_cfg v = own\<lparr>cg_Host := cg_Host c, cg_Port := cg_Port c, cg_BackendURL := cg_BackendURL c,
          cg_ClientVersion := cg_ClientVersion c, cg_AuthJSON := cg_AuthJSON c, cg_MaxStored := cg_MaxStored c,
          cg_Concurrency := cg_Concurrency c, cg_MaxRetries := cg_MaxRetries c, cg_Model := cg_Model c,
          cg_Verbose := cg_Verbose c \<or> cg_Verbose own\<rparr>"
proof -
  have ints: "in_int64 (cg_Port c)" "in_int64 (cg_MaxStored c)" "in_int64 (cg_Concurrency c)" "in_int64 (cg_MaxRetries c)"
    using c by (auto simp: good_config_def in_int64_def min_int64_def max_int64_def split: if_splits)
  have stop: "parse_flags (run_flags b) ((if b then [''--stop-timeout'', formatSeconds (cg_StopTimeout c)] else []) @ rest) v
      = parse_flags (run_flags b) rest (if b then v\<lparr>rv_stopTimeout := FNum y\<rparr> else v)" for rest v
    by (rule read_stop) (rule s)
  show ?thesis
    unfolding serverCommandArgs_def append_assoc read_fixed [OF ints t] stop read_verbose read_drop_params
    by (simp add: start_vars_def on_cfg_def)
qed

text \<open>Without parameters to drop the child keeps those it loads itself.\<close>

lemma handed_on_checked:
  assumes c: "good_config b c" and own: "b \<or> 0 < seconds_of (cg_StopTimeout own)"
    and v: "rv_timeout v = FNum x" "0 < x" "duration_of (FNum x) = cg_Timeout c"
      "rv_stopTimeout v = FNum (if b then y else seconds_of (cg_StopTimeout own))"
      "b \<Longrightarrow> 0 < y \<and> duration_of (FNum y) = cg_StopTimeout c"
      "rv_dropParams v = (if cg_DropParams c \<noteq> [] then join '','' (cg_DropParams c) else [])"
      "rv_cfg v = own\<lparr>cg_Host := cg_Host c, cg_Port := cg_Port c, cg_BackendURL := cg_BackendURL c,
          cg_ClientVersion := cg_ClientVersion c, cg_AuthJSON := cg_AuthJSON c, cg_MaxStored := cg_MaxStored c,
          cg_Concurrency := cg_Concurrency c, cg_MaxRetries := cg_MaxRetries c, cg_Model := cg_Model c,
          cg_Verbose := cg_Verbose c \<or> cg_Verbose own\<rparr>"
  shows "finish_run b v = Inr (handed_on b c own)"
proof -
  have "splitParamList (join '','' (cg_DropParams c)) = cg_DropParams c" "join '','' (cg_DropParams c) \<noteq> []" if "cg_DropParams c \<noteq> []"
    using c that by (simp_all add: splitParamList_join join_nonempty good_config_def)
  then show ?thesis
    using c own v by (cases b) (auto simp: finish_run_def handed_on_def good_config_def float_le_zero_def)
qed

text \<open>The path of the configuration is not handed on.\<close>

lemma no_config_path:
  assumes "\<not> flag_like (cg_Host c)" "\<not> flag_like (cg_BackendURL c)" "\<not> flag_like (cg_ClientVersion c)"
    "\<not> flag_like (cg_AuthJSON c)" "\<not> flag_like (cg_Model c)" "\<not> flag_like (join '','' (cg_DropParams c))"
    and "exact_duration (cg_Timeout c)" "b \<Longrightarrow> exact_duration (cg_StopTimeout c)"
  shows "configPathFromArgs (serverCommandArgs b c) = []"
proof -
  have flags: "list_all no_config [''--host'', ''--port'', ''--backend-base-url'', ''--client-version'', ''--auth-json'', ''--timeout'',
      ''--max-stored-items'', ''--max-concurrent-requests'', ''--max-retries'', ''--default-model'', ''--stop-timeout'', ''--verbose'',
      ''--drop-params'']"
    by (simp add: no_config_def)
  have "list_all no_config (serverCommandArgs b c)"
    using flags assms(1-6) [THEN not_flag_no_config] assms(7,8) not_flag_no_config [OF exact_not_flag] not_flag_no_config [OF itoa_not_flag]
    by (simp add: serverCommandArgs_def)
  then show ?thesis
    by (rule no_config_args)
qed

subsection \<open>The supervisor's delays\<close>

text \<open>The number of short runs in a row at the end of some runs, and the delay after it.\<close>

definition short_runs :: "nat \<Rightarrow> int list \<Rightarrow> nat" where
  "short_runs k rs = fold (\<lambda>r k. if r < healthyRunDuration then Suc k else 0) rs k"

definition backed_off :: "nat \<Rightarrow> int" where
  "backed_off k = min (2 ^ k * second_ns) maxRestartDelay"

fun child_runs :: "sup_event list \<Rightarrow> int list" where
  "child_runs [] = []"
| "child_runs (ev # evs) = (case ev of
       ChildExits runtime signalled \<Rightarrow> runtime # (if signalled then [] else child_runs evs)
     | _ \<Rightarrow> [])"

fun restarted :: "sup_event \<Rightarrow> bool" where
  "restarted (ChildExits runtime signalled) = (\<not> signalled)"
| "restarted _ = False"

lemma backed_off_bounds: "second_ns \<le> backed_off k \<and> backed_off k \<le> maxRestartDelay"
proof -
  have "second_ns * 1 \<le> second_ns * 2 ^ k"
    by (intro mult_left_mono) (simp_all add: second_ns_def)
  then show ?thesis
    by (simp add: backed_off_def maxRestartDelay_def second_ns_def mult.commute)
qed

lemma nextRestartDelay_backed_off:
  "nextRestartDelay (backed_off k) r = backed_off (short_runs k [r])"
proof -
  have "backed_off k * 2 \<le> 60 * second_ns" "0 \<le> backed_off k * 2"
    using backed_off_bounds [of k] by (simp_all add: maxRestartDelay_def second_ns_def)
  then have "wrap64 (backed_off k * 2) = backed_off k * 2"
    by (intro wrap64_id) (simp_all add: in_int64_def second_ns_def min_int64_def max_int64_def)
  then show ?thesis
    by (auto simp: nextRestartDelay_def short_runs_def backed_off_def Let_def maxRestartDelay_def initialRestartDelay_def second_ns_def)
qed

lemma runSupervised_delays:
  "fst (runSupervised (backed_off k) evs)
     = map (\<lambda>i. backed_off (short_runs k (take (Suc i) (child_runs evs)) - 1)) [0..<length (child_runs evs)]"
proof (induction evs arbitrary: k)
  case (Cons ev evs)
  show ?case
  proof (cases ev)
    case (ChildExits r sig)
    define k1 where "k1 = (if r < healthyRunDuration then k else 0)"
    have d: "(if healthyRunDuration \<le> r then initialRestartDelay else backed_off k) = backed_off k1"
      by (simp add: k1_def backed_off_def initialRestartDelay_def maxRestartDelay_def second_ns_def)
    have s: "short_runs k (r # rs) = short_runs (short_runs k1 [r]) rs" "short_runs k1 [r] - 1 = k1" for rs
      by (simp_all add: short_runs_def k1_def)
    show ?thesis
      using Cons.IH [of "short_runs k1 [r]"]
      by (auto simp: ChildExits d nextRestartDelay_backed_off s map_upt_Suc Let_def simp del: upt_Suc)
         (simp_all add: short_runs_def k1_def)
  qed simp_all
qed simp

lemma runSupervised_end: "snd (runSupervised d evs) = None \<longleftrightarrow> list_all restarted evs"
  by (induction evs arbitrary: d) (auto split: sup_event.splits simp: Let_def)

subsection \<open>PID files read back\<close>

lemma digits_not_space: "list_all (\<lambda>c. list_all (\<lambda>w. hd w \<noteq> c \<and> last w \<noteq> c) space_seqs) digits10"
  by (simp add: space_seqs_def digits10_def)

lemma drop_seqs_none: "(\<And>w. w \<in> set ws \<Longrightarrow> w \<noteq> [] \<and> hd w \<noteq> c) \<Longrightarrow> drop_seqs n ws (c # s) = c # s"
proof (cases n)
  case (Suc k)
  assume w: "\<And>w. w \<in> set ws \<Longrightarrow> w \<noteq> [] \<and> hd w \<noteq> c"
  have "List.find (\<lambda>w. has_prefix w (c # s)) ws = None"
  proof -
    have "\<not> has_prefix u (c # s)" if u: "u \<in> set ws" for u
    proof -
      obtain a t where "u = a # t" "a \<noteq> c"
        using w [OF u] by (cases u) auto
      then show ?thesis
        by simp
    qed
    then show ?thesis
      by (simp add: find_None_iff)
  qed
  then show ?thesis
    by (simp add: Suc)
qed simp

lemma show_nat_digits: "c \<in> set (show_nat n) \<Longrightarrow> c \<in> set digits10"
proof -
  assume "c \<in> set (show_nat n)"
  then obtain d where "d < 10" "c = digit_char d"
    using show_nat_chars by blast
  then show ?thesis
    using nth_mem [of d digits10] unfolding digit_char_def by (simp only:) (simp add: digits10_def)
qed

lemma trim_space_pid:
  assumes "0 < n"
  shows "trim_space (itoa n @ ''\<newline>'') = itoa n"
proof -
  let ?s = "show_nat (nat n)"
  have s: "itoa n = ?s"
    using assms by (simp add: itoa_def)
  have ends: "w \<noteq> [] \<and> hd w \<noteq> c \<and> last w \<noteq> c" if "w \<in> set space_seqs" "c \<in> set ?s" for w c
    using digits_not_space show_nat_digits [OF that(2)] that(1) space_seqs_nonempty [OF that(1)] by (auto simp: list_all_iff)
  obtain c u where cu: "?s = c # u"
    by (cases ?s) auto
  have l: "trim_left (?s @ ''\<newline>'') = ?s @ ''\<newline>''"
    unfolding trim_left_def cu append_Cons by (rule drop_seqs_none) (use ends [of _ c] cu in auto)
  obtain d v where dv: "rev ?s = d # v"
    by (cases "rev ?s") auto
  then have d: "d \<in> set ?s"
    by (metis list.set_intros(1) set_rev)
  have r: "drop_seqs m (map rev space_seqs) (rev ?s) = rev ?s" for m
    unfolding dv by (rule drop_seqs_none) (use ends [OF _ d] in \<open>fastforce simp: hd_rev\<close>)
  have "List.find (\<lambda>w. has_prefix w (CHR ''\<newline>'' # rev ?s)) (map rev space_seqs) = Some ''\<newline>''"
    by (simp add: space_seqs_def)
  then have "drop_seqs (length (?s @ ''\<newline>'')) (map rev space_seqs) (rev (?s @ ''\<newline>'')) = rev ?s"
    using r by simp
  then show ?thesis
    unfolding s trim_space_def l Let_def by simp
qed

lemma readPID_written: "in_int64 pid \<Longrightarrow> 0 < pid \<Longrightarrow> readPID (fs(path \<mapsto> itoa pid @ ''\<newline>'')) path = pid"
  by (simp add: readPID_def trim_space_pid atoi_itoa)

lemma readPID_removed [simp]: "readPID (fs(path := None)) path = 0"
  by (simp add: readPID_def)

lemma readPID_nonneg: "0 \<le> readPID fs path"
  by (simp add: readPID_def Let_def split: option.split)

subsection \<open>The daemons of a PID file\<close>

text \<open>
  The files, the processes that live, the daemons among them that \<open>start\<close> has spawned for a PID file,
  and the files each waiting \<open>stop\<close> has seen.
\<close>

record daemon_world =
  dw_files :: files
  dw_live :: "int set"
  dw_daemons :: "int set"
  dw_stopping :: "files list"

definition started :: "string + int \<Rightarrow> int set" where
  "started r = (case r of Inr pid \<Rightarrow> {pid} | Inl e \<Rightarrow> {})"

text \<open>
  A \<open>start\<close> happens at once: the process it spawns is new, and one it kills is gone.  A \<open>stop\<close> begins
  by reading the files and ends after any number of other steps; it tells the truth about the process it
  waited for.  Processes come and go.
\<close>

inductive daemon_step :: "daemonPaths \<Rightarrow> daemon_world \<Rightarrow> daemon_world \<Rightarrow> bool" for ps where
  start: "startDaemon env c ps (dw_files w) = (r, effs, fs) \<Longrightarrow> st_alive env = (\<lambda>pid. pid \<in> dw_live w) \<Longrightarrow>
    (\<And>pid. st_child env = Inr pid \<Longrightarrow> 0 < pid \<and> in_int64 pid \<and> pid \<notin> dw_live w) \<Longrightarrow>
    daemon_step ps w (w\<lparr>dw_files := fs, dw_live := dw_live w \<union> started r, dw_daemons := dw_daemons w \<union> started r\<rparr>)"
| stop_begin: "daemon_step ps w (w\<lparr>dw_stopping := dw_files w # dw_stopping w\<rparr>)"
| stop_end: "fs0 \<in> set (dw_stopping w) \<Longrightarrow> stopDaemon env ps fs0 = (r, effs, fs) \<Longrightarrow> sp_later env fs0 = dw_files w \<Longrightarrow>
    effs \<noteq> [] \<Longrightarrow> sp_terminate env = None \<Longrightarrow>
    (\<And>pid. r = Inr (Stopped pid) \<or> r = Inr (Killed pid) \<Longrightarrow> pid \<notin> dw_live w) \<Longrightarrow>
    daemon_step ps w (w\<lparr>dw_files := fs, dw_stopping := remove1 fs0 (dw_stopping w)\<rparr>)"
| stop_at_once: "stopDaemon env ps (dw_files w) = (r, effs, fs) \<Longrightarrow> effs = [] \<or> sp_terminate env \<noteq> None \<Longrightarrow> sp_alive env = (readPID (dw_files w) (dp_PIDFile ps) \<in> dw_live w) \<Longrightarrow>
    daemon_step ps w (w\<lparr>dw_files := fs\<rparr>)"
| exits: "daemon_step ps w (w\<lparr>dw_live := dw_live w - {pid}, dw_daemons := dw_daemons w - {pid}\<rparr>)"
| other_process: "daemon_step ps w (w\<lparr>dw_live := insert pid (dw_live w)\<rparr>)"

definition one_daemon :: "daemonPaths \<Rightarrow> daemon_world \<Rightarrow> bool" where
  "one_daemon ps w \<longleftrightarrow> dw_daemons w \<subseteq> dw_live w \<and> (\<forall>pid\<in>dw_daemons w. 0 < pid \<and> readPID (dw_files w) (dp_PIDFile ps) = pid)"

text \<open>\<open>start\<close> spawns only when no living process is recorded, and then records the new one.\<close>

lemma spawn_daemon_files:
  assumes "spawn_daemon env c ps fs = (r, effs, fs')"
  shows "(\<exists>e. r = Inl e) \<and> fs' = fs \<or> (\<exists>pid. r = Inr pid \<and> st_child env = Inr pid \<and> fs' = fs(dp_PIDFile ps \<mapsto> itoa pid @ ''\<newline>''))"
  using assms by (cases "st_child env") (auto simp: spawn_daemon_def writePID_def Let_def split: option.splits, metis+)

lemma startDaemon_files:
  assumes "startDaemon env c ps fs = (r, effs, fs')"
  shows "(\<exists>e. r = Inl e) \<and> (fs' = fs \<or> fs' = fs(dp_PIDFile ps := None) \<and> \<not> st_alive env (readPID fs (dp_PIDFile ps)))
    \<or> (\<exists>pid g. r = Inr pid \<and> st_child env = Inr pid \<and> fs' = g(dp_PIDFile ps \<mapsto> itoa pid @ ''\<newline>'')
        \<and> (readPID fs (dp_PIDFile ps) = 0 \<or> \<not> st_alive env (readPID fs (dp_PIDFile ps))))"
proof (cases "st_preflight env")
  case None
  consider (live) "0 < readPID fs (dp_PIDFile ps)" "st_alive env (readPID fs (dp_PIDFile ps))"
    | (dead) "0 < readPID fs (dp_PIDFile ps)" "\<not> st_alive env (readPID fs (dp_PIDFile ps))"
    | (absent) "readPID fs (dp_PIDFile ps) = 0"
    using readPID_nonneg [of fs "dp_PIDFile ps"] by fastforce
  then show ?thesis
  proof cases
    case dead
    then have "spawn_daemon env c ps (fs(dp_PIDFile ps := None)) = (r, effs, fs')"
      using assms None by (simp add: startDaemon_def)
    then show ?thesis
      using spawn_daemon_files dead by blast
  next
    case absent
    then have "spawn_daemon env c ps fs = (r, effs, fs')"
      using assms None by (simp add: startDaemon_def)
    then show ?thesis
      using spawn_daemon_files absent by blast
  qed (use assms None in \<open>auto simp: startDaemon_def\<close>)
qed (use assms in \<open>auto simp: startDaemon_def\<close>)

text \<open>\<open>stop\<close> only ever removes the PID file, and only while it names the process it dealt with.\<close>

lemma stopDaemon_at_once:
  assumes "stopDaemon env ps fs = (r, effs, fs')" "effs = [] \<or> sp_terminate env \<noteq> None"
  shows "fs' = fs \<or> fs' = fs(dp_PIDFile ps := None) \<and> \<not> sp_alive env"
  using assms by (auto simp: stopDaemon_def removeMatchingPID_def Let_def split: option.splits if_splits)

lemma stopDaemon_waited:
  assumes "stopDaemon env ps fs = (r, effs, fs')" "effs \<noteq> []" "sp_terminate env = None"
  shows "fs' = sp_later env fs \<or>
    (\<exists>pid. fs' = (sp_later env fs)(dp_PIDFile ps := None) \<and> readPID (sp_later env fs) (dp_PIDFile ps) = pid
      \<and> (r = Inr (Stopped pid) \<or> r = Inr (Killed pid)))"
  using assms by (auto simp: stopDaemon_def removeMatchingPID_def Let_def split: option.splits if_splits)

lemma daemon_step_one_daemon:
  assumes "daemon_step ps w w'" "one_daemon ps w"
  shows "one_daemon ps w'"
  using assms
proof (cases rule: daemon_step.cases)
  case (start env c r effs fs)
  have none: "dw_daemons w = {}" if "readPID (dw_files w) (dp_PIDFile ps) = 0 \<or> readPID (dw_files w) (dp_PIDFile ps) \<notin> dw_live w"
    using assms(2) that by (fastforce simp: one_daemon_def)
  consider (failed) e where "r = Inl e" "fs = dw_files w"
    | (cleared) e where "r = Inl e" "fs = (dw_files w)(dp_PIDFile ps := None)" "\<not> st_alive env (readPID (dw_files w) (dp_PIDFile ps))"
    | (spawned) pid g where "r = Inr pid" "st_child env = Inr pid" "fs = g(dp_PIDFile ps \<mapsto> itoa pid @ ''\<newline>'')"
      "readPID (dw_files w) (dp_PIDFile ps) = 0 \<or> \<not> st_alive env (readPID (dw_files w) (dp_PIDFile ps))"
    using startDaemon_files [OF start(2)] by blast
  then show ?thesis
  proof cases
    case failed
    then show ?thesis
      using assms(2) by (simp add: start(1) one_daemon_def started_def)
  next
    case cleared
    have "dw_daemons w = {}"
      using none cleared(3) by (simp add: start(3))
    then show ?thesis
      by (simp add: start(1) cleared(1) one_daemon_def started_def)
  next
    case spawned
    then show ?thesis
      using none start(3) start(4) [OF spawned(2)] readPID_written [of pid g "dp_PIDFile ps"]
      by (auto simp: start(1) one_daemon_def started_def)
  qed
next
  case (stop_end fs0 env r effs fs)
  show ?thesis
    using stopDaemon_waited [OF stop_end(3)] stop_end assms(2) by (fastforce simp: one_daemon_def)
next
  case (stop_at_once env r effs fs)
  show ?thesis
    using stopDaemon_at_once [OF stop_at_once(2)] stop_at_once assms(2) by (fastforce simp: one_daemon_def)
qed (auto simp: one_daemon_def)

lemma daemon_steps_one_daemon: "(daemon_step ps)\<^sup>*\<^sup>* w0 w \<Longrightarrow> one_daemon ps w0 \<Longrightarrow> one_daemon ps w"
  by (induction rule: rtranclp_induct) (auto intro: daemon_step_one_daemon)

lemma daemon_once: "daemon_step ps w w' \<Longrightarrow> (daemon_step ps)\<^sup>*\<^sup>* w w'"
  by (rule r_into_rtranclp)

lemma daemon_more: "(daemon_step ps)\<^sup>*\<^sup>* w w' \<Longrightarrow> daemon_step ps w' w'' \<Longrightarrow> (daemon_step ps)\<^sup>*\<^sup>* w w''"
  by (rule rtranclp.rtrancl_into_rtrancl)

subsection \<open>Rooted paths\<close>

definition proper_segment :: "string \<Rightarrow> bool" where
  "proper_segment s = (s \<noteq> [] \<and> s \<noteq> ''.'' \<and> s \<noteq> ''..'' \<and> CHR ''/'' \<notin> set s)"

definition root_path :: "string list \<Rightarrow> string" where
  "root_path segs = CHR ''/'' # join ''/'' segs"

lemma clean_segments_proper:
  "list_all proper_segment acc \<Longrightarrow> \<forall>p\<in>set ps. CHR ''/'' \<notin> set p \<Longrightarrow> list_all proper_segment (clean_segments True acc ps)"
proof (induction ps arbitrary: acc)
  case (Cons p ps)
  then show ?case
    by (cases acc) (auto simp: proper_segment_def)
qed (simp add: list_all_iff)

lemma clean_segments_id: "list_all proper_segment ps \<Longrightarrow> clean_segments True acc ps = rev acc @ ps"
  by (induction ps arbitrary: acc) (auto simp: proper_segment_def)

lemma clean_rooted: "has_prefix ''/'' p \<Longrightarrow> \<exists>segs. list_all proper_segment segs \<and> clean_path p = root_path segs"
  using clean_segments_proper [of "[]" "split_on (CHR ''/'') p"] split_on_parts
  by (auto simp: clean_path_def root_path_def Let_def)

lemma split_joined:
  assumes "list_all proper_segment segs"
  shows "split_on (CHR ''/'') (join ''/'' segs) = (if segs = [] then [[]] else segs)"
  using assms by (auto simp: list_all_iff proper_segment_def intro: split_on_join)

lemma clean_root_path:
  assumes "list_all proper_segment segs"
  shows "clean_path (root_path segs) = root_path segs"
  using clean_segments_id [OF assms, of "[]"] by (simp add: clean_path_def root_path_def split_joined [OF assms])

lemma join_snoc: "join sep (xs @ [y]) = (if xs = [] then y else join sep xs @ sep @ y)"
  by (induction sep xs rule: join.induct) auto

lemma join_root_path:
  assumes "list_all proper_segment segs" "proper_segment s"
  shows "join_paths [root_path segs, s] = root_path (segs @ [s])"
proof -
  have "join ''/'' [root_path segs, s] = (if segs = [] then ''//'' @ s else root_path (segs @ [s]))"
    by (simp add: root_path_def join_snoc)
  moreover have "clean_path (''//'' @ s) = root_path [s]"
    using assms(2) by (simp add: clean_path_def root_path_def split_on_no_sep proper_segment_def)
  ultimately show ?thesis
    using clean_root_path [of "segs @ [s]"] assms by (auto simp: join_paths_def root_path_def proper_segment_def)
qed

lemma abs_path_rooted:
  assumes "abs_path cwd p = Inr q" "\<And>d. cwd = Inr d \<Longrightarrow> has_prefix ''/'' d"
  shows "\<exists>segs. list_all proper_segment segs \<and> q = root_path segs"
proof (cases "has_prefix ''/'' p")
  case False
  then obtain d where d: "cwd = Inr d" "q = join_paths [d, p]"
    using assms(1) by (auto simp: abs_path_def split: sum.splits)
  then obtain r where "d = CHR ''/'' # r"
    using assms(2) [of d] by (cases d) auto
  then have "q = clean_path (if p = [] then d else d @ ''/'' @ p)" "has_prefix ''/'' (if p = [] then d else d @ ''/'' @ p)"
    using d(2) by (simp_all add: join_paths_def)
  then show ?thesis
    using clean_rooted by metis
qed (use assms(1) clean_rooted in \<open>auto simp: abs_path_def\<close>)

lemma abs_root_path: "list_all proper_segment segs \<Longrightarrow> abs_path cwd (expandHome home (root_path segs)) = Inr (root_path segs)"
  using clean_root_path [of segs] by (simp add: abs_path_def expandHome_def root_path_def)

definition stem_char :: "char \<Rightarrow> bool" where
  "stem_char c = (path_char c \<or> c = CHR ''_'')"

lemma sanitize_chars: "list_all stem_char (sanitize_from n s)"
  by (induction n s rule: sanitize_from.induct) (auto simp: stem_char_def)

lemma plain_stem_chars: "list_all stem_char digits10" "list_all stem_char ''server-.pidlog''" "\<not> stem_char (CHR ''/'')"
  by (simp_all add: digits10_def stem_char_def path_char_def)

lemma itoa_chars: "list_all stem_char (itoa n)"
  using plain_stem_chars show_nat_digits by (auto simp: list_all_iff itoa_def)

lemma file_stem_chars: "list_all stem_char (file_stem c)" "\<exists>r. file_stem c = CHR ''s'' # CHR ''e'' # r"
  using plain_stem_chars sanitize_chars [of "length (cg_Host c)" "cg_Host c"] itoa_chars [of "cg_Port c"]
  by (auto simp: file_stem_def sanitizePathPart_def)

lemma stem_proper: "list_all stem_char (file_stem c @ e) \<Longrightarrow> proper_segment (file_stem c @ e)"
  using file_stem_chars(2) [of c] plain_stem_chars(3) by (auto simp: proper_segment_def list_all_iff)

section \<open>Correctness\<close>



text \<open>C40: The supervisor restarts its server until a signal comes or the server cannot be started.
  It waits before each restart as long as the run just over and the short runs directly before it demand: one
  second, doubled for each short run before it, at most thirty; a run of thirty seconds starts over.
\<close>

theorem supervisor_backs_off:
  "fst (runSupervised initialRestartDelay evs)
     = map (\<lambda>i. min (2 ^ (short_runs 0 (take (Suc i) (child_runs evs)) - 1) * second_ns) maxRestartDelay) [0..<length (child_runs evs)]
   \<and> set (fst (runSupervised initialRestartDelay evs)) \<subseteq> {second_ns..30 * second_ns}
   \<and> (snd (runSupervised initialRestartDelay evs) = None) = list_all restarted evs"
proof -
  have i: "initialRestartDelay = backed_off 0"
    by (simp add: backed_off_def initialRestartDelay_def maxRestartDelay_def second_ns_def)
  show ?thesis
    unfolding i runSupervised_delays runSupervised_end
    using backed_off_bounds by (auto simp: maxRestartDelay_def backed_off_def)
qed



text \<open>Without an explicit PID or log file the daemon keeps both directly in its state directory,
  whatever the host is: the name made of it has letters, digits, \<open>.\<close>, \<open>-\<close> and \<open>_\<close> only.  The PID file may
  instead be the only match of a pattern, which names files of the same directory.
\<close>

theorem daemon_files_in_state_dir:
  assumes "resolveDaemonPaths home cwd missing glob hostExplicit pidExplicit c = Inr ps"
    and "cg_PIDFile c = []" "cg_LogFile c = []" "\<And>d. cwd = Inr d \<Longrightarrow> has_prefix ''/'' d"
  shows "\<exists>segs. list_all proper_segment segs \<and> dp_StateDir ps = root_path segs \<and> list_all stem_char (file_stem c)
    \<and> (dp_PIDFile ps = root_path (segs @ [file_stem c @ ''.pid'']) \<and> dp_LogFile ps = root_path (segs @ [file_stem c @ ''.log''])
      \<or> \<not> hostExplicit \<and> \<not> pidExplicit
        \<and> (\<exists>m. glob (root_path (segs @ [''server-*-'' @ itoa (cg_Port c) @ ''.pid''])) = [m]
          \<and> dp_PIDFile ps = (case abs_path cwd m of Inr p \<Rightarrow> p | Inl e \<Rightarrow> [])))"
proof -
  obtain state where st: "abs_path cwd (expandHome home (cg_StateDir c)) = Inr state"
    using assms(1) by (auto simp: resolveDaemonPaths_def split: sum.splits)
  then obtain segs where segs: "list_all proper_segment segs" "state = root_path segs"
    using abs_path_rooted assms(4) by blast
  have proper: "proper_segment (file_stem c @ ''.pid'')" "proper_segment (file_stem c @ ''.log'')"
    using file_stem_chars(1) [of c] plain_stem_chars(2) by (auto intro: stem_proper)
  have pattern: "proper_segment (''server-*-'' @ itoa (cg_Port c) @ ''.pid'')"
    using itoa_chars [of "cg_Port c"] plain_stem_chars(3) by (auto simp: proper_segment_def list_all_iff)
  have files: "or_default (cg_PIDFile c) (join_paths [state, file_stem c @ ''.pid'']) = root_path (segs @ [file_stem c @ ''.pid''])"
    "or_default (cg_LogFile c) (join_paths [state, file_stem c @ ''.log'']) = root_path (segs @ [file_stem c @ ''.log''])"
    using assms(2,3) join_root_path [OF segs(1) proper(1)] join_root_path [OF segs(1) proper(2)] by (simp_all add: or_default_def segs(2))
  have seg_files: "list_all proper_segment (segs @ [file_stem c @ ''.pid''])" "list_all proper_segment (segs @ [file_stem c @ ''.log''])"
    using segs(1) proper by simp_all
  let ?ps = "\<lparr>dp_StateDir = root_path segs, dp_PIDFile = root_path (segs @ [file_stem c @ ''.pid'']),
    dp_LogFile = root_path (segs @ [file_stem c @ ''.log''])\<rparr>"
  have "discover_pid missing glob cwd (hostExplicit \<or> pidExplicit) c ?ps = Inr ps"
    using assms(1) unfolding resolveDaemonPaths_def st sum.case segs(2) files [unfolded segs(2)] abs_root_path [OF seg_files(1)] abs_root_path [OF seg_files(2)] sum.case .
  then have "dp_StateDir ps = root_path segs \<and> (ps = ?ps \<or> \<not> hostExplicit \<and> \<not> pidExplicit
      \<and> (\<exists>m. glob (join_paths [root_path segs, ''server-*-'' @ itoa (cg_Port c) @ ''.pid'']) = [m]
        \<and> dp_PIDFile ps = (case abs_path cwd m of Inr p \<Rightarrow> p | Inl e \<Rightarrow> [])))"
    by (auto simp: discover_pid_def Let_def split: if_splits list.splits)
  then show ?thesis
    using segs(1) file_stem_chars(1) [of c] join_root_path [OF segs(1) pattern] by (intro exI [of _ segs]) auto
qed

theorem daemon_files_in_state_dir_witness:
  "let c = (defaultConfig (\<lambda>n. []) (Some ''/h''))\<lparr>cg_StateDir := ''~/s/'', cg_Host := ''a/../b''\<rparr>
   in (case resolveDaemonPaths (Some ''/h'') (Inr ''/w'') (\<lambda>p. True) (\<lambda>p. []) True False c of
     Inr ps \<Rightarrow> dp_StateDir ps = ''/h/s'' \<and> dp_PIDFile ps = ''/h/s/server-a_.._b-18080.pid'' | Inl e \<Rightarrow> False)"
proof -
  let ?c = "(defaultConfig (\<lambda>n. []) (Some ''/h''))\<lparr>cg_StateDir := ''~/s/'', cg_Host := ''a/../b''\<rparr>"
  let ?ps = "\<lparr>dp_StateDir = ''/h/s'', dp_PIDFile = ''/h/s/server-a_.._b-18080.pid'', dp_LogFile = ''/h/s/server-a_.._b-18080.log''\<rparr>"
  have stem: "file_stem ?c = ''server-a_.._b-18080''"
    by (simp add: file_stem_def sanitizePathPart_def defaultConfig_def path_char_def rune_len_def itoa_def
        show_nat.simps digit_char_def digits10_def)
  have state: "expandHome (Some ''/h'') ''~/s/'' = ''/h/s''"
    by (simp add: expandHome_def join_paths_def clean_path_def trim_prefix_def)
  have c: "cg_StateDir ?c = ''~/s/''" "cg_PIDFile ?c = []" "cg_LogFile ?c = []"
    by (simp_all add: defaultConfig_def)
  have r: "resolveDaemonPaths (Some ''/h'') (Inr ''/w'') (\<lambda>p. True) (\<lambda>p. []) True False ?c = Inr ?ps"
    unfolding resolveDaemonPaths_def stem state c
    by (simp add: abs_path_def clean_path_def join_paths_def or_default_def expandHome_def discover_pid_def)
  have "list_all stem_char (file_stem ?c)"
    using daemon_files_in_state_dir [OF r] by (auto simp: defaultConfig_def)
  then show ?thesis
    unfolding Let_def r by simp
qed

end
