(* ===== verification/Status.thy ===== *)
theory Status
  imports Console Daemon
begin

text \<open>
  What the console shows and how logins join the pool (\<open>ui.go\<close>, \<open>accounts.go\<close>): the status page with the
  accounts as \<open>snapshot\<close> describes them, and the start of a device sign-in with the login it leaves behind.
\<close>

section \<open>Times as text\<close>

text \<open>\<open>Format(time.RFC3339)\<close> in UTC: the civil date of a number of days since 1970, in the calendar that
  repeats every 146097 days.\<close>

definition civil_from_days :: "int \<Rightarrow> int \<times> int \<times> int" where
  "civil_from_days day = (let
     z = day + 719468;
     era = z div 146097;
     doe = z mod 146097;
     yoe = (doe - doe div 1460 + doe div 36524 - doe div 146096) div 365;
     doy = doe - (365 * yoe + yoe div 4 - yoe div 100);
     mp = (5 * doy + 2) div 153;
     m = (if mp < 10 then mp + 3 else mp - 9)
     in (yoe + era * 400 + (if m \<le> 2 then 1 else 0), m, doy - (153 * mp + 2) div 5 + 1))"

definition padded :: "nat \<Rightarrow> int \<Rightarrow> string" where
  "padded n v = (let ds = show_nat (nat \<bar>v\<bar>) in
     (if v < 0 then ''-'' else []) @ replicate (n - length ds) (CHR ''0'') @ ds)"

definition rfc3339 :: "int \<Rightarrow> string" where
  "rfc3339 t = (let secs = unix_of t; s = secs mod 86400; (y, m, d) = civil_from_days (secs div 86400) in
     padded 4 y @ ''-'' @ padded 2 m @ ''-'' @ padded 2 d @ ''T''
       @ padded 2 (s div 3600) @ '':'' @ padded 2 (s div 60 mod 60) @ '':'' @ padded 2 (s mod 60) @ ''Z'')"

section \<open>The accounts\<close>

definition accountDir :: "string \<Rightarrow> string \<Rightarrow> string" where
  "accountDir primaryPath i =
     (if i = defaultAccountID then base_dir primaryPath else join_paths [base_dir primaryPath, ''accounts'', i])"

definition accountPath :: "string \<Rightarrow> string \<Rightarrow> string" where
  "accountPath primaryPath i =
     (if i = defaultAccountID then primaryPath else join_paths [accountDir primaryPath i, ''auth.json''])"

text \<open>What one account's entry is made from: the outcome of borrowing its credentials, the pool and the time
  when the lock is taken, and its file.\<close>

record snap_env =
  se_borrow :: "go_error + credentials"
  se_pool :: accountPool
  se_now :: int
  se_content :: "string option"

text \<open>A percentage that is no finite number has no JSON form.\<close>

definition percent_json :: "float_text \<Rightarrow> json" where
  "percent_json t = (case t of FNum x \<Rightarrow> JFloat x | _ \<Rightarrow> JNull)"

definition usage_fields :: "string \<Rightarrow> bool \<Rightarrow> float_text \<Rightarrow> int \<Rightarrow> obj" where
  "usage_fields name has_window percent reset_at =
     (if has_window then (name @ ''_used_percent'', percent_json percent)
        # (if reset_at \<noteq> zero_time then [(name @ ''_resets_at'', JStr (rfc3339 reset_at))] else [])
      else [])"

definition state_fields :: "string \<Rightarrow> int \<Rightarrow> bool \<Rightarrow> poolAccount \<Rightarrow> obj" where
  "state_fields path now enabled x =
     [(''id'', JStr (ac_id x)), (''path'', JStr path), (''enabled'', JBool enabled),
      (''in_flight'', JInt (ac_inflight x)), (''served'', JInt (ac_served x))]
     @ (if ac_lastUsed x \<noteq> zero_time then [(''last_used'', JStr (rfc3339 (ac_lastUsed x)))] else [])
     @ (if now < ac_coolUntil x
        then [(''cooling_until'', JStr (rfc3339 (ac_coolUntil x))), (''cooling_reason'', JStr (ac_coolReason x))] else [])
     @ (if ac_lastError x \<noteq> []
        then [(''last_error'', JStr (ac_lastError x)), (''last_error_at'', JStr (rfc3339 (ac_lastErrorAt x)))] else [])
     @ usage_fields ''primary'' (us_HasPrimary (ac_usage x)) (us_PrimaryPercent (ac_usage x)) (us_PrimaryResetAt (ac_usage x))
     @ usage_fields ''secondary'' (us_HasSecondary (ac_usage x)) (us_SecondaryPercent (ac_usage x)) (us_SecondaryResetAt (ac_usage x))"

definition login_fields :: "(string \<Rightarrow> gomap option) \<Rightarrow> go_error + credentials \<Rightarrow> string option \<Rightarrow> obj" where
  "login_fields decode borrowed content = (case borrowed of
       Inl e \<Rightarrow> [(''signed_in'', JBool False), (''error'', JStr (redactSensitive (error_text e)))]
     | Inr cred \<Rightarrow> [(''signed_in'', JBool True), (''account_id'', JStr (cr_AccountID cred))]
         @ (case jwtNumber decode (cr_AccessToken cred) ''exp'' of
              Some x \<Rightarrow> [(''expires_at'', JStr (rfc3339 (float_to_int x * second_ns)))] | None \<Rightarrow> [])
         @ (case content of Some c \<Rightarrow> loginClaims decode c | None \<Rightarrow> []))"

definition account_entry :: "(string \<Rightarrow> gomap option) \<Rightarrow> string \<Rightarrow> snap_env \<Rightarrow> addr \<Rightarrow> obj" where
  "account_entry decode primaryPath env a = (let x = po_heap (se_pool env) a in
     state_fields (accountPath primaryPath (ac_id x)) (se_now env) (ac_id x \<notin> set (po_disabled (se_pool env))) x
     @ login_fields decode (se_borrow env) (se_content env))"

text \<open>The encoder fails on an entry whose percentages are not finite.\<close>

definition unwritable :: "snap_env \<Rightarrow> addr \<Rightarrow> bool" where
  "unwritable env a = (let u = ac_usage (po_heap (se_pool env) a) in
     (us_HasPrimary u \<and> percent_json (us_PrimaryPercent u) = JNull)
     \<or> (us_HasSecondary u \<and> percent_json (us_SecondaryPercent u) = JNull))"

text \<open>\<open>snapshot\<close>: the accounts found, and their entries.  Other requests may run between two entries.\<close>

definition snapshot_accounts :: "int \<Rightarrow> disk \<Rightarrow> accountPool \<Rightarrow> addr list \<times> accountPool" where
  "snapshot_accounts now d p = (let p = rescan now d p in (ordered p, p))"

definition snapshot :: "(string \<Rightarrow> gomap option) \<Rightarrow> string \<Rightarrow> (addr \<Rightarrow> snap_env) \<Rightarrow> addr list \<Rightarrow> obj list" where
  "snapshot decode primaryPath env accounts = map (\<lambda>a. account_entry decode primaryPath (env a) a) accounts"

section \<open>The status page\<close>

definition codexCLIPath :: "string \<Rightarrow> (string \<Rightarrow> bool) \<Rightarrow> string option \<Rightarrow> string" where
  "codexCLIPath override exists look =
     (if override \<noteq> [] \<and> exists override then override else case look of None \<Rightarrow> [] | Some path \<Rightarrow> path)"

definition status_doc :: "obj list \<Rightarrow> string \<Rightarrow> string \<Rightarrow> string \<Rightarrow> deviceLogin \<Rightarrow> obj" where
  "status_doc accounts dir model cli d =
     [(''accounts'', JArr (map JObj accounts)), (''ready_accounts'', JInt (int (ready_accounts_of accounts))),
      (''auth_dir'', JStr dir), (''default_model'', JStr model), (''codex_cli'', JBool (cli \<noteq> [])),
      (''signin'', JObj (device_snapshot d))]"

text \<open>The status written and the body, if the encoder can write it.\<close>

definition uiStatus ::
  "(string \<Rightarrow> gomap option) \<Rightarrow> string \<Rightarrow> (addr \<Rightarrow> snap_env) \<Rightarrow> addr list \<Rightarrow> string \<Rightarrow> string \<Rightarrow> deviceLogin \<Rightarrow> int \<times> json option" where
  "uiStatus decode primaryPath env accounts model cli d =
     (200, if list_ex (\<lambda>a. unwritable (env a) a) accounts then None
       else Some (JObj (status_doc (snapshot decode primaryPath env accounts) (base_dir primaryPath) model cli d)))"

section \<open>Signing in\<close>

text \<open>The staging directory: the error of making it, whether the directory of accounts can be made, and the
  error of the second try.\<close>

definition make_staging :: "string option \<Rightarrow> bool \<Rightarrow> string option \<Rightarrow> string option" where
  "make_staging err made again = (case err of None \<Rightarrow> None | Some e \<Rightarrow> if made then again else Some e)"

record signin_env =
  si_cli :: string
  si_staging :: "string option"    \<comment> \<open>what \<open>make_staging\<close> gives\<close>
  si_process :: "string option"
  si_shown :: deviceLogin          \<comment> \<open>the sign-in when the answer is written\<close>

text \<open>The sign-in that goes on: the account it is for and whether that is a new one.\<close>

definition uiSignInStart ::
  "signin_env \<Rightarrow> console_env \<Rightarrow> string ui_body \<Rightarrow> accountPool \<Rightarrow> deviceLogin
    \<Rightarrow> http_response \<times> (string \<times> bool) option \<times> accountPool \<times> deviceLogin" where
  "uiSignInStart si env body p d =
     (if si_cli si = []
      then (ui_error 501 (''The Codex CLI is not installed in this image, so device sign-in is unavailable. ''
        @ ''Paste an auth.json instead.''), None, p, d)
      else case decodeUIBody [] body of
        Inl r \<Rightarrow> (r, None, p, d)
      | Inr account \<Rightarrow> (case signInTarget account (ce_rand_error env) (ce_stamp env) (ce_now env) (ce_disk env) p of
            (Inl (status, e), p) \<Rightarrow> (ui_error status e, None, p, d)
          | (Inr target, p) \<Rightarrow> (case si_staging si of
                Some e \<Rightarrow> (ui_error 500 (''Could not prepare a sign-in directory: '' @ e), None, p, d)
              | None \<Rightarrow> (case device_start (si_process si) target d of
                    (Some e, d) \<Rightarrow> (ui_error 409 e, None, p, d)
                  | (None, d) \<Rightarrow> (json_response 200 (JObj (device_snapshot (si_shown si))), Some (target, account = []), p, d)))))"

text \<open>\<open>onDone\<close>: \<open>staged\<close> is the login the CLI wrote.\<close>

definition signin_done ::
  "console_env \<Rightarrow> string \<Rightarrow> bool \<Rightarrow> string option \<Rightarrow> accountPool \<Rightarrow> login_files \<Rightarrow> (string \<times> bool) \<times> accountPool \<times> login_files" where
  "signin_done env target adding staged p files = (case staged of
       None \<Rightarrow> ((''The sign-in finished but wrote no auth.json.'', True), p, files)
     | Some content \<Rightarrow> adoptLogin env target adding content p files)"

definition uiSignInCancel :: "deviceLogin \<Rightarrow> http_response \<times> deviceLogin" where
  "uiSignInCancel d = (ui_ok, device_cancel d)"

section \<open>Laws\<close>

lemma rfc3339_examples:
  "rfc3339 0 = ''1970-01-01T00:00:00Z''" "rfc3339 (1709210096 * second_ns) = ''2024-02-29T12:34:56Z''"
  "rfc3339 zero_time = ''0001-01-01T00:00:00Z''"
  by code_simp+

subsection \<open>The accounts shown as ready\<close>

lemma oget_append: "oget (xs @ ys) k = (case map_of xs k of None \<Rightarrow> oget ys k | Some v \<Rightarrow> v)"
  by (simp add: oget_def map_add_def map_of_append split: option.split)

lemma claims_only:
  assumes "k \<noteq> ''email''" "k \<noteq> ''plan''"
  shows "oget (loginClaims decode c) k = JNull"
proof -
  have claims: "oget (token_claims p o') k = oget o' k" for p o'
    using assms by (simp add: token_claims_def claim_if_def)
  show ?thesis
    by (simp add: loginClaims_def Let_def claims split: option.split)
qed

lemma usage_only: "k \<noteq> name @ ''_used_percent'' \<Longrightarrow> k \<noteq> name @ ''_resets_at'' \<Longrightarrow> map_of (usage_fields name h x t) k = None"
  by (simp add: usage_fields_def)

lemma state_fields_gets:
  "map_of (state_fields path now enabled x) ''enabled'' = Some (JBool enabled)"
  "map_of (state_fields path now enabled x) ''signed_in'' = None"
  "map_of (state_fields path now enabled x) ''cooling_until''
     = (if now < ac_coolUntil x then Some (JStr (rfc3339 (ac_coolUntil x))) else None)"
  by (simp_all add: state_fields_def map_add_def usage_only)

lemma login_fields_gets:
  "oget (login_fields decode b c) ''signed_in'' = JBool (\<exists>cred. b = Inr cred)"
  "oget (login_fields decode b c) ''cooling_until'' = JNull"
  by (cases b; auto simp: login_fields_def oget_append claims_only split: option.split)+

lemma entry_gets:
  "oget (account_entry decode path env a) ''signed_in'' = JBool (\<exists>cred. se_borrow env = Inr cred)"
  "oget (account_entry decode path env a) ''enabled'' = JBool (ac_id (po_heap (se_pool env) a) \<notin> set (po_disabled (se_pool env)))"
  "oget (account_entry decode path env a) ''cooling_until'' = JNull \<longleftrightarrow> \<not> cooling (se_now env) (se_pool env) a"
  by (simp_all add: account_entry_def oget_append state_fields_gets login_fields_gets cooling_def Let_def)

text \<open>C38: The number of ready accounts on the status page is the number of accounts a request could be given
  now without waiting: not disabled, not cooling, and with credentials that work.\<close>

theorem status_counts_ready:
  assumes "\<And>a. a \<in> set (ordered p) \<Longrightarrow> se_pool (env a) = p \<and> se_now (env a) = now"
  shows "ready_accounts_of (snapshot decode primaryPath env (ordered p))
    = length (filter (\<lambda>a. \<not> cooling now p a \<and> (\<exists>cred. se_borrow (env a) = Inr cred)) (candidates {} p))"
proof -
  have "ready_accounts_of (snapshot decode primaryPath env (ordered p))
      = length (filter (\<lambda>a. (\<exists>cred. se_borrow (env a) = Inr cred) \<and> ac_id (po_heap p a) \<notin> set (po_disabled p) \<and> \<not> cooling now p a) (ordered p))"
    using assms by (simp add: ready_accounts_of_def snapshot_def filter_map comp_def entry_gets cong: filter_cong)
  also have "\<dots> = length (filter (\<lambda>a. \<not> cooling now p a \<and> (\<exists>cred. se_borrow (env a) = Inr cred)) (candidates {} p))"
    by (simp add: candidates_def) (rule arg_cong [where f = length], rule filter_cong, auto)
  finally show ?thesis .
qed

theorem status_counts_ready_witness:
  "let p = newAccountPool 0 one_disk; env = (\<lambda>a. \<lparr>se_borrow = Inr \<lparr>cr_AccessToken = ''t'', cr_AccountID = ''a''\<rparr>, se_pool = p, se_now = 0, se_content = None\<rparr>)
   in ready_accounts_of (snapshot (\<lambda>c. None) ''/r/auth.json'' env (ordered p)) = 1"
proof -
  let ?p = "newAccountPool 0 one_disk"
  let ?env = "\<lambda>a. \<lparr>se_borrow = Inr \<lparr>cr_AccessToken = ''t'', cr_AccountID = ''a''\<rparr>, se_pool = ?p, se_now = 0, se_content = None\<rparr>"
  have "length (filter (\<lambda>a. \<not> cooling 0 ?p a) (candidates {} ?p)) = 1"
    by code_simp
  then show ?thesis
    using status_counts_ready [of ?p ?env 0 "\<lambda>c. None" "''/r/auth.json''"] by (simp add: Let_def)
qed

subsection \<open>No login twice\<close>

text \<open>
  The pool, the login of every account that has one, and the device sign-in that runs, if one does: its
  account and whether that was new.
\<close>

record login_world =
  lw_pool :: accountPool
  lw_files :: login_files
  lw_signin :: "(string \<times> bool) option"

text \<open>A scan sees the files there are.\<close>

definition shows_files :: "disk \<Rightarrow> login_files \<Rightarrow> bool" where
  "shows_files d files \<longleftrightarrow> set (present_ids d) = dom files"

text \<open>What the console does to logins: a paste, the start and the end of a device sign-in, the removal of an
  account; and requests, which scan the disk.\<close>

inductive login_step :: "(string \<Rightarrow> gomap option) \<Rightarrow> login_world \<Rightarrow> login_world \<Rightarrow> bool" for decode where
  paste: "uiPasteAuth env body (lw_pool w) (lw_files w) = (r, p, files) \<Longrightarrow> ce_decode env = decode \<Longrightarrow>
    shows_files (ce_disk env) (lw_files w) \<Longrightarrow> shows_files (ce_disk_after env) files \<Longrightarrow>
    login_step decode w (w\<lparr>lw_pool := p, lw_files := files\<rparr>)"
| signin_start: "uiSignInStart si env body (lw_pool w) d = (r, Some s, p, d') \<Longrightarrow> ce_decode env = decode \<Longrightarrow>
    shows_files (ce_disk env) (lw_files w) \<Longrightarrow> lw_signin w = None \<Longrightarrow>
    login_step decode w (w\<lparr>lw_pool := p, lw_signin := Some s\<rparr>)"
| signin_end: "lw_signin w = Some (target, adding) \<Longrightarrow> signin_done env target adding staged (lw_pool w) (lw_files w) = (said, p, files) \<Longrightarrow>
    ce_decode env = decode \<Longrightarrow> shows_files (ce_disk_after env) files \<Longrightarrow>
    login_step decode w (w\<lparr>lw_pool := p, lw_files := files, lw_signin := None\<rparr>)"
| signin_fails: "login_step decode w (w\<lparr>lw_signin := None\<rparr>)"
| remove: "remove_account i (ce_now (env :: console_env)) (ce_disk env) err (ce_disk_after env) (lw_pool w) = (e, state, p) \<Longrightarrow>
    shows_files (ce_disk env) (lw_files w) \<Longrightarrow> files = (if e = None then (lw_files w)(i := None) else lw_files w) \<Longrightarrow>
    shows_files (ce_disk_after env) files \<Longrightarrow>
    login_step decode w (w\<lparr>lw_pool := p, lw_files := files\<rparr>)"
| scan: "shows_files d (lw_files w) \<Longrightarrow> login_step decode w (w\<lparr>lw_pool := rescan now d (lw_pool w)\<rparr>)"

definition distinct_logins :: "(string \<Rightarrow> gomap option) \<Rightarrow> login_files \<Rightarrow> bool" where
  "distinct_logins decode files \<longleftrightarrow> (\<forall>i j a b. files i = Some a \<longrightarrow> files j = Some b \<longrightarrow> i \<noteq> j \<longrightarrow>
     authIdentity decode a \<noteq> [] \<longrightarrow> authIdentity decode a \<noteq> authIdentity decode b)"

definition logins_ok :: "(string \<Rightarrow> gomap option) \<Rightarrow> accountPool \<Rightarrow> login_files \<Rightarrow> bool" where
  "logins_ok decode p files \<longleftrightarrow> set (orderedIds p) = dom files \<and> distinct_logins decode files"

lemma ids_rescan: "set (orderedIds (rescan now d p)) = set (present_ids d)"
  by (simp add: orderedIds_set rescan_ids)

lemma ids_upd [simp]: "orderedIds (upd a f p) = orderedIds p"
  by (simp add: orderedIds_def upd_def)

lemma logins_rescan: "logins_ok decode p files \<Longrightarrow> shows_files d files \<Longrightarrow> logins_ok decode (rescan now d p) files"
  by (simp add: logins_ok_def shows_files_def ids_rescan)

lemma identity_free:
  assumes "findIdentity decode files content target p = None" "set (orderedIds p) = dom files"
    "files i = Some a" "i \<noteq> target" "authIdentity decode content \<noteq> []"
  shows "authIdentity decode a \<noteq> authIdentity decode content"
proof -
  have "i \<in> set (orderedIds p)"
    using assms(2,3) by blast
  then show ?thesis
    using assms(1,3-5) by (auto simp: findIdentity_def find_None_iff split: if_splits)
qed

lemma distinct_logins_update:
  assumes "distinct_logins decode files"
    and "\<And>i a. files i = Some a \<Longrightarrow> i \<noteq> target \<Longrightarrow> authIdentity decode content \<noteq> [] \<Longrightarrow> authIdentity decode a \<noteq> authIdentity decode content"
  shows "distinct_logins decode (files(target \<mapsto> content))"
proof -
  have "authIdentity decode a \<noteq> authIdentity decode b"
    if h: "(files(target \<mapsto> content)) i = Some a" "(files(target \<mapsto> content)) j = Some b" "i \<noteq> j" "authIdentity decode a \<noteq> []" for i j a b
  proof -
    show ?thesis
    proof (cases "i = target")
      case True
      then have "a = content" "files j = Some b" "j \<noteq> target"
        using h by simp_all
      then show ?thesis
        using assms(2) [of j b] h(4) by simp
    next
      case i: False
      then have a: "files i = Some a"
        using h(1) by simp
      show ?thesis
      proof (cases "j = target")
        case True
        then have "b = content"
          using h(2) by simp
        then show ?thesis
          using assms(2) [OF a i] h(4) by (cases "authIdentity decode content = []") simp_all
      next
        case False
        then have "files j = Some b"
          using h(2) by simp
        then show ?thesis
          using assms(1) a h(3,4) unfolding distinct_logins_def by blast
      qed
    qed
  qed
  then show ?thesis
    unfolding distinct_logins_def by blast
qed

lemma adoptLogin_ok:
  assumes "adoptLogin env target adding content p files = (said, p', files')" "logins_ok (ce_decode env) p files"
    "shows_files (ce_disk_after env) files'"
  shows "logins_ok (ce_decode env) p' files'"
proof -
  consider (same) "p' = p" "files' = files"
    | (adopted) "files' = files(target \<mapsto> content)" "findIdentity (ce_decode env) files content target p = None"
        "set (orderedIds p') = set (present_ids (ce_disk_after env))"
    using assms(1)
    by (auto simp: adoptLogin_def writeAccount_def Let_def ids_rescan split: option.splits if_splits)
  then show ?thesis
  proof cases
    case adopted
    then have "distinct_logins (ce_decode env) files'"
      using assms(2) identity_free [of "ce_decode env" files content target p]
      by (auto simp: logins_ok_def intro!: distinct_logins_update)
    then show ?thesis
      using adopted(3) assms(3) by (simp add: logins_ok_def shows_files_def)
  qed (use assms(2) in simp)
qed

lemma signInTarget_ok:
  assumes "signInTarget account e stamp now d p = (r, p')" "logins_ok decode p files" "shows_files d files"
  shows "logins_ok decode p' files"
  using assms logins_rescan [OF assms(2,3)]
  by (auto simp: signInTarget_def newAccountID_def Let_def split: if_splits option.splits)

lemma distinct_logins_remove: "distinct_logins decode files \<Longrightarrow> distinct_logins decode (files(i := None))"
  unfolding distinct_logins_def by (auto split: if_splits)

lemma uiPasteAuth_ok:
  assumes "uiPasteAuth env body p files = (r, p', files')" "logins_ok (ce_decode env) p files"
    "shows_files (ce_disk env) files" "shows_files (ce_disk_after env) files'"
  shows "logins_ok (ce_decode env) p' files'"
proof -
  consider (refused) "p' = p" "files' = files"
    | (no_target) account x where "signInTarget account (ce_rand_error env) (ce_stamp env) (ce_now env) (ce_disk env) p = (Inl x, p')" "files' = files"
    | (adopt) account target p1 content said where
        "signInTarget account (ce_rand_error env) (ce_stamp env) (ce_now env) (ce_disk env) p = (Inr target, p1)"
        "adoptLogin env target (account = []) content p1 files = (said, p', files')"
    using assms(1) by (auto simp: uiPasteAuth_def split: sum.splits option.splits prod.splits)
  then show ?thesis
  proof cases
    case no_target
    then show ?thesis
      using signInTarget_ok [OF no_target(1) assms(2,3)] by simp
  next
    case adopt
    then show ?thesis
      using adoptLogin_ok [OF adopt(2) signInTarget_ok [OF adopt(1) assms(2,3)] assms(4)] by simp
  qed (use assms(2) in simp)
qed

lemma uiSignInStart_ok:
  assumes "uiSignInStart si env body p d = (r, s, p', d')" "logins_ok decode p files" "shows_files (ce_disk env) files"
  shows "logins_ok decode p' files"
proof -
  consider "p' = p" | account x where "signInTarget account (ce_rand_error env) (ce_stamp env) (ce_now env) (ce_disk env) p = (x, p')"
    using assms(1) by (auto simp: uiSignInStart_def split: sum.splits option.splits prod.splits if_splits)
  then show ?thesis
    using assms(2) signInTarget_ok [OF _ assms(2,3)] by cases auto
qed

lemma remove_account_ok:
  assumes "remove_account i now d err d' p = (e, state, p')" "logins_ok decode p files" "shows_files d files"
    "files' = (if e = None then files(i := None) else files)" "shows_files d' files'"
  shows "logins_ok decode p' files'"
proof (cases "e = None")
  case True
  then have "set (orderedIds p') = set (present_ids d')"
    using assms(1) by (auto simp: remove_account_def Let_def ids_rescan split: if_splits option.splits)
  then show ?thesis
    using assms(2,4,5) True distinct_logins_remove by (simp add: logins_ok_def shows_files_def)
next
  case False
  then have "p' = rescan now d p"
    using assms(1) by (auto simp: remove_account_def Let_def split: if_splits option.splits)
  then show ?thesis
    using assms(2-4) False by (simp add: logins_rescan)
qed

lemma login_step_ok:
  assumes "login_step decode w w'" "logins_ok decode (lw_pool w) (lw_files w)"
  shows "logins_ok decode (lw_pool w') (lw_files w')"
  using assms(1)
proof (cases rule: login_step.cases)
  case (paste env body r p files)
  then show ?thesis
    using uiPasteAuth_ok [OF paste(2) _ paste(4,5)] assms(2) by simp
next
  case (signin_start si env body d r s p d')
  then show ?thesis
    using uiSignInStart_ok [OF signin_start(2) assms(2) signin_start(4)] by simp
next
  case (signin_end target adding env staged said p files)
  have "logins_ok decode p files"
  proof (cases staged)
    case (Some content)
    then show ?thesis
      using adoptLogin_ok [of env target adding content "lw_pool w" "lw_files w" said p files] signin_end assms(2)
      by (simp add: signin_done_def)
  qed (use signin_end assms(2) in \<open>simp add: signin_done_def\<close>)
  then show ?thesis
    by (simp add: signin_end(1))
next
  case (remove i env err e state p files)
  then show ?thesis
    using remove_account_ok [OF remove(2) assms(2) remove(3,4,5)] by simp
next
  case (scan d now)
  then show ?thesis
    using assms(2) by (simp add: logins_rescan)
qed (use assms(2) in simp)

lemma login_steps_ok: "(login_step decode)\<^sup>*\<^sup>* w0 w \<Longrightarrow> logins_ok decode (lw_pool w0) (lw_files w0) \<Longrightarrow> logins_ok decode (lw_pool w) (lw_files w)"
  by (induction rule: rtranclp_induct) (auto intro: login_step_ok)


text \<open>Logins that are told apart by their account id.\<close>

definition sample_decode :: "string \<Rightarrow> gomap option" where
  "sample_decode c = Some (Some [(''auth_mode'', JStr ''chatgpt''),
     (''tokens'', JObj [(''access_token'', JStr ''t''), (''refresh_token'', JStr ''r''), (''account_id'', JStr c)])])"

definition sample_logins :: "bool \<Rightarrow> string list \<Rightarrow> disk" where
  "sample_logins primary others = \<lparr>dk_primary = primary, dk_entries = Some (map (\<lambda>i. (i, True, True)) others),
     dk_stat = (\<lambda>i. None), dk_disabled = None\<rparr>"

definition login_env :: "disk \<Rightarrow> disk \<Rightarrow> console_env" where
  "login_env d d' = \<lparr>ce_decode = sample_decode, ce_decode_error = (\<lambda>c. []), ce_quote = (\<lambda>c. c), ce_now = 0, ce_disk = d,
     ce_stamp = Some ''x1'', ce_rand_error = [], ce_write_error = None, ce_disk_after = d'\<rparr>"

lemma sample_identity: "c \<noteq> [] \<Longrightarrow> authIdentity sample_decode c = ''|'' @ c"
  by (simp add: authIdentity_def sample_decode_def accountID_def payload_user_def jwtPayload_def Let_def)

lemma sample_valid: "trim_space c \<noteq> [] \<Longrightarrow> validateAuthJSON sample_decode e q c = None"
  by (simp add: validateAuthJSON_def sample_decode_def string_of_def Let_def)

lemma sample_adopt:
  assumes "trim_space c \<noteq> []" "c \<noteq> []" "accountIDPattern target"
    and "\<forall>i a. files i = Some a \<longrightarrow> i \<noteq> target \<longrightarrow> a \<noteq> [] \<and> a \<noteq> c"
  shows "\<exists>p'. adoptLogin (login_env d d') target adding c p files
    = ((if adding then ''Signed in. Added as account '' @ target @ ''.'' else ''Signed in. Account '' @ target @ '' updated.'', False),
       p', files(target \<mapsto> c))"
proof -
  have "findIdentity sample_decode files c target p = None"
    using assms(2,4) sample_identity by (fastforce simp: findIdentity_def find_None_iff split: option.split)
  then show ?thesis
    using assms(3) sample_valid [OF assms(1)] by (simp add: adoptLogin_def login_env_def writeAccount_def Let_def)
qed

lemma sample_target:
  "\<exists>p'. signInTarget [] e (Some ''x1'') now (sample_logins primary others) p
    = (Inr (if \<not> primary \<and> present_ids (sample_logins primary others) = [] then ''default'' else ''x1''), p')"
proof -
  let ?d = "sample_logins primary others"
  have "po_accounts (rescan now ?d p) = [] \<longleftrightarrow> present_ids ?d = []"
    using rescan_ids [of now ?d p] by auto
  then show ?thesis
    by (auto simp: signInTarget_def newAccountID_def sample_logins_def defaultAccountID_def Let_def)
qed

lemma trim_ab: "trim_space ''a'' = ''a''" "trim_space ''b'' = ''b''" "trim_space ''c'' = ''c''"
  by code_simp+

lemma default_id: "accountIDPattern ''default''" "accountIDPattern ''x1''"
  by code_simp+

lemma sample_paste:
  assumes "trim_space c \<noteq> []" "c \<noteq> []"
    and "target = (if \<not> primary \<and> present_ids (sample_logins primary others) = [] then ''default'' else ''x1'')"
    and "\<forall>i a. files i = Some a \<longrightarrow> i \<noteq> target \<longrightarrow> a \<noteq> [] \<and> a \<noteq> c"
  shows "\<exists>r p'. uiPasteAuth (login_env (sample_logins primary others) d') (BodyValue (c, [])) p files = (r, p', files(target \<mapsto> c))"
proof -
  let ?env = "login_env (sample_logins primary others) d'"
  obtain p1 where p1: "signInTarget [] (ce_rand_error ?env) (ce_stamp ?env) (ce_now ?env) (ce_disk ?env) p = (Inr target, p1)"
    using sample_target [of "[]" 0 primary others p] assms(3) by (auto simp: login_env_def)
  have "accountIDPattern target"
    using assms(3) default_id by simp
  then obtain p2 where "adoptLogin ?env target True c p1 files = ((''Signed in. Added as account '' @ target @ ''.'', False), p2, files(target \<mapsto> c))"
    using sample_adopt [OF assms(1,2) _ assms(4), of "sample_logins primary others" d' True p1] unfolding if_True by blast
  moreover have "validateAuthJSON (ce_decode ?env) (ce_decode_error ?env) (ce_quote ?env) c = None"
    using sample_valid [OF assms(1)] by (simp add: login_env_def)
  ultimately show ?thesis
    using p1 by (simp add: uiPasteAuth_def decodeUIBody_def split: prod.split)
qed

text \<open>A sign-in for a first account is still running when a login is pasted: it ends by replacing the
  pasted login under the same id, and says that it added an account.  Then another login is pasted.\<close>

definition sample_world :: "accountPool \<Rightarrow> login_files \<Rightarrow> (string \<times> bool) option \<Rightarrow> login_world" where
  "sample_world p files s = \<lparr>lw_pool = p, lw_files = files, lw_signin = s\<rparr>"

abbreviation sample_start :: login_world where
  "sample_start \<equiv> sample_world (newAccountPool 0 (sample_logins False [])) (\<lambda>i. None) None"

lemma login_more: "(login_step decode)\<^sup>*\<^sup>* w w' \<Longrightarrow> login_step decode w' w'' \<Longrightarrow> (login_step decode)\<^sup>*\<^sup>* w w''"
  by (rule rtranclp.rtrancl_into_rtrancl)

lemma sample_shows: "shows_files (sample_logins primary others) files \<longleftrightarrow> set (present_ids (sample_logins primary others)) = dom files"
  by (simp add: shows_files_def)

lemma added_login_lost:
  "\<exists>p p' env said. (login_step sample_decode)\<^sup>*\<^sup>* sample_start (sample_world p [''default'' \<mapsto> ''a''] (Some (''default'', True)))
     \<and> signin_done env ''default'' True (Some ''b'') p [''default'' \<mapsto> ''a''] = ((said, False), p', [''default'' \<mapsto> ''b''])
     \<and> said = ''Signed in. Added as account default.''
     \<and> login_step sample_decode (sample_world p [''default'' \<mapsto> ''a''] (Some (''default'', True))) (sample_world p' [''default'' \<mapsto> ''b''] None)"
proof -
  let ?none = "sample_logins False []" and ?one = "sample_logins True []"
  let ?si = "\<lparr>si_cli = ''codex'', si_staging = None, si_process = None, si_shown = device_started ''default''\<rparr>"
  have ids: "present_ids ?none = []" "present_ids ?one = [''default'']"
    by code_simp+
  obtain p1 where "signInTarget [] (ce_rand_error (login_env ?none ?none)) (ce_stamp (login_env ?none ?none)) (ce_now (login_env ?none ?none))
      (ce_disk (login_env ?none ?none)) (newAccountPool 0 ?none) = (Inr ''default'', p1)"
    using sample_target [of "[]" 0 False "[]" "newAccountPool 0 ?none"] ids by (auto simp: login_env_def)
  then have "\<exists>r d'. uiSignInStart ?si (login_env ?none ?none) BodyEmpty (newAccountPool 0 ?none) (dw_dev device_initial)
      = (r, Some (''default'', True), p1, d')"
    by (simp add: uiSignInStart_def decodeUIBody_def device_start_def device_initial_def)
  then have 1: "login_step sample_decode sample_start (sample_world p1 (\<lambda>i. None) (Some (''default'', True)))"
    using login_step.signin_start [of ?si "login_env ?none ?none" BodyEmpty sample_start "dw_dev device_initial" _ "(''default'', True)" p1 _ sample_decode] ids
    by (auto simp: sample_world_def login_env_def shows_files_def)
  obtain r2 p2 where "uiPasteAuth (login_env ?none ?one) (BodyValue (''a'', [])) p1 (\<lambda>i. None) = (r2, p2, [''default'' \<mapsto> ''a''])"
    using sample_paste [of "''a''" "''default''" False "[]" "\<lambda>i. None" ?one p1] ids by (auto simp: trim_ab)
  then have 2: "login_step sample_decode (sample_world p1 (\<lambda>i. None) (Some (''default'', True))) (sample_world p2 [''default'' \<mapsto> ''a''] (Some (''default'', True)))"
    using login_step.paste [of "login_env ?none ?one" "BodyValue (''a'', [])" "sample_world p1 (\<lambda>i. None) (Some (''default'', True))" r2 p2
        "[''default'' \<mapsto> ''a'']" sample_decode] ids
    by (simp add: sample_world_def login_env_def shows_files_def)
  have "\<forall>i a. [''default'' \<mapsto> ''a''] i = Some a \<longrightarrow> i \<noteq> ''default'' \<longrightarrow> a \<noteq> [] \<and> a \<noteq> ''b''"
    by (simp split: if_splits)
  then obtain p3 where 3: "signin_done (login_env ?one ?one) ''default'' True (Some ''b'') p2 [''default'' \<mapsto> ''a'']
      = ((''Signed in. Added as account default.'', False), p3, [''default'' \<mapsto> ''b''])"
    using sample_adopt [of "''b''" "''default''" "[''default'' \<mapsto> ''a'']" ?one ?one True p2] default_id
    by (auto simp: signin_done_def trim_ab)
  then have 4: "login_step sample_decode (sample_world p2 [''default'' \<mapsto> ''a''] (Some (''default'', True))) (sample_world p3 [''default'' \<mapsto> ''b''] None)"
    using login_step.signin_end [of "sample_world p2 [''default'' \<mapsto> ''a''] (Some (''default'', True))" "''default''" True "login_env ?one ?one"
        "Some ''b''" _ p3 "[''default'' \<mapsto> ''b'']" sample_decode] ids
    by (simp add: sample_world_def login_env_def shows_files_def)
  show ?thesis
    using login_more [OF login_more [OF rtranclp.rtrancl_refl 1] 2] 3 4 by blast
qed


end
