(* ===== verification/Service.thy ===== *)
theory Service
  imports Server Config
begin

text \<open>
  What surrounds the handlers (\<open>server.go\<close>, \<open>backend.go\<close>, \<open>websocket.go\<close>): the writer that counts what a
  handler sends and the recovery from its panics, the bytes of the answers, the decoding of request bodies,
  the body of a proxied request that is sent again, and the life of the server.
\<close>

section \<open>The writer of an answer\<close>

text \<open>What the connection below was told to do.\<close>

datatype sent = SentHeader int | SentBody string | SentFlush | SentHijack

record responseCapture =
  rc_status :: int
  rc_bytes :: int
  rc_wroteHeader :: bool
  rc_sent :: "sent list"

definition new_capture :: responseCapture where
  "new_capture = \<lparr>rc_status = 0, rc_bytes = 0, rc_wroteHeader = False, rc_sent = []\<rparr>"

definition capture_WriteHeader :: "int \<Rightarrow> responseCapture \<Rightarrow> responseCapture" where
  "capture_WriteHeader status w =
     (if rc_wroteHeader w then w
      else w\<lparr>rc_status := status, rc_wroteHeader := True, rc_sent := rc_sent w @ [SentHeader status]\<rparr>)"

definition implicit_header :: "responseCapture \<Rightarrow> responseCapture" where
  "implicit_header w = (if rc_wroteHeader w then w else capture_WriteHeader 200 w)"

text \<open>\<open>n\<close> is how many bytes the connection takes.\<close>

definition capture_Write :: "string \<Rightarrow> nat \<Rightarrow> responseCapture \<Rightarrow> responseCapture" where
  "capture_Write data n w = (let w = implicit_header w; taken = take n data in
     w\<lparr>rc_bytes := rc_bytes w + int (length taken), rc_sent := rc_sent w @ [SentBody taken]\<rparr>)"

definition capture_Hijack :: "bool \<Rightarrow> responseCapture \<Rightarrow> responseCapture" where
  "capture_Hijack works w =
     (if works then w\<lparr>rc_status := 101, rc_wroteHeader := True, rc_sent := rc_sent w @ [SentHijack]\<rparr> else w)"

definition capture_Flush :: "responseCapture \<Rightarrow> responseCapture" where
  "capture_Flush w = (let w = implicit_header w in w\<lparr>rc_sent := rc_sent w @ [SentFlush]\<rparr>)"

definition statusCode :: "responseCapture \<Rightarrow> int" where
  "statusCode w = (if rc_status w = 0 then 200 else rc_status w)"

text \<open>What a handler does with its writer.\<close>

datatype capture_op = CWriteHeader int | CWrite string nat | CHijack bool | CFlush

fun capture_step :: "capture_op \<Rightarrow> responseCapture \<Rightarrow> responseCapture" where
  "capture_step (CWriteHeader status) w = capture_WriteHeader status w"
| "capture_step (CWrite data n) w = capture_Write data n w"
| "capture_step (CHijack works) w = capture_Hijack works w"
| "capture_step CFlush w = capture_Flush w"

definition capture_ops :: "capture_op list \<Rightarrow> responseCapture \<Rightarrow> responseCapture" where
  "capture_ops ops w = fold capture_step ops w"

text \<open>\<open>writeJSON\<close>: the JSON text and a line end; \<open>marshal\<close> is \<open>encoding/json\<close>.\<close>

definition write_all :: "string \<Rightarrow> capture_op" where
  "write_all data = CWrite data (length data)"

definition json_ops :: "(json \<Rightarrow> string) \<Rightarrow> http_response \<Rightarrow> capture_op list" where
  "json_ops marshal r = [CWriteHeader (resp_status r), write_all (marshal (resp_body r) @ [newline])]"

datatype request_log = LogStart | LogPanic | LogEnd int int

definition ServeHTTP ::
  "(json \<Rightarrow> string) \<Rightarrow> bool \<Rightarrow> string \<Rightarrow> capture_op list \<Rightarrow> bool \<Rightarrow> responseCapture \<times> request_log list" where
  "ServeHTTP marshal verbose path ops panics = (let
     w = capture_ops ops new_capture;
     w = (if panics \<and> \<not> rc_wroteHeader w then capture_ops (json_ops marshal panic_answer) w else w)
     in (w, (if verbose then [LogStart] else []) @ (if panics then [LogPanic] else [])
          @ (if path \<noteq> ''/healthz'' \<or> verbose then [LogEnd (statusCode w) (rc_bytes w)] else [])))"

section \<open>The bytes of an answer\<close>

definition writeSSE :: "(json \<Rightarrow> string) \<Rightarrow> json \<Rightarrow> string" where
  "writeSSE marshal v = ''data: '' @ marshal v @ [newline, newline]"

definition done_frame :: string where
  "done_frame = ''data: [DONE]'' @ [newline, newline]"

text \<open>The calls that write an answer, with a flush after every frame (the stream of a stored response is only flushed
  at its end, which changes no byte).  A plain answer without a body (204), one in plain text (\<open>http.NotFound\<close>), or one in JSON.\<close>

definition plain_ops :: "(json \<Rightarrow> string) \<Rightarrow> http_response \<Rightarrow> capture_op list" where
  "plain_ops marshal r =
     (if resp_headers r = [] then [CWriteHeader (resp_status r)]
      else if map_of (resp_headers r) ''Content-Type'' = Some ''text/plain; charset=utf-8''
        then [CWriteHeader (resp_status r), write_all (stringValue (resp_body r) @ [newline])]
      else json_ops marshal r)"

definition answer_ops :: "(json \<Rightarrow> string) \<Rightarrow> answer \<Rightarrow> capture_op list" where
  "answer_ops marshal a = (case a of
       PlainAnswer r \<Rightarrow> plain_ops marshal r
     | EventAnswer events finished \<Rightarrow>
         concat (map (\<lambda>e. [write_all (writeSSE marshal e), CFlush]) events)
         @ (if finished then [write_all done_frame, CFlush] else []))"

text \<open>The body a client gets.\<close>

definition sent_bytes :: "sent list \<Rightarrow> string" where
  "sent_bytes s = concat (map (\<lambda>x. case x of SentBody b \<Rightarrow> b | _ \<Rightarrow> []) s)"

definition setSSE :: "(string \<times> string) list \<Rightarrow> (string \<times> string) list" where
  "setSSE h = AList.update ''X-Accel-Buffering'' ''no'' (AList.update ''Connection'' ''keep-alive''
     (AList.update ''Cache-Control'' ''no-cache'' (AList.update ''Content-Type'' ''text/event-stream'' h)))"

definition clearSSE :: "(string \<times> string) list \<Rightarrow> (string \<times> string) list" where
  "clearSSE h = fold AList.delete [''Content-Type'', ''Cache-Control'', ''Connection'', ''X-Accel-Buffering''] h"

section \<open>The body of a request\<close>

text \<open>One call of \<open>Decode\<close>: the end of the input, an error, or a value and what follows it.\<close>

datatype decode_step = DecEOF | DecError | DecValue json string

text \<open>Decoding into a map: \<open>null\<close> gives a nil map, any other value but an object an error.\<close>

definition decode_map :: "(string \<Rightarrow> decode_step) \<Rightarrow> string \<Rightarrow> (gomap \<times> string) option" where
  "decode_map dec text = (case dec text of
       DecValue (JObj m) rest \<Rightarrow> Some (Some m, rest)
     | DecValue JNull rest \<Rightarrow> Some (None, rest)
     | _ \<Rightarrow> None)"

definition decodeObject :: "(string \<Rightarrow> decode_step) \<Rightarrow> string \<Rightarrow> obj option" where
  "decodeObject dec body = (case decode_map dec (take 33554432 body) of
       Some (Some m, rest) \<Rightarrow> if dec rest = DecEOF then Some m else None
     | _ \<Rightarrow> None)"

definition decodeWebSocketEvent :: "(string \<Rightarrow> decode_step) \<Rightarrow> string \<Rightarrow> gomap" where
  "decodeWebSocketEvent dec data = (case decode_map dec data of
       None \<Rightarrow> None
     | Some (event, rest) \<Rightarrow> if dec rest = DecEOF then event else None)"

section \<open>A body that is sent again\<close>

definition replayBodyMemoryLimit :: nat where
  "replayBodyMemoryLimit = 1048576"

text \<open>The temporary files, and what the system answers: whether reading the client's body fails after its
  bytes, the name of a new file (\<open>None\<close>: it cannot be made), and whether the two writes succeed.\<close>

type_synonym temp_files = "string \<Rightarrow> string option"

record replay_env =
  rb_read_error :: bool
  rb_create :: "string option"
  rb_write :: bool
  rb_copy :: bool

record replayBody =
  rp_data :: string
  rp_file :: "string option"
  rp_size :: nat

definition newReplayBody :: "replay_env \<Rightarrow> string option \<Rightarrow> temp_files \<Rightarrow> replayBody option \<times> temp_files" where
  "newReplayBody env body fs = (case body of
       None \<Rightarrow> (Some \<lparr>rp_data = [], rp_file = None, rp_size = 0\<rparr>, fs)
     | Some bytes \<Rightarrow> (let
         memory = take (replayBodyMemoryLimit + 1) bytes;
         rest = drop (replayBodyMemoryLimit + 1) bytes
         in if rb_read_error env \<and> length bytes \<le> replayBodyMemoryLimit then (None, fs)
         else if length memory \<le> replayBodyMemoryLimit then (Some \<lparr>rp_data = memory, rp_file = None, rp_size = 0\<rparr>, fs)
         else case rb_create env of
           None \<Rightarrow> (None, fs)
         | Some name \<Rightarrow>
             if \<not> rb_write env then (None, fs(name := None))
             else if rb_read_error env \<or> \<not> rb_copy env then (None, fs(name := None))
             else (Some \<lparr>rp_data = [], rp_file = Some name, rp_size = length memory + length rest\<rparr>, fs(name \<mapsto> memory @ rest))))"

definition replay_reader :: "temp_files \<Rightarrow> replayBody \<Rightarrow> string" where
  "replay_reader fs b = (case rp_file b of
       None \<Rightarrow> rp_data b
     | Some name \<Rightarrow> take (rp_size b) (case fs name of Some content \<Rightarrow> content | None \<Rightarrow> []))"

definition replay_close :: "replayBody \<Rightarrow> temp_files \<Rightarrow> temp_files" where
  "replay_close b fs = (case rp_file b of None \<Rightarrow> fs | Some name \<Rightarrow> fs(name := None))"

text \<open>\<open>proxyTo\<close>: \<open>attempts\<close> is \<open>doAuthenticated\<close>, which is given the target and what every request it makes
  reads as its body.\<close>

definition proxyTo ::
  "parsed_url option \<Rightarrow> string \<Rightarrow> string \<Rightarrow> replay_env \<Rightarrow> string option
    \<Rightarrow> (parsed_url \<Rightarrow> string \<Rightarrow> go_error + 'r) \<Rightarrow> temp_files \<Rightarrow> (go_error + 'r) \<times> temp_files" where
  "proxyTo base path query env body attempts fs = (case resolveProxyURL base path query of
       None \<Rightarrow> (Inl (BackendError 400 ''Invalid proxy path.''), fs)
     | Some target \<Rightarrow> (case newReplayBody env body fs of
         (None, fs) \<Rightarrow> (Inl (BackendError 400 ''Read proxy request body failed.''), fs)
       | (Some replay, fs) \<Rightarrow>
           (case attempts target (replay_reader fs replay) of
              Inl e \<Rightarrow> Inl (if as_backend e \<noteq> None then e else BackendError 502 ''Codex backend proxy request failed.'')
            | Inr resp \<Rightarrow> Inr resp, replay_close replay fs)))"

definition transcribe ::
  "(string \<Rightarrow> parsed_url option) \<Rightarrow> string \<Rightarrow> replay_env \<Rightarrow> string option
    \<Rightarrow> (parsed_url \<Rightarrow> string \<Rightarrow> go_error + 'r) \<Rightarrow> temp_files \<Rightarrow> (go_error + 'r) \<times> temp_files" where
  "transcribe parse BackendURL env body attempts fs =
     proxyTo (parse (trim_suffix ''/codex'' BackendURL)) ''transcribe'' [] env body attempts fs"

text \<open>\<open>audio\<close> and \<open>proxy\<close>: the answer written, if one is, or the one passed on; and the slots, of which the
  taken one is given back.\<close>

definition passed_on ::
  "bool \<Rightarrow> (temp_files \<Rightarrow> (go_error + 'r) \<times> temp_files) \<Rightarrow> slots \<Rightarrow> temp_files \<Rightarrow> (http_response option + 'r) \<times> slots \<times> temp_files" where
  "passed_on cancelled send sl fs = (case acquireRequest cancelled sl of
       Inl why \<Rightarrow> (Inl (refused_slot why), sl, fs)
     | Inr taken \<Rightarrow> (case send fs of
           (Inl e, fs) \<Rightarrow> (Inl (Some (writeBackendError e)), release_slot taken, fs)
         | (Inr resp, fs) \<Rightarrow> (Inr resp, release_slot taken, fs)))"

definition audio ::
  "(string \<Rightarrow> parsed_url option) \<Rightarrow> string \<Rightarrow> bool \<Rightarrow> replay_env \<Rightarrow> string option
    \<Rightarrow> (parsed_url \<Rightarrow> string \<Rightarrow> go_error + 'r) \<Rightarrow> slots \<Rightarrow> temp_files
    \<Rightarrow> (http_response option + 'r) \<times> slots \<times> temp_files" where
  "audio parse BackendURL cancelled env body attempts sl fs =
     passed_on cancelled (transcribe parse BackendURL env body attempts) sl fs"

definition proxy ::
  "(string \<Rightarrow> parsed_url option) \<Rightarrow> string \<Rightarrow> bool \<Rightarrow> string \<Rightarrow> string \<Rightarrow> replay_env \<Rightarrow> string option
    \<Rightarrow> (parsed_url \<Rightarrow> string \<Rightarrow> go_error + 'r) \<Rightarrow> slots \<Rightarrow> temp_files
    \<Rightarrow> (http_response option + 'r) \<times> slots \<times> temp_files" where
  "proxy parse BackendURL cancelled path query env body attempts sl fs =
     (if cleanProxyPath path = None
      then (Inl (Some (error_response 400 ''Invalid proxy path.'' ''api_error'' JNull JNull)), sl, fs)
      else passed_on cancelled (proxyTo (parse BackendURL) path query env body attempts) sl fs)"

section \<open>The life of the server\<close>

text \<open>\<open>serve\<close>: how the server ended by itself (\<open>None\<close>: \<open>ErrServerClosed\<close>) or that a signal came.\<close>

datatype serve_event = ServeEnded "string option" | Signalled

record serve_env =
  se_preflight :: "go_error option"
  se_listen :: "string option"
  se_event :: serve_event
  se_http_shutdown :: "int \<Rightarrow> string option"   \<comment> \<open>by the time allowed\<close>
  se_ws_shutdown :: "int \<Rightarrow> string option"
  se_result :: "string option"                    \<comment> \<open>of \<open>Serve\<close>, after a shutdown\<close>

datatype serve_note = PreflightDeferred string string | Listening | HttpClosed | SocketsAborted

definition shutdown_timeout :: "config \<Rightarrow> int" where
  "shutdown_timeout c = (if cg_StopTimeout c \<le> 0 then 10 * second_ns else cg_StopTimeout c)"

text \<open>\<open>shutdown\<close>: connections that do not end in time are closed.\<close>

definition shutdown :: "string option \<Rightarrow> string option \<Rightarrow> string option \<times> serve_note list" where
  "shutdown httpErr wsErr = (if httpErr \<noteq> None then httpErr else wsErr, if httpErr \<noteq> None then [HttpClosed] else [])"

definition serve_listening :: "serve_env \<Rightarrow> config \<Rightarrow> string option \<times> serve_note list" where
  "serve_listening env c = (case se_listen env of
       Some e \<Rightarrow> (Some e, [])
     | None \<Rightarrow> (case se_event env of
           ServeEnded r \<Rightarrow> (r, [Listening])
         | Signalled \<Rightarrow> (case shutdown (se_http_shutdown env (shutdown_timeout c)) (se_ws_shutdown env (shutdown_timeout c)) of
               (Some e, did) \<Rightarrow> (Some e, Listening # did)
             | (None, did) \<Rightarrow> (se_result env, Listening # did))))"

text \<open>The sockets that are left are aborted on every way out once the server is made.\<close>

definition serve :: "serve_env \<Rightarrow> config \<Rightarrow> string option \<times> serve_note list" where
  "serve env c = (case se_preflight env of
       None \<Rightarrow> (let (err, did) = serve_listening env c in (err, did @ [SocketsAborted]))
     | Some e \<Rightarrow>
         if cg_APIKey c = [] then (Some (preflightAuthError e), [])
         else (let (err, did) = serve_listening env c in
           (err, PreflightDeferred (authFailureCode e) (redactSensitive (error_text e)) # did @ [SocketsAborted])))"

text \<open>\<open>keepWebSocketAlive\<close>: it runs until its context ends or a ping fails.\<close>

datatype keep_event = ContextDone | Tick "string option"

fun keepWebSocketAlive :: "keep_event list \<Rightarrow> string option" where
  "keepWebSocketAlive [] = None"
| "keepWebSocketAlive (ContextDone # es) = Some ''context canceled''"
| "keepWebSocketAlive (Tick (Some e) # es) = Some e"
| "keepWebSocketAlive (Tick None # es) = keepWebSocketAlive es"

section \<open>Laws\<close>

subsection \<open>One answer\<close>

definition is_header :: "sent \<Rightarrow> bool" where
  "is_header x = (case x of SentHeader _ \<Rightarrow> True | _ \<Rightarrow> False)"

text \<open>The status a client sees: that of the header, or of the switch of protocols.\<close>

definition sent_status :: "sent list \<Rightarrow> int" where
  "sent_status s = (if SentHijack \<in> set s then 101 else case s of SentHeader status # _ \<Rightarrow> status | _ \<Rightarrow> 200)"

definition capture_inv :: "responseCapture \<Rightarrow> bool" where
  "capture_inv w \<longleftrightarrow>
     (if rc_wroteHeader w
      then rc_status w \<noteq> 0 \<and> rc_status w = sent_status (rc_sent w)
        \<and> (\<exists>first rest. rc_sent w = first # rest \<and> (is_header first \<or> first = SentHijack) \<and> list_all (Not \<circ> is_header) rest)
      else rc_status w = 0 \<and> rc_sent w = [])
     \<and> rc_bytes w = int (length (sent_bytes (rc_sent w)))"

lemma sent_bytes_append [simp]: "sent_bytes (xs @ ys) = sent_bytes xs @ sent_bytes ys"
  by (simp add: sent_bytes_def)

lemma sent_bytes_simps [simp]:
  "sent_bytes [] = []" "sent_bytes (SentBody b # s) = b @ sent_bytes s" "sent_bytes (SentHeader n # s) = sent_bytes s"
  "sent_bytes (SentFlush # s) = sent_bytes s" "sent_bytes (SentHijack # s) = sent_bytes s"
  by (simp_all add: sent_bytes_def)

lemma is_header_simps [simp]: "is_header (SentHeader n)" "\<not> is_header (SentBody b)" "\<not> is_header SentFlush" "\<not> is_header SentHijack"
  by (simp_all add: is_header_def)

lemma capture_inv_new: "capture_inv new_capture"
  by (simp add: capture_inv_def new_capture_def)

lemma implicit_header_inv: "capture_inv w \<Longrightarrow> capture_inv (implicit_header w) \<and> rc_wroteHeader (implicit_header w)"
  by (auto simp: implicit_header_def capture_WriteHeader_def capture_inv_def sent_status_def)

lemma capture_inv_more:
  assumes "capture_inv w" "rc_wroteHeader w" "\<not> is_header x" "x \<noteq> SentHijack" "b = int (length (sent_bytes [x]))"
  shows "capture_inv (w\<lparr>rc_bytes := rc_bytes w + b, rc_sent := rc_sent w @ [x]\<rparr>)"
  using assms by (auto simp: capture_inv_def sent_status_def split: if_splits)

lemma capture_step_inv:
  assumes "capture_inv w" "op \<noteq> CWriteHeader 0"
  shows "capture_inv (capture_step op w)"
proof (cases op)
  case (CWriteHeader status)
  then show ?thesis
    using assms by (auto simp: capture_WriteHeader_def capture_inv_def sent_status_def)
next
  case (CWrite data n)
  then show ?thesis
    using implicit_header_inv [OF assms(1)] by (simp add: capture_Write_def Let_def capture_inv_more)
next
  case (CHijack works)
  then show ?thesis
    using assms by (auto simp: capture_Hijack_def capture_inv_def sent_status_def split: if_splits)
next
  case CFlush
  then show ?thesis
    using implicit_header_inv [OF assms(1)] capture_inv_more [of "implicit_header w" SentFlush 0] by (simp add: capture_Flush_def Let_def)
qed

lemma capture_ops_inv: "capture_inv w \<Longrightarrow> CWriteHeader 0 \<notin> set ops \<Longrightarrow> capture_inv (capture_ops ops w)"
  unfolding capture_ops_def by (induction ops arbitrary: w) (auto simp: capture_step_inv)

lemma capture_inv_sent: "capture_inv w \<Longrightarrow> rc_wroteHeader w \<longleftrightarrow> rc_sent w \<noteq> []"
  by (auto simp: capture_inv_def split: if_splits)

lemma capture_inv_status: "capture_inv w \<Longrightarrow> statusCode w = sent_status (rc_sent w)"
  by (auto simp: capture_inv_def statusCode_def sent_status_def split: if_splits)

lemma capture_inv_bytes: "capture_inv w \<Longrightarrow> rc_bytes w = int (length (sent_bytes (rc_sent w)))"
  by (simp add: capture_inv_def)

lemma none_header: "list_all (Not \<circ> is_header) s \<Longrightarrow> filter is_header s = []"
  by (induction s) simp_all

lemma capture_inv_one_header: "capture_inv w \<Longrightarrow> length (filter is_header (rc_sent w)) \<le> 1"
  by (auto simp: capture_inv_def none_header split: if_splits)

lemma json_ops_sent:
  "\<not> rc_wroteHeader w \<Longrightarrow> rc_sent (capture_ops (json_ops marshal r) w)
     = rc_sent w @ [SentHeader (resp_status r), SentBody (marshal (resp_body r) @ [newline])]"
  by (simp add: json_ops_def write_all_def capture_ops_def capture_WriteHeader_def capture_Write_def implicit_header_def Let_def)

text \<open>C10: A request gets one answer, whatever its handler does: at most one status is sent, and first; a
  handler that panics before it began is answered by the one error 500 and by nothing else, one that panics
  later or has taken over the connection by nothing more; and the log has one closing line, with the status and
  the number of bytes that were sent.\<close>

theorem one_status_line:
  assumes "CWriteHeader 0 \<notin> set ops" "ServeHTTP marshal verbose path ops panics = (w, entries)"
  shows "length (filter is_header (rc_sent w)) \<le> 1 \<and> (rc_sent w = [] \<or> is_header (hd (rc_sent w)) \<or> hd (rc_sent w) = SentHijack)
    \<and> rc_sent w = (let s = rc_sent (capture_ops ops new_capture) in
        if panics \<and> s = [] then [SentHeader 500, SentBody (marshal (resp_body panic_answer) @ [newline])] else s)
    \<and> filter (\<lambda>e. e \<noteq> LogStart \<and> e \<noteq> LogPanic) entries
      = (if path \<noteq> ''/healthz'' \<or> verbose then [LogEnd (sent_status (rc_sent w)) (int (length (sent_bytes (rc_sent w))))] else [])"
proof -
  let ?h = "capture_ops ops new_capture"
  have h: "capture_inv ?h"
    by (rule capture_ops_inv [OF capture_inv_new assms(1)])
  have w: "w = (if panics \<and> \<not> rc_wroteHeader ?h then capture_ops (json_ops marshal panic_answer) ?h else ?h)"
    and e: "entries = (if verbose then [LogStart] else []) @ (if panics then [LogPanic] else [])
      @ (if path \<noteq> ''/healthz'' \<or> verbose then [LogEnd (statusCode w) (rc_bytes w)] else [])"
    using assms(2) by (auto simp: ServeHTTP_def Let_def)
  have 500: "resp_status panic_answer = 500"
    by (simp add: panic_answer_def error_response_def json_response_def)
  have "CWriteHeader 0 \<notin> set (json_ops marshal panic_answer)"
    by (simp add: json_ops_def write_all_def 500)
  then have inv: "capture_inv w"
    using h by (simp add: w capture_ops_inv)
  have "rc_sent w = (let s = rc_sent ?h in
      if panics \<and> s = [] then [SentHeader 500, SentBody (marshal (resp_body panic_answer) @ [newline])] else s)"
    using capture_inv_sent [OF h] by (simp add: w json_ops_sent 500 Let_def)
  moreover have "rc_sent w = [] \<or> is_header (hd (rc_sent w)) \<or> hd (rc_sent w) = SentHijack"
    using inv by (auto simp: capture_inv_def split: if_splits)
  moreover have "filter (\<lambda>e. e \<noteq> LogStart \<and> e \<noteq> LogPanic) entries
      = (if path \<noteq> ''/healthz'' \<or> verbose then [LogEnd (sent_status (rc_sent w)) (int (length (sent_bytes (rc_sent w))))] else [])"
    using capture_inv_status [OF inv] capture_inv_bytes [OF inv] by (simp add: e)
  ultimately show ?thesis
    using capture_inv_one_header [OF inv] by blast
qed

theorem one_status_line_witness:
  "\<exists>w entries. ServeHTTP (\<lambda>v. ''{}'') True ''/v1/x'' [CWrite ''ab'' 1, CWriteHeader 500, CFlush] True = (w, entries)
     \<and> rc_sent w = [SentHeader 200, SentBody ''a'', SentFlush] \<and> length (filter is_header (rc_sent w)) \<le> 1"
proof -
  obtain w entries where r: "ServeHTTP (\<lambda>v. ''{}'') True ''/v1/x'' [CWrite ''ab'' 1, CWriteHeader 500, CFlush] True = (w, entries)"
    by (cases "ServeHTTP (\<lambda>v. ''{}'') True ''/v1/x'' [CWrite ''ab'' 1, CWriteHeader 500, CFlush] True")
  have "rc_sent (capture_ops [CWrite ''ab'' 1, CWriteHeader 500, CFlush] new_capture) = [SentHeader 200, SentBody ''a'', SentFlush]"
    by code_simp
  then show ?thesis
    using one_status_line [OF _ r] r by simp
qed

subsection \<open>A body that is sent again\<close>

lemma newReplayBody_cases:
  assumes "newReplayBody env (Some bytes) fs = (r, fs')" "\<forall>name. rb_create env = Some name \<longrightarrow> fs name = None"
  obtains (failed) "r = None" "fs' = fs" "rb_read_error env \<or> (replayBodyMemoryLimit < length bytes \<and> (rb_create env = None \<or> \<not> rb_write env \<or> \<not> rb_copy env))"
    | (body) replay where "r = Some replay" "replay_reader fs' replay = bytes" "replay_close replay fs' = fs"
        "length (rp_data replay) \<le> replayBodyMemoryLimit" "\<not> rb_read_error env"
proof -
  consider (error) "rb_read_error env" "length bytes \<le> replayBodyMemoryLimit"
    | (small) "\<not> rb_read_error env" "length bytes \<le> replayBodyMemoryLimit"
    | (nofile) "replayBodyMemoryLimit < length bytes" "rb_create env = None"
    | (spilled) name where "replayBodyMemoryLimit < length bytes" "rb_create env = Some name"
    by (cases "rb_create env"; fastforce)
  then show ?thesis
  proof cases
    case error
    then show ?thesis using failed assms(1) by (simp add: newReplayBody_def)
  next
    case small
    then show ?thesis using body assms(1) by (auto simp: newReplayBody_def replay_reader_def replay_close_def Let_def)
  next
    case nofile
    then show ?thesis using failed assms(1) by (simp add: newReplayBody_def Let_def)
  next
    case spilled
    then have none: "fs(name := None) = fs"
      using assms(2) by (simp add: fun_upd_idem)
    have size: "length (take (replayBodyMemoryLimit + 1) bytes) + length (drop (replayBodyMemoryLimit + 1) bytes) = length bytes"
      by simp
    show ?thesis
    proof (cases "rb_write env \<and> \<not> rb_read_error env \<and> rb_copy env")
      case True
      with spilled assms(1) have "r = Some \<lparr>rp_data = [], rp_file = Some name, rp_size = length bytes\<rparr>" "fs' = fs(name \<mapsto> bytes)"
        by (auto simp: newReplayBody_def Let_def)
      then show ?thesis
        using body True none by (simp add: replay_reader_def replay_close_def)
    next
      case False
      with spilled assms(1) none have "r = None" "fs' = fs"
        by (auto simp: newReplayBody_def Let_def split: if_splits)
      then show ?thesis
        using failed False spilled by auto
    qed
  qed
qed



subsection \<open>Reading a stream back\<close>

text \<open>The text of an object as \<open>encoding/json\<close> writes it, short enough for the reader.\<close>

definition event_text :: "string \<Rightarrow> bool" where
  "event_text t \<longleftrightarrow> (\<exists>u. t = CHR ''{'' # u @ ''}'') \<and> newline \<notin> set t \<and> length t + 7 \<le> maxSSEEventBytes"

lemma find_none: "(\<forall>p \<in> set seqs. \<not> P p) \<Longrightarrow> List.find P seqs = None"
  by (induction seqs) auto

lemma drop_none: "(\<forall>p \<in> set seqs. \<not> has_prefix p s) \<Longrightarrow> drop_seqs n seqs s = s"
  by (cases n) (simp_all add: find_none)

lemma not_space: "\<forall>p \<in> set space_seqs. \<not> has_prefix p (CHR ''{'' # s)" "\<forall>p \<in> set (map rev space_seqs). \<not> has_prefix p (CHR ''}'' # s)"
  by (simp_all add: space_seqs_def)

lemma trim_event: "trim_space ('' '' @ CHR ''{'' # u @ ''}'') = CHR ''{'' # u @ ''}''"
proof -
  let ?t = "CHR ''{'' # u @ ''}''"
  have "List.find (\<lambda>w. has_prefix w ('' '' @ ?t)) space_seqs = Some '' ''"
    by (simp add: space_seqs_def)
  then have l: "trim_left ('' '' @ ?t) = ?t"
    using drop_none [OF not_space(1)] by (simp add: trim_left_def del: has_prefix.simps)
  have r: "rev ?t = CHR ''}'' # rev u @ ''{''"
    by simp
  show ?thesis
    unfolding trim_space_def Let_def l r drop_none [OF not_space(2)] by simp
qed

lemma read_line:
  assumes "newline \<notin> set l" "length l < maxSSEEventBytes"
  shows "readSSELine \<lparr>rd_bytes = l @ newline # rest, rd_broken = b\<rparr> maxSSEEventBytes
    = (SseLine (trim_cr l) False, \<lparr>rd_bytes = rest, rd_broken = b\<rparr>)"
proof -
  have "span (\<lambda>c. c \<noteq> newline) (l @ newline # rest) = (l, newline # rest)"
    using assms(1) by (induction l) (auto simp: span_def)
  then show ?thesis
    using assms(2) by (simp add: readSSELine_def)
qed

lemma trim_cr_event: "trim_cr (l @ ''}'') = l @ ''}''" "trim_cr [] = []" "trim_cr ''data: [DONE]'' = ''data: [DONE]''"
  by (simp_all add: trim_cr_def trim_suffix_def has_suffix_def)

lemma data_line_event: "event_text t \<Longrightarrow> data_line [] (''data: '' @ t) = Some t"
  using trim_event by (auto simp: event_text_def data_line_def trim_prefix_def)

text \<open>The state after an event, for a consumer that records.\<close>

definition seen :: "gomap \<Rightarrow> gomap list sse_state \<Rightarrow> gomap list sse_state" where
  "seen e st = st\<lparr>ss_data := [], ss_terminal := ss_terminal st \<or> fst (event_terminal e),
     ss_finished := ss_finished st \<or> snd (event_terminal e), ss_notes := ss_notes st @ event_note e, ss_user := ss_user st @ [e]\<rparr>"

definition closing :: "'s sse_state \<Rightarrow> 's sse_state \<times> go_error option" where
  "closing st = (st, if ss_terminal st then None else Some (BackendError 502 ''Codex stream closed before the response completed.''))"

lemma stream_end_closing: "ss_data st = [] \<Longrightarrow> stream_end decode fn st = closing st"
  by (simp add: stream_end_def flush_def block_event_def closing_def)

lemma read_frame:
  assumes "event_text (marshal v)" "decode (marshal v) = Some m" "ss_data st = []"
  defines "e \<equiv> normalizeBackendEvent m"
  shows "sse_loop decode idle recorder \<lparr>rd_bytes = writeSSE marshal v @ rest, rd_broken = b\<rparr> st
    = (if ss_finished (seen e st) then closing (seen e st) else sse_loop decode idle recorder \<lparr>rd_bytes = rest, rd_broken = b\<rparr> (seen e st))"
proof -
  let ?t = "marshal v"
  obtain u where u: "?t = CHR ''{'' # u @ ''}''"
    using assms(1) by (auto simp: event_text_def)
  have t: "newline \<notin> set (''data: '' @ ?t)" "length (''data: '' @ ?t) < maxSSEEventBytes" "?t \<noteq> ''[DONE]''" "?t \<noteq> []"
    using assms(1) u by (auto simp: event_text_def newline_def)
  have bytes: "writeSSE marshal v @ rest = (''data: '' @ ?t) @ newline # newline # rest"
    by (simp add: writeSSE_def)
  have cr: "trim_cr (''data: '' @ ?t) = ''data: '' @ ?t"
    using trim_cr_event(1) [of "''data: {'' @ u"] by (simp add: u)
  have l1: "readSSELine \<lparr>rd_bytes = writeSSE marshal v @ rest, rd_broken = b\<rparr> maxSSEEventBytes
      = (SseLine (''data: '' @ ?t) False, \<lparr>rd_bytes = newline # rest, rd_broken = b\<rparr>)"
    unfolding bytes read_line [OF t(1,2)] cr ..
  have l2: "readSSELine \<lparr>rd_bytes = newline # rest, rd_broken = b\<rparr> maxSSEEventBytes = (SseLine [] False, \<lparr>rd_bytes = rest, rd_broken = b\<rparr>)"
    using read_line [of "[]" rest b] by (simp add: trim_cr_event maxSSEEventBytes_def)
  have fl: "flush decode recorder (st\<lparr>ss_data := ?t\<rparr>) = (seen e st, None)"
    using assms(2) t(3,4) by (simp add: flush_def block_event_def recorder_def seen_def e_def split: prod.split)
  have "sse_loop decode idle recorder \<lparr>rd_bytes = writeSSE marshal v @ rest, rd_broken = b\<rparr> st
      = sse_loop decode idle recorder \<lparr>rd_bytes = newline # rest, rd_broken = b\<rparr> (st\<lparr>ss_data := ?t\<rparr>)"
    by (subst sse_loop.simps) (simp add: l1 assms(3) data_line_event [OF assms(1), simplified])
  also have "\<dots> = (if ss_finished (seen e st) then closing (seen e st) else sse_loop decode idle recorder \<lparr>rd_bytes = rest, rd_broken = b\<rparr> (seen e st))"
    by (subst sse_loop.simps) (simp add: l2 fl stream_end_closing seen_def)
  finally show ?thesis .
qed

lemma no_data [simp]: "ss_data st = [] \<Longrightarrow> st\<lparr>ss_data := []\<rparr> = st"
  by (cases st) simp

lemma read_end: "ss_data st = [] \<Longrightarrow> sse_loop decode idle fn \<lparr>rd_bytes = [], rd_broken = False\<rparr> st = closing st"
  by (subst sse_loop.simps) (simp add: readSSELine_def span_def trim_cr_event flush_def block_event_def stream_end_closing)

lemma read_done:
  assumes "ss_data st = []"
  shows "sse_loop decode idle fn \<lparr>rd_bytes = done_frame, rd_broken = False\<rparr> st = closing st"
proof -
  have n: "newline \<notin> set ''data: [DONE]''" "length ''data: [DONE]'' < maxSSEEventBytes"
    by (simp_all add: newline_def maxSSEEventBytes_def)
  have l1: "readSSELine \<lparr>rd_bytes = done_frame, rd_broken = False\<rparr> maxSSEEventBytes
      = (SseLine ''data: [DONE]'' False, \<lparr>rd_bytes = [newline], rd_broken = False\<rparr>)"
    using read_line [OF n, of "[newline]" False] by (simp add: done_frame_def trim_cr_event)
  have l2: "readSSELine \<lparr>rd_bytes = [newline], rd_broken = False\<rparr> maxSSEEventBytes = (SseLine [] False, \<lparr>rd_bytes = [], rd_broken = False\<rparr>)"
    using read_line [of "[]" "[]" False] by (simp add: trim_cr_event maxSSEEventBytes_def)
  have d: "data_line [] ''data: [DONE]'' = Some ''[DONE]''"
  proof -
    have "trim_space '' [DONE]'' = ''[DONE]''"
      by code_simp
    then show ?thesis
      by (simp add: data_line_def trim_prefix_def maxSSEEventBytes_def)
  qed
  have "sse_loop decode idle fn \<lparr>rd_bytes = done_frame, rd_broken = False\<rparr> st
      = sse_loop decode idle fn \<lparr>rd_bytes = [newline], rd_broken = False\<rparr> (st\<lparr>ss_data := ''[DONE]''\<rparr>)"
    by (subst sse_loop.simps) (simp add: l1 assms d)
  also have "\<dots> = closing st"
    using assms by (subst sse_loop.simps) (simp add: l2 flush_def block_event_def read_end stream_end_closing)
  finally show ?thesis .
qed

text \<open>The events up to the one that finishes the stream.\<close>

fun until_finished :: "gomap list \<Rightarrow> gomap list" where
  "until_finished [] = []"
| "until_finished (e # es) = e # (if snd (event_terminal e) then [] else until_finished es)"

lemma seen_sel [simp]:
  "ss_data (seen e st) = []" "ss_user (seen e st) = ss_user st @ [e]" "ss_terminal (seen e st) \<longleftrightarrow> ss_terminal st \<or> fst (event_terminal e)"
  "ss_finished (seen e st) \<longleftrightarrow> ss_finished st \<or> snd (event_terminal e)"
  by (simp_all add: seen_def)

lemma read_frames:
  assumes "\<forall>e \<in> set events. event_text (marshal e) \<and> decode (marshal e) = Some (cloneMap (mapAny e))"
    and "ss_data st = []" "\<not> ss_finished st" "rest = [] \<or> rest = done_frame"
  defines "received \<equiv> until_finished (map (\<lambda>e. normalizeBackendEvent (cloneMap (mapAny e))) events)"
  shows "\<exists>st'. sse_loop decode idle recorder \<lparr>rd_bytes = concat (map (writeSSE marshal) events) @ rest, rd_broken = False\<rparr> st
      = closing st' \<and> ss_user st' = ss_user st @ received
        \<and> (ss_terminal st' \<longleftrightarrow> ss_terminal st \<or> list_ex (\<lambda>e. fst (event_terminal e)) received)"
  using assms(1-3) unfolding received_def
proof (induction events arbitrary: st)
  case Nil
  then show ?case
    using assms(4) read_end read_done by fastforce
next
  case (Cons e events)
  then have e: "event_text (marshal e)" "decode (marshal e) = Some (cloneMap (mapAny e))"
    by auto
  let ?e = "normalizeBackendEvent (cloneMap (mapAny e))"
  let ?rest = "concat (map (writeSSE marshal) events) @ rest"
  note frame = read_frame [of marshal e decode _ st idle ?rest False, OF e Cons.prems(2)]
  show ?case
  proof (cases "snd (event_terminal ?e)")
    case True
    then show ?thesis
      by (intro exI [of _ "seen ?e st"]) (simp add: frame)
  next
    case False
    then obtain st' where "sse_loop decode idle recorder \<lparr>rd_bytes = ?rest, rd_broken = False\<rparr> (seen ?e st) = closing st'"
      "ss_user st' = ss_user (seen ?e st) @ until_finished (map (\<lambda>e. normalizeBackendEvent (cloneMap (mapAny e))) events)"
      "ss_terminal st' \<longleftrightarrow> ss_terminal (seen ?e st) \<or> list_ex (\<lambda>e. fst (event_terminal e)) (until_finished (map (\<lambda>e. normalizeBackendEvent (cloneMap (mapAny e))) events))"
      using Cons.IH [of "seen ?e st"] Cons.prems by auto
    with False Cons.prems(3) show ?thesis
      by (intro exI [of _ st']) (simp add: frame)
  qed
qed

definition streaming :: "responseCapture \<Rightarrow> bool" where
  "streaming w \<longleftrightarrow> (if rc_wroteHeader w then \<exists>rest. rc_sent w = SentHeader 200 # rest \<and> SentHijack \<notin> set rest else rc_sent w = [])"

lemma streaming_write:
  "streaming w \<Longrightarrow> streaming (capture_Write data n w) \<and> rc_wroteHeader (capture_Write data n w)
    \<and> sent_bytes (rc_sent (capture_Write data n w)) = sent_bytes (rc_sent w) @ take n data"
  by (auto simp: streaming_def capture_Write_def implicit_header_def capture_WriteHeader_def Let_def split: if_splits)

lemma streaming_flush:
  "streaming w \<Longrightarrow> streaming (capture_Flush w) \<and> rc_wroteHeader (capture_Flush w) \<and> sent_bytes (rc_sent (capture_Flush w)) = sent_bytes (rc_sent w)"
  by (auto simp: streaming_def capture_Flush_def implicit_header_def capture_WriteHeader_def Let_def split: if_splits)

definition frame_ops :: "string \<Rightarrow> capture_op list" where
  "frame_ops frame = [write_all frame, CFlush]"

lemma streaming_frame:
  assumes "streaming w"
  shows "streaming (capture_ops (frame_ops frame) w) \<and> rc_wroteHeader (capture_ops (frame_ops frame) w)
    \<and> sent_bytes (rc_sent (capture_ops (frame_ops frame) w)) = sent_bytes (rc_sent w) @ frame"
  using streaming_write [OF assms, of frame "length frame"] streaming_flush [of "capture_Write frame (length frame) w"]
  by (simp add: capture_ops_def frame_ops_def write_all_def)

lemma capture_ops_append: "capture_ops (xs @ ys) w = capture_ops ys (capture_ops xs w)"
  by (simp add: capture_ops_def)

lemma streaming_frames:
  "streaming w \<Longrightarrow> frames \<noteq> [] \<Longrightarrow> (let w' = capture_ops (concat (map frame_ops frames)) w in
     streaming w' \<and> rc_wroteHeader w' \<and> sent_bytes (rc_sent w') = sent_bytes (rc_sent w) @ concat frames)"
proof (induction frames arbitrary: w)
  case (Cons frame frames)
  then show ?case
    using streaming_frame [of w frame] by (cases frames) (auto simp: capture_ops_append Let_def)
qed simp

lemma answer_frames:
  "answer_ops marshal (EventAnswer events finished)
     = concat (map frame_ops (map (writeSSE marshal) events @ (if finished then [done_frame] else [])))"
  by (simp add: answer_ops_def frame_ops_def comp_def)

text \<open>C8: What one server streams another can read: a proxy of this kind in front of one of this kind gets, event by
  event and in order, the JSON of what the handler of the first sent, normalized as its own events are, up to the
  event that finishes the stream; the status and the bytes are those the writer put on the connection.  A handler that
  panicked in the middle is noticed by the reader, unless a final event had been sent.\<close>

theorem streams_can_be_chained:
  assumes "\<forall>e \<in> set events. event_text (marshal e) \<and> decode (marshal e) = Some (cloneMap (mapAny e))" "events \<noteq> []"
    and "ServeHTTP marshal verbose path (answer_ops marshal (EventAnswer events finished)) (\<not> finished) = (w, entries)"
    and "ae_sent env = Inr up" "up_status up = sent_status (rc_sent w)"
    and "up_body up = \<lparr>rd_bytes = sent_bytes (rc_sent w), rd_broken = False\<rparr>"
  shows "let received = until_finished (map (\<lambda>e. normalizeBackendEvent (cloneMap (mapAny e))) events) in
    attempt_events http_date decode env = (received,
      if list_ex (\<lambda>e. fst (event_terminal e)) received then None
      else Some (BackendError 502 ''Codex stream closed before the response completed.''))"
proof -
  let ?frames = "map (writeSSE marshal) events @ (if finished then [done_frame] else [])"
  have "streaming new_capture" "sent_bytes (rc_sent new_capture) = []"
    by (simp_all add: streaming_def new_capture_def)
  then have h: "streaming (capture_ops (concat (map frame_ops ?frames)) new_capture)"
    "rc_wroteHeader (capture_ops (concat (map frame_ops ?frames)) new_capture)"
    "sent_bytes (rc_sent (capture_ops (concat (map frame_ops ?frames)) new_capture)) = concat ?frames"
    using streaming_frames [of new_capture ?frames] assms(2) unfolding Let_def by auto
  have w: "w = capture_ops (concat (map frame_ops ?frames)) new_capture"
    using assms(3) h(2) unfolding ServeHTTP_def Let_def answer_frames by simp
  have status: "up_status up = 200"
    using h(1,2) unfolding assms(5) w by (auto simp: streaming_def sent_status_def)
  have bytes: "up_body up = \<lparr>rd_bytes = concat (map (writeSSE marshal) events) @ (if finished then done_frame else []), rd_broken = False\<rparr>"
    unfolding assms(6) w h(3) by simp
  have tail: "(if finished then done_frame else []) = [] \<or> (if finished then done_frame else []) = done_frame"
    by simp
  let ?start = "sse_start [] :: gomap list sse_state"
  have start: "ss_data ?start = []" "\<not> ss_finished ?start" "ss_user ?start = []" "\<not> ss_terminal ?start"
    by (simp_all add: sse_start_def)
  obtain st' where "sse_loop decode (ae_idle env) recorder (up_body up) (sse_start []) = closing st'"
    "ss_user st' = until_finished (map (\<lambda>e. normalizeBackendEvent (cloneMap (mapAny e))) events)"
    "ss_terminal st' \<longleftrightarrow> list_ex (\<lambda>e. fst (event_terminal e)) (until_finished (map (\<lambda>e. normalizeBackendEvent (cloneMap (mapAny e))) events))"
    using read_frames [OF assms(1) start(1,2) tail, of "ae_idle env"] start(3,4) unfolding bytes by (auto simp only: append_Nil simp_thms)
  then show ?thesis
    by (simp add: attempt_events_def streamOnce_def assms(4) status closing_def Let_def)
qed

theorem streams_can_be_chained_witness:
  "\<exists>w entries. ServeHTTP (\<lambda>v. ''{}'') False ''/v1/responses''
       (answer_ops (\<lambda>v. ''{}'') (EventAnswer [JObj (event_obj sample_event), JObj (event_obj sample_event)] True)) False = (w, entries)
     \<and> attempt_events (\<lambda>_. None) sample_decode (sample_env\<lparr>ae_sent := Inr \<lparr>up_account = ''a'', up_status = sent_status (rc_sent w),
         up_status_line = ''200 OK'', up_retry_after = [], up_error_doc = None,
         up_body = \<lparr>rd_bytes = sent_bytes (rc_sent w), rd_broken = False\<rparr>\<rparr>\<rparr>) = ([sample_event], None)"
proof -
  let ?events = "[JObj (event_obj sample_event), JObj (event_obj sample_event)]"
  obtain w entries where s: "ServeHTTP (\<lambda>v. ''{}'') False ''/v1/responses'' (answer_ops (\<lambda>v. ''{}'') (EventAnswer ?events True)) (\<not> True) = (w, entries)"
    by (cases "ServeHTTP (\<lambda>v. ''{}'') False ''/v1/responses'' (answer_ops (\<lambda>v. ''{}'') (EventAnswer ?events True)) (\<not> True)")
  have e: "event_text ''{}''"
    by (simp add: event_text_def newline_def maxSSEEventBytes_def)
  have n: "normalizeBackendEvent sample_event = sample_event" "event_terminal sample_event = (True, True)"
    by (simp_all add: sample_event_def normalizeBackendEvent_def event_terminal_def event_type_def)
  have "attempt_events (\<lambda>_. None) sample_decode (sample_env\<lparr>ae_sent := Inr \<lparr>up_account = ''a'', up_status = sent_status (rc_sent w),
         up_status_line = ''200 OK'', up_retry_after = [], up_error_doc = None,
         up_body = \<lparr>rd_bytes = sent_bytes (rc_sent w), rd_broken = False\<rparr>\<rparr>\<rparr>) = ([sample_event], None)"
    using streams_can_be_chained [OF _ _ s, of sample_decode "sample_env\<lparr>ae_sent := Inr \<lparr>up_account = ''a'', up_status = sent_status (rc_sent w),
         up_status_line = ''200 OK'', up_retry_after = [], up_error_doc = None,
         up_body = \<lparr>rd_bytes = sent_bytes (rc_sent w), rd_broken = False\<rparr>\<rparr>\<rparr>"] e n
    by (simp add: sample_decode_def event_obj_def sample_event_def cloneMap_def clone_obj_def)
  then show ?thesis
    using s by auto
qed

subsection \<open>Headers, bodies, slots and the server\<close>

lemma clear_after_set:
  "map_of (clearSSE (setSSE h)) k
     = (if k \<in> {''Content-Type'', ''Cache-Control'', ''Connection'', ''X-Accel-Buffering''} then None else map_of h k)"
  by (simp add: clearSSE_def setSSE_def map_of_delete update_conv')

lemma decoders_agree: "length text \<le> 33554432 \<Longrightarrow> decodeObject dec text = decodeWebSocketEvent dec text"
  by (auto simp: decodeObject_def decodeWebSocketEvent_def split: option.splits)

text \<open>A body beyond 32 MiB is cut, not refused.\<close>

lemma long_body_is_cut: "length text = 33554432 \<Longrightarrow> decodeObject dec (text @ more_text) = decodeObject dec text"
  by (simp add: decodeObject_def)

lemma slot_is_given_back: "fst (snd (passed_on cancelled send sl fs)) = sl"
  by (auto simp: passed_on_def acquireRequest_def release_slot_def split: option.split sum.split prod.split)

lemma serve_starts:
  "Listening \<in> set (snd (serve env c)) \<longleftrightarrow> se_listen env = None \<and> (se_preflight env = None \<or> cg_APIKey c \<noteq> [])"
  by (auto simp: serve_def serve_listening_def shutdown_def split: option.split serve_event.split prod.split)

lemma keep_alive_runs: "keepWebSocketAlive es = None \<longleftrightarrow> set es \<subseteq> {Tick None}"
  by (induction es rule: keepWebSocketAlive.induct) auto

end
