(* ===== verification/Fake.thy ===== *)
theory Fake
  imports Service Chats Auth Config
begin

text \<open>
  The backend the repository's tests run against (\<open>internal/testutil/codexfake\<close>): a server that keeps the
  requests it saw and answers a payload with a scripted stream, steered by words in the text.  It is the
  executable account of what the code expects of Codex; the laws run the server's handlers against it.
\<close>

section \<open>Reading a payload\<close>

text \<open>\<open>slice\<close> keeps the nil slice apart, which is written as \<open>null\<close>.\<close>

definition fake_slice :: "json \<Rightarrow> json" where
  "fake_slice v = (case v of JArr xs \<Rightarrow> JArr xs | _ \<Rightarrow> JNilArr)"

definition toolByType :: "gomap \<Rightarrow> string \<Rightarrow> gomap" where
  "toolByType payload t = (case List.find (\<lambda>raw. mapAny raw \<noteq> None \<and> mget (mapAny raw) ''type'' = JStr t) (sliceAny (mget payload ''tools'')) of
       None \<Rightarrow> None | Some raw \<Rightarrow> mapAny raw)"

definition firstFunctionTool :: "gomap \<Rightarrow> gomap" where
  "firstFunctionTool payload = toolByType payload ''function''"

definition hasTool :: "gomap \<Rightarrow> string \<Rightarrow> bool" where
  "hasTool payload t = (toolByType payload t \<noteq> None)"

definition fake_int :: "json \<Rightarrow> int" where
  "fake_int v = (case v of JInt n \<Rightarrow> n | JFloat x \<Rightarrow> float_to_int x | JNumber s \<Rightarrow> fst (atoi s) | _ \<Rightarrow> 0)"

fun flattenText :: "json \<Rightarrow> string" where
  "flattenText (JStr s) = s"
| "flattenText (JArr xs) = join '' '' (filter (\<lambda>t. t \<noteq> []) (map flattenText xs))"
| "flattenText (JObj m) = (let members = map (\<lambda>(k, v). (k, flattenText v)) m in
     if oget m ''type'' \<in> {JStr ''input_text'', JStr ''output_text'', JStr ''text''} then sprint (oget m ''text'')
     else join '' '' (filter (\<lambda>t. t \<noteq> []) (map (\<lambda>k. case map_of members k of Some t \<Rightarrow> t | None \<Rightarrow> [])
       [''content'', ''input'', ''output''])))"
| "flattenText _ = []"

section \<open>The answer\<close>

definition outputMessage :: "int \<Rightarrow> string \<Rightarrow> obj" where
  "outputMessage number text =
     [(''id'', JStr (''msg_go_contract_'' @ itoa number)), (''type'', JStr ''message''), (''role'', JStr ''assistant''),
      (''status'', JStr ''completed''), (''phase'', JStr ''final_answer''),
      (''content'', JArr [JObj [(''type'', JStr ''output_text''), (''text'', JStr text), (''annotations'', JArr [])]])]"

definition png_header :: string where
  "png_header = [CHR 0x89, CHR ''P'', CHR ''N'', CHR ''G'', CHR 0x0D, CHR 0x0A, CHR 0x1A, CHR 0x0A]"

definition tokyo :: string where
  "tokyo = [CHR ''{'', CHR 0x22, CHR ''c'', CHR ''i'', CHR ''t'', CHR ''y'', CHR 0x22, CHR '':'', CHR 0x22, CHR ''T'', CHR ''o'', CHR ''k'',
     CHR ''y'', CHR ''o'', CHR 0x22, CHR ''}'']"

definition fake_text :: "gomap \<Rightarrow> string" where
  "fake_text payload = ''fake Go contract: '' @ flattenText (mget payload ''input'')"

definition fake_item :: "int \<Rightarrow> gomap \<Rightarrow> obj" where
  "fake_item number payload =
     (if toolByType payload ''image_generation'' \<noteq> None then
        [(''id'', JStr (''ig_go_contract_'' @ itoa number)), (''type'', JStr ''image_generation_call''),
         (''status'', JStr ''completed''), (''result'', JStr (base64_encode (png_header @ ''Go-contract''))),
         (''revised_prompt'', JStr ''revised by Go fake Codex'')]
      else case firstFunctionTool payload of
        Some tool \<Rightarrow>
          [(''id'', JStr (''fc_go_contract_'' @ itoa number)), (''type'', JStr ''function_call''),
           (''call_id'', JStr (''call_go_contract_'' @ itoa number)), (''status'', JStr ''completed''),
           (''name'', oget tool ''name''), (''arguments'', JStr tokyo)]
      | None \<Rightarrow> outputMessage number (fake_text payload))"

definition fake_usage :: obj where
  "fake_usage =
     [(''input_tokens'', JInt 3), (''output_tokens'', JInt 5), (''total_tokens'', JInt 8),
      (''input_tokens_details'', JObj [(''cached_tokens'', JInt 2)]),
      (''output_tokens_details'', JObj [(''reasoning_tokens'', JInt 4)])]"

definition fake_response :: "int \<Rightarrow> rat \<Rightarrow> gomap \<Rightarrow> obj" where
  "fake_response number createdAt payload =
     [(''id'', JStr (''resp_go_contract_'' @ itoa number)), (''object'', JStr ''response''), (''created_at'', JFloat createdAt),
      (''status'', JStr ''completed''), (''model'', mget payload ''model''), (''output'', JArr [JObj (fake_item number payload)]),
      (''parallel_tool_calls'', JBool True), (''tool_choice'', valueOr (mget payload ''tool_choice'') (JStr ''auto'')),
      (''tools'', fake_slice (mget payload ''tools'')), (''usage'', JObj fake_usage)]"

definition fake_created :: "obj \<Rightarrow> obj" where
  "fake_created response = oset ''output'' (JArr []) (oset ''status'' (JStr ''in_progress'') (clone_obj response))"

definition numbered :: "string \<Rightarrow> int \<Rightarrow> obj \<Rightarrow> json" where
  "numbered t seq rest = JObj ((''type'', JStr t) # (''sequence_number'', JInt seq) # rest)"

text \<open>The failures: an overload as Codex reported it, with or without the failed response.\<close>

definition overload_detail :: obj where
  "overload_detail = [(''type'', JStr ''service_unavailable_error''), (''code'', JStr ''server_is_overloaded''), (''param'', JNull),
     (''message'', JStr ''Our servers are currently overloaded. Please try again later.'')]"

definition overload_events :: "string \<Rightarrow> obj \<Rightarrow> json list" where
  "overload_events text created = numbered ''error'' 2 [(''error'', JObj overload_detail)]
     # (if str_contains ''FAKE_OVERLOADED'' text
        then [numbered ''response.failed'' 3 [(''response'', JObj (oset ''error'' (JObj [(''code'', oget overload_detail ''code''),
                (''message'', oget overload_detail ''message'')]) (oset ''status'' (JStr ''failed'') (clone_obj created))))]]
        else [])"

text \<open>What comes before the item is done: the progress of an image, the arguments of a call, or the text.\<close>

definition partial_image :: "gomap \<Rightarrow> json \<Rightarrow> nat \<Rightarrow> json" where
  "partial_image tool item_id i = numbered ''response.image_generation_call.partial_image'' 3
     [(''output_index'', JInt 0), (''item_id'', item_id), (''partial_image_index'', JInt (int i)),
      (''partial_image_b64'', JStr (base64_encode (png_header @ ''Go-partial-'' @ itoa (int i)))),
      (''size'', JStr ''1024x1024''), (''quality'', JStr ''low''), (''background'', JStr ''opaque''),
      (''output_format'', valueOr (mget tool ''output_format'') (JStr ''png''))]"

definition image_events :: "gomap \<Rightarrow> json \<Rightarrow> json list" where
  "image_events tool item_id =
     [numbered ''response.image_generation_call.in_progress'' 1 [(''output_index'', JInt 0), (''item_id'', item_id)],
      numbered ''response.image_generation_call.generating'' 2 [(''output_index'', JInt 0), (''item_id'', item_id)]]
     @ map (partial_image tool item_id) [0..<nat (fake_int (mget tool ''partial_images''))]"

definition call_events :: "string \<Rightarrow> obj \<Rightarrow> json list" where
  "call_events text item =
     numbered ''response.output_item.added'' 1 [(''output_index'', JInt 0),
       (''item'', JObj (oset ''status'' (JStr ''in_progress'') (oset ''arguments'' (JStr []) (clone_obj item))))]
     # (if str_contains ''FAKE_ARGS_DONE_ONLY'' text
        then [numbered ''response.function_call_arguments.done'' 2 [(''output_index'', JInt 0), (''item_id'', oget item ''id''), (''arguments'', JStr tokyo)]]
        else if \<not> str_contains ''FAKE_NO_ARGUMENT_DELTA'' text
        then [numbered ''response.function_call_arguments.delta'' 2 [(''output_index'', JInt 0), (''delta'', JStr tokyo)]]
        else [])"

definition item_events :: "gomap \<Rightarrow> string \<Rightarrow> obj \<Rightarrow> json list" where
  "item_events payload text item =
     (if oget item ''type'' = JStr ''image_generation_call'' then image_events (toolByType payload ''image_generation'') (oget item ''id'')
      else if oget item ''type'' = JStr ''function_call'' then call_events text item
      else if oget item ''type'' = JStr ''message'' then
        [numbered ''response.output_text.delta'' 1 [(''output_index'', JInt 0), (''content_index'', JInt 0), (''item_id'', oget item ''id''),
           (''delta'', JStr text), (''logprobs'', JArr [])]]
      else [])"

text \<open>The last event, if one is sent, and whether \<open>[DONE]\<close> follows.\<close>

definition last_events :: "string \<Rightarrow> obj \<Rightarrow> json list \<times> bool" where
  "last_events text response =
     (if str_contains ''FAKE_DELTA_ONLY'' text then ([], False)
      else if str_contains ''FAKE_RESPONSE_FAILED'' text
        then ([numbered ''response.failed'' 4 [(''response'', JObj (oset ''status'' (JStr ''failed'') response))]], False)
      else if str_contains ''FAKE_RAW_DONE'' text
        then ([numbered ''response.done'' 4 [(''response'', JObj (oset ''status'' (JStr ''backend-specific-status'') response))]], True)
      else ([numbered ''response.completed'' 4 [(''response'', JObj response)]], True))"

text \<open>An answer: one document with its status and headers, or a stream and whether \<open>[DONE]\<close> ends it.\<close>

datatype fake_answer = FakeDoc int "(string \<times> string) list" obj | FakeStream "json list" bool

definition fake_responses :: "int \<Rightarrow> rat \<Rightarrow> gomap \<Rightarrow> fake_answer" where
  "fake_responses number createdAt payload = (let
     text = fake_text payload;
     item = fake_item number payload;
     response = fake_response number createdAt payload;
     created = fake_created response;
     first = numbered ''response.created'' 0 [(''response'', JObj created)]
     in if str_contains ''FAKE_HTTP_ERROR'' text
        then FakeDoc 502 [(''Content-Type'', ''application/json'')]
          [(''error'', JObj [(''message'', JStr ''upstream access_token=tok_abcdefghijklmnopqrstuvwxyz failed'')])]
        else if str_contains ''FAKE_OVERLOADED'' text \<or> str_contains ''FAKE_ERROR_ONLY'' text
        then FakeStream (first # overload_events text created) False
        else if str_contains ''FAKE_UPSTREAM_ERROR'' text then FakeStream [first] False
        else (let (final, finished) = last_events text response in
          FakeStream (first # item_events payload text item
            @ [numbered ''response.output_item.done'' 3 [(''output_index'', JInt 0), (''item'', JObj item)]] @ final) finished))"

text \<open>The bytes of the answer.\<close>

definition fake_bytes :: "(json \<Rightarrow> string) \<Rightarrow> fake_answer \<Rightarrow> string" where
  "fake_bytes marshal a = (case a of
       FakeDoc status headers doc \<Rightarrow> marshal (JObj doc) @ [newline]
     | FakeStream events finished \<Rightarrow> concat (map (writeSSE marshal) events) @ (if finished then done_frame else []))"

section \<open>The server\<close>

record fake_request =
  fr_Method :: string
  fr_Path :: string
  fr_Query :: string
  fr_Headers :: "(string \<times> string list) list"
  fr_JSON :: gomap
  fr_Body :: string

record fake_server =
  fk_counter :: int
  fk_seen :: "fake_request list"
  fk_active :: nat
  fk_maximum :: nat

definition fake_new :: fake_server where
  "fake_new = \<lparr>fk_counter = 0, fk_seen = [], fk_active = 0, fk_maximum = 0\<rparr>"

text \<open>\<open>responses\<close> up to its answer, and its end.\<close>

definition fake_begin :: "fake_server \<Rightarrow> fake_server" where
  "fake_begin f = f\<lparr>fk_active := fk_active f + 1, fk_maximum := max (fk_maximum f) (fk_active f + 1), fk_counter := fk_counter f + 1\<rparr>"

definition fake_end :: "fake_server \<Rightarrow> fake_server" where
  "fake_end f = f\<lparr>fk_active := fk_active f - 1\<rparr>"

definition responses_path :: string where
  "responses_path = ''/backend-api/codex/responses''"

definition fake_models :: obj where
  "fake_models = [(''models'', JArr [
     JObj [(''slug'', JStr ''gpt-5.6-luna''), (''supported_in_api'', JBool True), (''visibility'', JStr ''list'')],
     JObj [(''slug'', JStr ''hidden-model''), (''supported_in_api'', JBool True), (''visibility'', JStr ''hidden'')],
     JObj [(''slug'', JStr ''unsupported-model''), (''supported_in_api'', JBool False), (''visibility'', JStr ''list'')]])]"

text \<open>\<open>handle\<close>: the request is kept; one for a response is running afterwards, until \<open>fake_end\<close>.  \<open>uri\<close> is
  \<open>RequestURI\<close>.\<close>

definition fake_handle :: "rat \<Rightarrow> string \<Rightarrow> fake_request \<Rightarrow> fake_server \<Rightarrow> fake_answer \<times> fake_server" where
  "fake_handle createdAt uri r f = (let f = f\<lparr>fk_seen := fk_seen f @ [r]\<rparr> in
     if fr_Method r = ''GET'' \<and> fr_Path r = ''/backend-api/codex/models''
       then (FakeDoc 200 [(''Content-Type'', ''application/json'')] fake_models, f)
     else if fr_Method r = ''POST'' \<and> fr_Path r = responses_path
       then (let f = fake_begin f in (fake_responses (fk_counter f) createdAt (fr_JSON r), f))
     else if fr_Method r = ''POST'' \<and> fr_Path r = ''/backend-api/transcribe''
       then (FakeDoc 200 [(''Content-Type'', ''application/json'')] [(''text'', JStr ''transcribed by Go fake Codex'')], f)
     else (FakeDoc 200 [(''Content-Type'', ''application/json''), (''X-Upstream-Request-ID'', ''fake-upstream-request''),
             (''Set-Cookie'', ''session=must-not-forward'')]
           [(''object'', JStr ''list''), (''data'', JArr []), (''has_more'', JBool False), (''request_method'', JStr (fr_Method r)),
            (''request_path'', JStr uri)], f))"

text \<open>What tests ask: \<open>None\<close> is \<open>t.Fatal\<close>.\<close>

definition LastResponseRequest :: "fake_server \<Rightarrow> fake_request option" where
  "LastResponseRequest f = List.find (\<lambda>r. fr_Path r = responses_path) (rev (fk_seen f))"

definition BackendURL :: "string \<Rightarrow> string" where
  "BackendURL url = url @ ''/backend-api/codex''"

section \<open>The backend in front of it\<close>

text \<open>What an attempt of \<open>stream\<close> meets when the fake answers it: \<open>payload\<close> is the JSON of what is sent.\<close>

definition fake_upstream :: "(json \<Rightarrow> string) \<Rightarrow> fake_answer \<Rightarrow> upstream" where
  "fake_upstream marshal a =
     \<lparr>up_account = ''default'', up_status = (case a of FakeDoc status headers doc \<Rightarrow> status | FakeStream events finished \<Rightarrow> 200),
      up_status_line = [], up_retry_after = [],
      up_error_doc = (case a of FakeDoc status headers doc \<Rightarrow> cloneMap (Some doc) | FakeStream events finished \<Rightarrow> None),
      up_body = \<lparr>rd_bytes = fake_bytes marshal a, rd_broken = False\<rparr>\<rparr>"

definition sent_document :: "string list \<Rightarrow> obj \<Rightarrow> gomap" where
  "sent_document drop_params payload = cloneMap (Some (odel ''fast_mode'' (prepareCodexPayload payload drop_params)))"

definition fake_attempt :: "(json \<Rightarrow> string) \<Rightarrow> int \<Rightarrow> rat \<Rightarrow> gomap \<Rightarrow> attempt_env" where
  "fake_attempt marshal number createdAt document =
     \<lparr>ae_sent = Inr (fake_upstream marshal (fake_responses number createdAt document)), ae_idle = False, ae_now = 0, ae_now_end = 0,
      ae_jitter = 0, ae_cancelled = False, ae_cancelled_wait = False\<rparr>"

definition fake_backend ::
  "(json \<Rightarrow> string) \<Rightarrow> (string \<Rightarrow> gomap option) \<Rightarrow> retry_cfg \<Rightarrow> string list \<Rightarrow> int \<Rightarrow> rat \<Rightarrow> codexBackend" where
  "fake_backend marshal decode cfg drop_params served createdAt =
     \<lparr>be_http_date = (\<lambda>_. None), be_decode = decode, be_now = 0, be_cfg = cfg,
      be_attempts = (\<lambda>payload k. fake_attempt marshal (served + int k + 1) createdAt (sent_document drop_params payload))\<rparr>"

section \<open>Laws\<close>

subsection \<open>A stream that ends well at once\<close>

definition quiet :: "gomap \<Rightarrow> bool" where
  "quiet e \<longleftrightarrow> stringValue (event_type e) \<notin> {''error'', ''response.failed'', ''response.completed'', ''response.incomplete''}"

lemma hold_commits:
  assumes "\<not> hs_committed h" "list_all quiet evs" "stringValue (event_type fin) = ''response.completed''"
    and "feed_then (hold_event hp cfg env ho n fn) h (evs @ [fin]) None = (h', err)"
  shows "hs_committed h'"
  using assms
proof (induction evs arbitrary: h)
  case Nil
  then show ?case
    using commit_feed by (auto simp: feed_then_Cons hold_event_def forward_def Let_def split: prod.splits option.splits)
next
  case (Cons e evs)
  show ?case
  proof (cases "ho \<or> isLifecycleEvent (stringValue (event_type e))")
    case True
    then have "hold_event hp cfg env ho n fn h e = (h\<lparr>hs_held := hs_held h @ [e]\<rparr>, None)"
      using Cons.prems by (auto simp: hold_event_def quiet_def Let_def)
    then show ?thesis
      using Cons.IH [of "h\<lparr>hs_held := hs_held h @ [e]\<rparr>"] Cons.prems by (auto simp: feed_then_Cons)
  next
    case False
    obtain h1 err1 where c: "commit fn h = (h1, err1)"
      by (cases "commit fn h")
    have "hold_event hp cfg env ho n fn h e = (case err1 of Some x \<Rightarrow> (h1, Some x) | None \<Rightarrow> forward fn h1 e)"
      using Cons.prems False by (auto simp: hold_event_def quiet_def Let_def c)
    then obtain h2 x where "hold_event hp cfg env ho n fn h e = (h2, x)" "hs_committed h2"
      using commit_feed [OF c] by (auto simp: forward_def split: option.splits prod.splits)
    then show ?thesis
      using Cons.prems(4) forward_committed [of h2 hp cfg env ho n fn "evs @ [fin]" None h' err]
      by (cases x) (auto simp: feed_then_Cons)
  qed
qed

lemma stream_at_once:
  assumes "attempt_events hp decode (envs 0) = (evs @ [fin], None)" "list_all quiet evs"
    and "stringValue (event_type fin) = ''response.completed''" "feed fn s (evs @ [fin]) = (s', err)"
  shows "\<exists>nts. streamWithRetries hp decode cfg envs ho fn 0 s = (s', nts, err)"
proof -
  let ?env = "envs 0"
  obtain st e where once: "streamOnce hp decode ?env (hold_event hp cfg ?env ho 0 fn) (hold_start cfg 0 s) = (st, e)"
    by (cases "streamOnce hp decode ?env (hold_event hp cfg ?env ho 0 fn) (hold_start cfg 0 s)")
  note f = streamOnce_feed [OF once assms(1), symmetric]
  have "hs_committed (ss_user st)"
  proof (cases "hs_committed (hold_start cfg 0 s)")
    case True
    then show ?thesis
      using forward_committed [OF True f] by simp
  next
    case False
    then show ?thesis
      by (rule hold_commits [OF _ assms(2,3) f])
  qed
  moreover from this have "(hs_user (ss_user st), e) = (s', err)"
    using round_cases [OF assms(1) once] assms(4) by (auto simp: feed_then_def split: option.split)
  ultimately show ?thesis
    by (subst streamWithRetries.simps) (simp add: once Let_def)
qed

subsection \<open>A plain text\<close>

text \<open>A payload without tools, whose text holds none of the words that steer the fake.\<close>

definition steering :: "string list" where
  "steering = [''FAKE_HTTP_ERROR'', ''FAKE_OVERLOADED'', ''FAKE_ERROR_ONLY'', ''FAKE_UPSTREAM_ERROR'', ''FAKE_DELTA_ONLY'',
     ''FAKE_RESPONSE_FAILED'', ''FAKE_RAW_DONE'']"

definition plain_request :: "gomap \<Rightarrow> bool" where
  "plain_request payload \<longleftrightarrow> \<not> hasTool payload ''image_generation'' \<and> \<not> hasTool payload ''function''
     \<and> list_all (\<lambda>w. \<not> str_contains w (fake_text payload)) steering"

definition plain_events :: "int \<Rightarrow> rat \<Rightarrow> gomap \<Rightarrow> json list" where
  "plain_events number createdAt payload =
     [numbered ''response.created'' 0 [(''response'', JObj (fake_created (fake_response number createdAt payload)))],
      numbered ''response.output_text.delta'' 1 [(''output_index'', JInt 0), (''content_index'', JInt 0),
        (''item_id'', JStr (''msg_go_contract_'' @ itoa number)), (''delta'', JStr (fake_text payload)), (''logprobs'', JArr [])],
      numbered ''response.output_item.done'' 3 [(''output_index'', JInt 0), (''item'', JObj (outputMessage number (fake_text payload)))]]"

definition plain_final :: "int \<Rightarrow> rat \<Rightarrow> gomap \<Rightarrow> json" where
  "plain_final number createdAt payload = numbered ''response.completed'' 4 [(''response'', JObj (fake_response number createdAt payload))]"

lemma plain_item: "plain_request payload \<Longrightarrow> fake_item number payload = outputMessage number (fake_text payload)"
  by (simp add: plain_request_def hasTool_def fake_item_def firstFunctionTool_def)

lemma plain_stream:
  assumes "plain_request payload"
  shows "fake_responses number createdAt payload
    = FakeStream (plain_events number createdAt payload @ [plain_final number createdAt payload]) True"
  using assms plain_item [OF assms]
  by (simp add: fake_responses_def plain_request_def steering_def plain_events_def plain_final_def last_events_def
      item_events_def outputMessage_def Let_def)

lemma status_ok: "validResponseStatus ''completed''" "validResponseStatus ''in_progress''"
  by code_simp+

text \<open>What arrives of an event.\<close>

abbreviation arrived :: "json \<Rightarrow> gomap" where
  "arrived e \<equiv> normalizeBackendEvent (cloneMap (mapAny e))"

lemma arrived_numbered:
  assumes "t \<noteq> ''response.done''" "\<And>r. mapAny (clone_json (oget rest ''response'')) = Some r \<Longrightarrow> validResponseStatus (stringValue (oget r ''status''))"
  shows "arrived (numbered t seq rest) = Some (clone_obj ((''type'', JStr t) # (''sequence_number'', JInt seq) # rest))"
  using assms by (simp add: numbered_def cloneMap_def normalizeBackendEvent_def Let_def split: option.split)

lemma arrived_sel:
  assumes "arrived e = Some (clone_obj m)"
  shows "event_type (arrived e) = clone_json (oget m ''type'')" "mget (arrived e) k = clone_json (oget m k)"
  unfolding assms by (simp_all add: event_type_def)

lemma arrived_created:
  "arrived (numbered ''response.created'' 0 [(''response'', JObj (fake_created (fake_response number createdAt payload)))])
    = Some (clone_obj [(''type'', JStr ''response.created''), (''sequence_number'', JInt 0),
        (''response'', JObj (fake_created (fake_response number createdAt payload)))])"
  by (rule arrived_numbered) (auto simp: clone_json_JObj fake_created_def stringValue_def status_ok simp del: clone_json.simps(9))

lemma arrived_final:
  "arrived (plain_final number createdAt payload)
    = Some (clone_obj [(''type'', JStr ''response.completed''), (''sequence_number'', JInt 4),
        (''response'', JObj (fake_response number createdAt payload))])"
  unfolding plain_final_def
  by (rule arrived_numbered) (auto simp: clone_json_JObj fake_response_def stringValue_def status_ok)

lemma arrived_other:
  "t \<noteq> ''response.done'' \<Longrightarrow> oget rest ''response'' = JNull \<Longrightarrow>
     arrived (numbered t seq rest) = Some (clone_obj ((''type'', JStr t) # (''sequence_number'', JInt seq) # rest))"
  by (rule arrived_numbered) auto

definition plain_arrived :: "int \<Rightarrow> rat \<Rightarrow> gomap \<Rightarrow> gomap list" where
  "plain_arrived number createdAt payload = map arrived (plain_events number createdAt payload)"

lemmas plain_arrived_eq = plain_arrived_def plain_events_def arrived_created list.map
  arrived_other [of "''response.output_text.delta''"] arrived_other [of "''response.output_item.done''"]

lemma plain_quiet: "list_all quiet (plain_arrived number createdAt payload)"
  by (simp add: plain_arrived_eq quiet_def event_type_def stringValue_def)

lemma plain_received:
  "until_finished (plain_arrived number createdAt payload @ [arrived (plain_final number createdAt payload)])
    = plain_arrived number createdAt payload @ [arrived (plain_final number createdAt payload)]"
  by (simp add: plain_arrived_eq arrived_final event_terminal_def event_type_def clone_json_JObj)

lemma plain_terminal: "fst (event_terminal (arrived (plain_final number createdAt payload)))"
  by (simp add: arrived_final event_terminal_def event_type_def clone_json_JObj)

text \<open>The hypotheses on \<open>encoding/json\<close> for the events of an answer: short texts that decode to the JSON copy.\<close>

definition travels :: "(json \<Rightarrow> string) \<Rightarrow> (string \<Rightarrow> gomap option) \<Rightarrow> fake_answer \<Rightarrow> bool" where
  "travels marshal decode a = (case a of
       FakeDoc status headers doc \<Rightarrow> True
     | FakeStream events finished \<Rightarrow> list_all (\<lambda>e. event_text (marshal e) \<and> decode (marshal e) = Some (cloneMap (mapAny e))) events)"

lemma fake_attempt_events:
  assumes "fake_responses number createdAt payload = FakeStream events finished"
    and "travels marshal decode (FakeStream events finished)"
  shows "attempt_events hp decode (fake_attempt marshal number createdAt payload)
    = (until_finished (map arrived events),
       if list_ex (\<lambda>e. fst (event_terminal e)) (until_finished (map arrived events)) then None
       else Some (BackendError 502 ''Codex stream closed before the response completed.''))"
proof -
  have tail: "(if finished then done_frame else []) = [] \<or> (if finished then done_frame else []) = done_frame"
    by simp
  have ok: "\<forall>e \<in> set events. event_text (marshal e) \<and> decode (marshal e) = Some (cloneMap (mapAny e))"
    using assms(2) by (simp add: travels_def list_all_iff)
  let ?start = "sse_start [] :: gomap list sse_state"
  have start: "ss_data ?start = []" "\<not> ss_finished ?start" "ss_user ?start = []" "\<not> ss_terminal ?start"
    by (simp_all add: sse_start_def)
  obtain st' where "sse_loop decode False recorder
      \<lparr>rd_bytes = concat (map (writeSSE marshal) events) @ (if finished then done_frame else []), rd_broken = False\<rparr> ?start = closing st'"
    "ss_user st' = until_finished (map arrived events)"
    "ss_terminal st' \<longleftrightarrow> list_ex (\<lambda>e. fst (event_terminal e)) (until_finished (map arrived events))"
    using read_frames [OF ok start(1,2) tail, of False] start(3,4) by (auto simp only: append_Nil simp_thms)
  then show ?thesis
    by (simp add: attempt_events_def streamOnce_def fake_attempt_def fake_upstream_def fake_bytes_def assms(1) closing_def)
qed

lemma plain_attempt:
  assumes "plain_request payload" "travels marshal decode (fake_responses number createdAt payload)"
  shows "attempt_events hp decode (fake_attempt marshal number createdAt payload)
    = (plain_arrived number createdAt payload @ [arrived (plain_final number createdAt payload)], None)"
proof -
  have "map arrived (plain_events number createdAt payload @ [plain_final number createdAt payload])
      = plain_arrived number createdAt payload @ [arrived (plain_final number createdAt payload)]"
    by (simp add: plain_arrived_def)
  then show ?thesis
    using fake_attempt_events [OF plain_stream [OF assms(1)] assms(2) [unfolded plain_stream [OF assms(1)]], of hp]
    by (simp add: plain_received plain_terminal)
qed

text \<open>The response that is collected.\<close>

lemma clone_twice: "clone_obj (clone_obj m) = clone_obj m"
  using clone_plain [OF plain_clone, of "JObj m"] by (simp add: clone_json_JObj del: clone_json.simps(9))

lemma plain_collect:
  assumes "plain_request payload"
  shows "\<exists>acc. feed (collect_event hp now) collect_start (plain_arrived number createdAt payload @ [arrived (plain_final number createdAt payload)]) = (acc, None)
    \<and> collect_result hp now acc = Inr (clone_obj (fake_response number createdAt payload))"
proof -
  let ?r = "clone_obj (fake_response number createdAt payload)"
  have t: "event_type (arrived (plain_final number createdAt payload)) = JStr ''response.completed''"
    and r: "mget (arrived (plain_final number createdAt payload)) ''response'' = JObj ?r"
    unfolding arrived_final by (simp_all add: event_type_def clone_json_JObj del: clone_json.simps(9))
  have out: "sliceAny (oget ?r ''output'') \<noteq> []"
    by (simp add: fake_response_def)
  have "\<exists>acc. feed (collect_event hp now) collect_start (plain_arrived number createdAt payload) = (acc, None)"
    by (simp add: plain_arrived_eq collect_event_def event_type_def clone_json_JObj split: option.split)
  then obtain acc where "feed (collect_event hp now) collect_start (plain_arrived number createdAt payload) = (acc, None)"
    by blast
  moreover have "collect_event hp now acc (arrived (plain_final number createdAt payload)) = (acc\<lparr>co_completed := Some ?r\<rparr>, None)"
  proof -
    have "cloneMap (Some ?r) = Some ?r"
      by (simp add: cloneMap_def clone_twice)
    then show ?thesis
      by (simp add: collect_event_def t r)
  qed
  ultimately show ?thesis
    using out by (simp add: feed_append collect_result_def)
qed

lemma fake_collects:
  assumes "plain_request document" "document = sent_document drop_params payload"
    and "travels marshal decode (fake_responses (served + 1) createdAt document)"
  shows "backend_collect (fake_backend marshal decode cfg drop_params served createdAt) payload
    = Inr (clone_obj (fake_response (served + 1) createdAt document))"
proof -
  let ?envs = "\<lambda>k :: nat. fake_attempt marshal (served + int k + 1) createdAt document"
  have ev: "attempt_events hp decode (?envs 0) = (plain_arrived (served + 1) createdAt document
      @ [arrived (plain_final (served + 1) createdAt document)], None)" for hp
    using plain_attempt [OF assms(1,3), of hp] by simp
  obtain acc where c: "feed (collect_event (\<lambda>_. None) 0) collect_start (plain_arrived (served + 1) createdAt document
      @ [arrived (plain_final (served + 1) createdAt document)]) = (acc, None)"
    "collect_result (\<lambda>_. None) 0 acc = Inr (clone_obj (fake_response (served + 1) createdAt document))"
    using plain_collect [OF assms(1)] by blast
  have t: "stringValue (event_type (arrived (plain_final (served + 1) createdAt document))) = ''response.completed''"
    unfolding arrived_final by (simp add: event_type_def stringValue_def)
  obtain nts where "streamWithRetries (\<lambda>_. None) decode cfg ?envs True (collect_event (\<lambda>_. None) 0) 0 collect_start = (acc, nts, None)"
    using stream_at_once [of _ _ ?envs, OF ev plain_quiet t c(1)] by blast
  then show ?thesis
    by (simp add: backend_collect_def fake_backend_def collect_whole_def c(2) assms(2) [symmetric])
qed

text \<open>\<open>ensureResponse\<close> changes nothing that is there, and adds only its own keys.\<close>

lemma default_keeps:
  "oget m k \<noteq> JNull \<Longrightarrow> oget (setDefault m j v) k = oget m k"
  "oget m k \<noteq> JNull \<Longrightarrow> oget (if has_key m j then m else oset j v m) k = oget m k"
  by (auto simp: setDefault_def has_key_def oget_def split: option.splits)

lemma default_other:
  "k \<noteq> j \<Longrightarrow> oget (setDefault m j v) k = oget m k"
  "k \<noteq> j \<Longrightarrow> oget (if has_key m j then m else oset j v m) k = oget m k"
  by (simp_all add: setDefault_def)

lemma ensure_keeps:
  "clone_json (oget r k) \<noteq> JNull \<Longrightarrow> oget (ensureResponse r request fresh now) k = clone_json (oget r k)"
  unfolding ensureResponse_def Let_def by (simp only: default_keeps oget_clone_obj not_False_eq_True)

lemma ensure_adds_none:
  assumes "k \<notin> {''id'', ''object'', ''created_at'', ''status'', ''model'', ''output'', ''parallel_tool_calls'', ''tool_choice'', ''tools'',
     ''previous_response_id'', ''usage''}"
  shows "oget (ensureResponse r request fresh now) k = clone_json (oget r k)"
proof -
  have "k \<noteq> ''id''" "k \<noteq> ''object''" "k \<noteq> ''created_at''" "k \<noteq> ''status''" "k \<noteq> ''model''" "k \<noteq> ''output''"
    "k \<noteq> ''parallel_tool_calls''" "k \<noteq> ''tool_choice''" "k \<noteq> ''tools''" "k \<noteq> ''previous_response_id''" "k \<noteq> ''usage''"
    using assms by simp_all
  note other = this [THEN default_other(1)] this [THEN default_other(2)]
  show ?thesis
    unfolding ensureResponse_def Let_def other by simp
qed

lemma responseToChat_id: "oget (responseToChat r fb legacy n now) ''id'' = JStr (chat_id (stringValue (oget r ''id'')))"
  by (simp add: responseToChat_def Let_def split: prod.split)

text \<open>C3: From end to end: a chat request whose conversation the fake Codex answers with a text gets one completion,
  status 200, with that text as the content of the assistant's message and \<open>stop\<close> as the reason, under the id and the
  model of the response; so the payload, the bytes of the stream, its events, the collected response and the
  completion fit together.\<close>

theorem chat_with_fake_codex:
  assumes "oget b ''stream'' = JBool False"
    and "document = sent_document drop_params (chatToResponse b model)" "plain_request document"
    and "travels marshal decode (fake_responses (served + 1) createdAt document)"
  shows "\<exists>completion cs'. createChat model (fake_backend marshal decode cfg drop_params served createdAt) chat_id0 fresh now unix (Inr sl) (Some b) cs
      = (Some (PlainAnswer (json_response 200 (JObj completion))), cs')
    \<and> oget completion ''id'' = JStr (''chatcmpl_go_contract_'' @ itoa (served + 1))
    \<and> oget completion ''choices'' = JArr (map (\<lambda>i. JObj [(''index'', JInt (int i)),
        (''message'', JObj [(''role'', JStr ''assistant''), (''content'', JStr (fake_text document))]),
        (''finish_reason'', JStr ''stop''), (''logprobs'', JNull)]) [0..<nat (chatChoiceCount (oget b ''n''))])"
proof -
  let ?r = "clone_obj (fake_response (served + 1) createdAt document)"
  define e where "e = ensureResponse ?r (chatToResponse b model) fresh now"
  let ?cq = "\<lparr>cq_http_date = (\<lambda>_. None), cq_body = b, cq_payload = chatToResponse b model, cq_fresh = fresh, cq_now = now, cq_unix = unix\<rparr>"
  have collected: "backend_collect (fake_backend marshal decode cfg drop_params served createdAt) (chatToResponse b model) = Inr ?r"
    by (rule fake_collects [OF assms(3,2,4)])
  have item: "oget (fake_response (served + 1) createdAt document) ''output'' = JArr [JObj (outputMessage (served + 1) (fake_text document))]"
    by (simp add: fake_response_def plain_item [OF assms(3)])
  have gets: "oget e ''output'' = JArr [JObj (clone_obj (outputMessage (served + 1) (fake_text document)))]"
    "oget e ''output_text'' = JNull" "oget e ''status'' = JStr ''completed''"
    "oget e ''id'' = JStr (''resp_go_contract_'' @ itoa (served + 1))"
    using ensure_keeps [of ?r "''output''"] ensure_adds_none [of "''output_text''" ?r] ensure_keeps [of ?r "''status''"] ensure_keeps [of ?r "''id''"]
    by (simp_all add: e_def item clone_twice clone_json_JObj del: clone_json.simps(9)) (simp_all add: fake_response_def)
  have said: "responseText (Some e) = fake_text document"
    by (simp add: responseText_def gets messageText_def outputMessage_def stringValue_def clone_json_JObj)
  have calls: "output_calls (Some e) = []"
    by (simp add: output_calls_def gets outputMessage_def clone_json_JObj)
  have message: "chat_message_of (Some e) legacy = ([(''role'', JStr ''assistant''), (''content'', JStr (fake_text document))], ''stop'')" for legacy
    by (simp add: chat_message_of_def calls said)
  have ok: "failedResponseError (\<lambda>_. None) unix (Some ?r) = None"
    by (simp add: failedResponseError_def fake_response_def stringValue_def)
  have count: "max 1 (chatChoiceCount v) = chatChoiceCount v" for v
    by (simp add: chatChoiceCount_def Let_def)
  let ?c = "collected_completion ?cq ?r"
  have c: "?c = with_metadata b (responseToChat e (stringValue (oget (chatToResponse b model) ''model'')) (cq_legacy ?cq) (chatChoiceCount (oget b ''n'')) unix)"
    by (simp add: collected_completion_def e_def)
  have copy: "clone_obj [(''role'', JStr ''assistant''), (''content'', JStr (fake_text document))]
      = [(''role'', JStr ''assistant''), (''content'', JStr (fake_text document))]"
    by (simp add: clone_obj_def)
  have "oget ?c ''choices'' = JArr (map (\<lambda>i. JObj [(''index'', JInt (int i)),
        (''message'', JObj [(''role'', JStr ''assistant''), (''content'', JStr (fake_text document))]),
        (''finish_reason'', JStr ''stop''), (''logprobs'', JNull)]) [0..<nat (chatChoiceCount (oget b ''n''))])"
    unfolding c by (simp add: with_metadata_def responseToChat_choices message finish_reason_def gets count copy split: option.split)
  moreover have "oget ?c ''id'' = JStr (''chatcmpl_go_contract_'' @ itoa (served + 1))"
    unfolding c by (simp add: with_metadata_def responseToChat_id chat_id_def gets stringValue_def split: option.split)
  moreover have "createChat model (fake_backend marshal decode cfg drop_params served createdAt) chat_id0 fresh now unix (Inr sl) (Some b) cs
      = (Some (PlainAnswer (json_response 200 (JObj ?c))), remember_chat b ?c cs)"
    using assms(1) ok by (simp add: createChat_def collected Let_def fake_backend_def [of marshal, THEN arg_cong [where f = be_http_date]])
  ultimately show ?thesis
    by blast
qed

text \<open>A reader and a writer of JSON that suffice for the four events of one answer.\<close>

definition sample_marshal :: "json \<Rightarrow> string" where
  "sample_marshal e = CHR ''{'' # stringValue (mget (mapAny e) ''type'') @ ''}''"

definition sample_reader :: "gomap \<Rightarrow> string \<Rightarrow> gomap option" where
  "sample_reader payload raw = map_option (\<lambda>e. cloneMap (mapAny e))
     (List.find (\<lambda>e. sample_marshal e = raw) (plain_events 1 0 payload @ [plain_final 1 0 payload]))"

lemma sample_travels:
  assumes "plain_request payload"
  shows "travels sample_marshal (sample_reader payload) (fake_responses 1 0 payload)"
  unfolding plain_stream [OF assms]
  by (simp add: travels_def plain_events_def plain_final_def sample_reader_def sample_marshal_def numbered_def stringValue_def
      event_text_def newline_def maxSSEEventBytes_def)

definition hello_body :: obj where
  "hello_body = [(''stream'', JBool False), (''messages'', JArr [JObj [(''role'', JStr ''user''), (''content'', JStr ''hi'')]])]"

lemma hello_document:
  "plain_request (sent_document [] (chatToResponse hello_body ''m''))"
  "fake_text (sent_document [] (chatToResponse hello_body ''m'')) = ''fake Go contract: hi''"
  by code_simp+

theorem chat_with_fake_codex_witness:
  "\<exists>completion cs'. createChat ''m'' (fake_backend sample_marshal (sample_reader (sent_document [] (chatToResponse hello_body ''m'')))
       \<lparr>cfg_MaxRetries = 2, cfg_retryBaseDelay = 1\<rparr> [] 0 0) ''c'' ''f'' 0 0 (Inr None) (Some hello_body) (new_store 1)
      = (Some (PlainAnswer (json_response 200 (JObj completion))), cs')
    \<and> oget completion ''id'' = JStr (''chatcmpl_go_contract_'' @ itoa 1)
    \<and> oget completion ''choices'' = JArr [JObj [(''index'', JInt 0),
        (''message'', JObj [(''role'', JStr ''assistant''), (''content'', JStr ''fake Go contract: hi'')]),
        (''finish_reason'', JStr ''stop''), (''logprobs'', JNull)]]"
proof -
  have s: "oget hello_body ''stream'' = JBool False" "chatChoiceCount (oget hello_body ''n'') = 1"
    by (simp_all add: hello_body_def chatChoiceCount_def intValue_def)
  let ?doc = "sent_document [] (chatToResponse hello_body ''m'')"
  have t: "travels sample_marshal (sample_reader ?doc) (fake_responses (0 + 1) 0 ?doc)"
    using sample_travels [OF hello_document(1)] by simp
  show ?thesis
    using chat_with_fake_codex [OF s(1) refl hello_document(1) t, of "\<lparr>cfg_MaxRetries = 2, cfg_retryBaseDelay = 1\<rparr>" "''c''" "''f''" 0 0 None
        "new_store 1"]
    by (simp add: hello_document(2) s(2))
qed

subsection \<open>The server that tests ask\<close>

lemma last_request_is_kept:
  "fr_Path r = responses_path \<Longrightarrow> LastResponseRequest (snd (fake_handle createdAt uri r f)) = Some r"
  by (simp add: LastResponseRequest_def fake_handle_def fake_begin_def Let_def)

text \<open>Whatever requests begin and end, the maximum is at least what runs.\<close>

lemma fake_maximum:
  "fk_active f \<le> fk_maximum f \<Longrightarrow> fk_active (fake_begin f) \<le> fk_maximum (fake_begin f) \<and> fk_active (fake_end f) \<le> fk_maximum (fake_end f)"
  by (simp add: fake_begin_def fake_end_def)

lemma fake_models_are_listed: "listModels (Some (cloneMap (Some fake_models))) = [''gpt-5.6-luna'']"
  by (simp add: listModels_def listed_model_def fake_models_def cloneMap_def clone_obj_def stringValue_def Let_def)

section \<open>The login of the tests\<close>

text \<open>\<open>testauth\<close>: an unsigned token, and the document that holds it; \<open>now\<close> is in seconds.\<close>

definition JWT :: "(json \<Rightarrow> string) \<Rightarrow> obj \<Rightarrow> string" where
  "JWT marshal payload =
     encode_raw url_alphabet (marshal (JObj [(''alg'', JStr ''none''), (''typ'', JStr ''JWT'')])) @ ''.''
     @ encode_raw url_alphabet (marshal (JObj payload)) @ ''.sig''"

definition test_claims :: "int \<Rightarrow> obj" where
  "test_claims now = [(''exp'', JInt (now + 3600)), (auth_claim, JObj [(''chatgpt_account_id'', JStr ''acct_go_test'')])]"

definition test_login :: "(json \<Rightarrow> string) \<Rightarrow> int \<Rightarrow> obj" where
  "test_login marshal now = [(''auth_mode'', JStr ''chatgpt''),
     (''tokens'', JObj [(''access_token'', JStr (JWT marshal (test_claims now))), (''account_id'', JStr ''acct_go_test'')])]"

lemma url_alphabet_no_dot: "CHR ''.'' \<notin> set url_alphabet"
  by code_simp

lemma encode_no_dot: "CHR ''.'' \<notin> set (encode_raw url_alphabet s)"
proof -
  have "\<forall>d \<in> set (sextets (map byte s)). d < 64"
    by (rule sextets_less) (simp add: byte_less)
  then have "set (encode_raw url_alphabet s) \<subseteq> set url_alphabet"
    by (auto simp: encode_raw_def url_alphabet_facts(2))
  then show ?thesis
    using url_alphabet_no_dot by blast
qed

lemma split_on_first: "d \<notin> set a \<Longrightarrow> split_on d (a @ d # s) = a # split_on d s"
  by (induction a) auto

text \<open>A token that was built is read back.\<close>

lemma JWT_is_read:
  assumes "decode (marshal (JObj payload)) = Some (cloneMap (Some payload))"
  shows "jwtPayload decode (JWT marshal payload) = cloneMap (Some payload)"
proof -
  let ?h = "encode_raw url_alphabet (marshal (JObj [(''alg'', JStr ''none''), (''typ'', JStr ''JWT'')]))"
  let ?b = "encode_raw url_alphabet (marshal (JObj payload))"
  have "split_on (CHR ''.'') (JWT marshal payload) = [?h, ?b, ''sig'']"
    using split_on_first [OF encode_no_dot, of "marshal (JObj [(''alg'', JStr ''none''), (''typ'', JStr ''JWT'')])" "?b @ ''.sig''"]
      split_on_first [OF encode_no_dot, of "marshal (JObj payload)" "''sig''"]
    by (simp add: JWT_def)
  then show ?thesis
    using assms by (simp add: jwtPayload_def decode_encode)
qed

lemma test_login_is_borrowed:
  assumes "decode (marshal (JObj (test_claims now))) = Some (cloneMap (Some (test_claims now)))" "0 \<le> now" "now < 2 ^ 52"
    and "ap_cache a = None" "au_stat env = Inr st" "au_read env = Inr (Some (cloneMap (Some (test_login marshal now))))" "au_now env = now"
  shows "fst (borrow decode home env a) = Inr \<lparr>cr_AccessToken = JWT marshal (test_claims now), cr_AccountID = ''acct_go_test''\<rparr>"
proof -
  let ?t = "JWT marshal (test_claims now)"
  have e: "int_to_float (now + 3600) = of_int (now + 3600)" "int_to_float now = of_int now"
    using assms(2,3) by (simp_all add: int_to_float_exact)
  have "jwtNumber decode ?t ''exp'' = Some (int_to_float (now + 3600))"
    unfolding jwtNumber_def JWT_is_read [of decode marshal "test_claims now", OF assms(1)] by (simp add: cloneMap_def test_claims_def)
  moreover have "fl64 (of_int (now + 3600) - 30) = Some (of_int (now + 3570))"
    using fl64_whole [of "now + 3570"] assms(2,3) by (simp add: add.commute)
  ultimately have fresh: "tokenFresh now (jwtNumber decode ?t ''exp'')"
    by (simp add: tokenFresh_def float_minus_def e)
  have "?t \<noteq> []"
    by (simp add: JWT_def)
  then show ?thesis
    using assms(4-) fresh
    by (simp add: borrow_def cached_login_def read_login_def cloneMap_def test_login_def keep_login_def accountID_def stringValue_def Let_def)
qed

end
