(* ===== verification/Entry.thy ===== *)
theory Entry
  imports Strconv
begin

text \<open>
  The outermost parts: the command line entry (\<open>cmd/openai-api-server-via-codex/main.go\<close>) and the control of
  processes (\<open>process_unix.go\<close>, \<open>process_windows.go\<close>).  The system calls and commands are parameters.
\<close>

section \<open>The entry\<close>

definition normalizeVersion :: "string \<Rightarrow> string \<Rightarrow> string" where
  "normalizeVersion configured moduleVersion =
     (if configured \<noteq> ''dev'' then configured
      else if moduleVersion = [] \<or> moduleVersion = ''(devel)'' then configured
      else trim_prefix ''v'' moduleVersion)"

text \<open>\<open>build_info\<close> is the version of the main module, if the binary carries one.\<close>

definition resolvedVersion :: "string \<Rightarrow> string option \<Rightarrow> string" where
  "resolvedVersion version build_info = normalizeVersion version (case build_info of None \<Rightarrow> [] | Some v \<Rightarrow> v)"

text \<open>\<open>main\<close>: what goes to standard error, and the exit code.\<close>

definition main :: "(string list \<Rightarrow> string \<Rightarrow> string option) \<Rightarrow> string list \<Rightarrow> string \<Rightarrow> string option \<Rightarrow> string \<times> int" where
  "main run args version build_info = (case run args (resolvedVersion version build_info) of
       Some err \<Rightarrow> (err @ ''\<newline>'', 1) | None \<Rightarrow> ([], 0))"

section \<open>Processes on Unix\<close>

text \<open>The signals sent, and the answers: \<open>os.FindProcess\<close>, and \<open>kill\<close> for a process or, with a negative number,
  its group.\<close>

datatype signal = SigNone | SigTerm | SigKill

datatype sys_error = ErrPermission | ErrOther string

record unix_calls =
  uc_find :: "int \<Rightarrow> sys_error option"
  uc_signal :: "int \<Rightarrow> signal \<Rightarrow> sys_error option"

record sys_proc_attr =
  Setsid :: bool
  Setpgid :: bool

definition configureDaemonProcess :: sys_proc_attr where
  "configureDaemonProcess = \<lparr>Setsid = True, Setpgid = False\<rparr>"

definition configureProcessGroup :: sys_proc_attr where
  "configureProcessGroup = \<lparr>Setsid = False, Setpgid = True\<rparr>"

definition with_process :: "unix_calls \<Rightarrow> int \<Rightarrow> signal \<Rightarrow> sys_error option" where
  "with_process os pid s = (case uc_find os pid of Some e \<Rightarrow> Some e | None \<Rightarrow> uc_signal os pid s)"

text \<open>A process one may not signal is alive.\<close>

definition processAlive :: "unix_calls \<Rightarrow> int \<Rightarrow> bool" where
  "processAlive os pid = (case uc_find os pid of
       Some e \<Rightarrow> False
     | None \<Rightarrow> uc_signal os pid SigNone = None \<or> uc_signal os pid SigNone = Some ErrPermission)"

definition terminateProcess :: "unix_calls \<Rightarrow> int \<Rightarrow> sys_error option" where
  "terminateProcess os pid = with_process os pid SigTerm"

definition forceKillProcess :: "unix_calls \<Rightarrow> int \<Rightarrow> sys_error option" where
  "forceKillProcess os pid = with_process os pid SigKill"

definition killProcessGroup :: "unix_calls \<Rightarrow> int \<Rightarrow> sys_error option" where
  "killProcessGroup os pid = (if uc_signal os (- pid) SigKill = None then None else forceKillProcess os pid)"

section \<open>Processes on Windows\<close>

text \<open>The commands run: their output, or an error.\<close>

type_synonym run_command = "string list \<Rightarrow> string + string"

definition error_of :: "'e + 'a \<Rightarrow> 'e option" where
  "error_of r = (case r of Inl e \<Rightarrow> Some e | Inr _ \<Rightarrow> None)"

definition quoted_pid :: "int \<Rightarrow> string" where
  "quoted_pid pid = CHR 0x22 # itoa pid @ [CHR 0x22]"

definition windows_processAlive :: "run_command \<Rightarrow> int \<Rightarrow> bool" where
  "windows_processAlive run pid = (case run [''tasklist'', ''/FI'', ''PID eq '' @ itoa pid, ''/FO'', ''CSV'', ''/NH''] of
       Inl e \<Rightarrow> False
     | Inr out \<Rightarrow> \<not> str_contains ''no tasks'' (to_lower out) \<and> str_contains (quoted_pid pid) out)"

definition windows_terminateProcess :: "run_command \<Rightarrow> int \<Rightarrow> string option" where
  "windows_terminateProcess run pid = error_of (run [''taskkill'', ''/PID'', itoa pid, ''/T''])"

definition windows_forceKillProcess :: "run_command \<Rightarrow> int \<Rightarrow> string option" where
  "windows_forceKillProcess run pid = error_of (run [''taskkill'', ''/PID'', itoa pid, ''/T'', ''/F''])"

definition windows_killProcessGroup :: "run_command \<Rightarrow> int \<Rightarrow> string option" where
  "windows_killProcessGroup run pid = windows_forceKillProcess run pid"

section \<open>Laws\<close>

text \<open>A release keeps its version; a build of a module takes the module's without its \<open>v\<close>.\<close>

lemma version_of_module: "v \<noteq> [] \<Longrightarrow> resolvedVersion ''dev'' (Some (''v'' @ v)) = v"
  by (simp add: resolvedVersion_def normalizeVersion_def trim_prefix_def)

text \<open>A group is reported killed only if its signal or that of its leader was delivered.\<close>

lemma group_killed:
  "killProcessGroup os pid = None \<Longrightarrow> uc_signal os (- pid) SigKill = None \<or> uc_signal os pid SigKill = None"
  by (auto simp: killProcessGroup_def forceKillProcess_def with_process_def split: if_splits option.splits)

text \<open>A process that can be terminated is alive, if it still is when it is asked.\<close>

lemma terminated_was_alive:
  "terminateProcess os pid = None \<Longrightarrow> uc_signal os pid SigTerm = uc_signal os pid SigNone \<Longrightarrow> processAlive os pid"
  by (auto simp: terminateProcess_def with_process_def processAlive_def split: option.splits)

end
